(* ===== verification/Prelude.thy ===== *)
theory Prelude
  imports Main "HOL-Library.Word"
begin

text \<open>
  What every component of the development shares: the fixed-width integers of the x86
  profile (as set by the rules of
  src/profiles/x86-gcc-limited-libc/semantics/c-settings.k), results that are either an
  error or a value, with the sequencing of such results, the little-endian byte images of
  integers that cross a pipe, and the facts on lists that the loops of the C code need.
\<close>

unbundle bit_operations_syntax

section \<open>Fixed-width integers\<close>

type_synonym u8 = "8 word"
type_synonym u16 = "16 word"
type_synonym u32 = "32 word"
type_synonym u64 = "64 word"

text \<open>
  A C \<open>char\<close> of the profile is signed. Its promotion to \<open>int\<close> is sign extension
  and the conversion of an \<open>int\<close> to \<open>char\<close> keeps the low eight bits.
\<close>

abbreviation promote_char :: "u8 \<Rightarrow> u32" where
  "promote_char b \<equiv> scast b"

abbreviation to_char :: "u32 \<Rightarrow> u8" where
  "to_char c \<equiv> ucast c"

section \<open>Results\<close>

type_synonym ('e, 'a) res = "'e + 'a"

definition bindr :: "('e, 'a) res \<Rightarrow> ('a \<Rightarrow> ('e, 'b) res) \<Rightarrow> ('e, 'b) res" where
  "bindr r f = (case r of Inl e \<Rightarrow> Inl e | Inr a \<Rightarrow> f a)"

named_theorems res_simps \<open>evaluation of sequenced results\<close>

lemma bindr_Inl [simp, res_simps]: "bindr (Inl e) f = Inl e"
  by (simp add: bindr_def)

lemma bindr_Inr [simp, res_simps]: "bindr (Inr a) f = f a"
  by (simp add: bindr_def)

lemma bindr_cong [fundef_cong]:
  assumes "r = s" and "\<And>a. s = Inr a \<Longrightarrow> f a = g a"
  shows "bindr r f = bindr s g"
  using assms by (cases s) simp_all

lemma bindr_eq_Inr: "bindr r f = Inr b \<longleftrightarrow> (\<exists>a. r = Inr a \<and> f a = Inr b)"
  by (cases r) simp_all

lemma bindr_eq_Inl: "bindr r f = Inl e \<longleftrightarrow> r = Inl e \<or> (\<exists>a. r = Inr a \<and> f a = Inl e)"
  by (cases r) simp_all

lemma bindr_assoc: "bindr (bindr r f) g = bindr r (\<lambda>a. bindr (f a) g)"
  by (cases r) simp_all

section \<open>Little-endian images of integers\<close>

fun le_bytes :: "nat \<Rightarrow> nat \<Rightarrow> u8 list" where
  "le_bytes 0 v = []"
| "le_bytes (Suc k) v = of_nat (v mod 256) # le_bytes k (v div 256)"

fun of_le_bytes :: "u8 list \<Rightarrow> nat" where
  "of_le_bytes [] = 0"
| "of_le_bytes (b # bs) = unat b + 256 * of_le_bytes bs"

lemma length_le_bytes [simp]: "length (le_bytes k v) = k"
  by (induction k arbitrary: v) simp_all

lemma of_le_bytes_le_bytes: "of_le_bytes (le_bytes k v) = v mod 256 ^ k"
proof (induction k arbitrary: v)
  case 0
  then show ?case by simp
next
  case (Suc k)
  have "unat (of_nat (v mod 256) :: u8) = v mod 256"
    by (simp add: unat_of_nat)
  moreover have "v mod 256 ^ Suc k = v mod 256 + 256 * (v div 256 mod 256 ^ k)"
    by (simp add: mod_mult2_eq)
  ultimately show ?case using Suc.IH by simp
qed

lemma of_le_bytes_bound: "of_le_bytes bs < 256 ^ length bs"
proof (induction bs)
  case Nil
  then show ?case by simp
next
  case (Cons b bs)
  have "unat b < 256" using unsigned_less [of b] by simp
  with Cons.IH have "unat b + 256 * of_le_bytes bs < 256 + 256 * (256 ^ length bs - 1)"
    by (simp add: add_less_le_mono)
  also have "\<dots> = 256 ^ length (b # bs)"
    by (simp add: right_diff_distrib')
  finally show ?case by simp
qed

lemma le_bytes_of_le_bytes: "le_bytes (length bs) (of_le_bytes bs) = bs"
proof (induction bs)
  case Nil
  then show ?case by simp
next
  case (Cons b bs)
  have "unat b < 256" using unsigned_less [of b] by simp
  then have "(unat b + 256 * of_le_bytes bs) mod 256 = unat b"
    and "(unat b + 256 * of_le_bytes bs) div 256 = of_le_bytes bs"
    by simp_all
  with Cons.IH show ?case by simp
qed

section \<open>Words and lists\<close>

lemma unat_minus_1 [simp]: "(n :: 'a::len word) \<noteq> 0 \<Longrightarrow> unat (n - 1) = unat n - 1"
  by (simp add: unat_minus_one)

lemma unat_pos_iff [simp]: "0 < unat (n :: 'a::len word) \<longleftrightarrow> n \<noteq> 0"
  by (simp add: unat_gt_0)

lemma word_neq_0_unat: "n \<noteq> 0 \<longleftrightarrow> unat (n :: 'a::len word) \<noteq> 0"
  by (simp add: unat_eq_zero)

lemma unat_eq_Suc:
  "unat (n :: 'a::len word) = Suc k \<Longrightarrow> n \<noteq> 0 \<and> unat (n - 1) = k"
  using unat_minus_1 [of n] by fastforce

lemma unat_of_nat_u64: "k < 2 ^ 64 \<Longrightarrow> unat (of_nat k :: u64) = k"
  by (simp add: unat_of_nat)

lemma length_takeWhile_less: "\<exists>x\<in>set xs. \<not> P x \<Longrightarrow> length (takeWhile P xs) < length xs"
  by (induction xs) auto

lemma nth_length_takeWhile_neg:
  "length (takeWhile P xs) < length xs \<Longrightarrow> \<not> P (xs ! length (takeWhile P xs))"
  by (rule nth_length_takeWhile)

section \<open>Runs that succeed\<close>

text \<open>\<open>runs r Q\<close>: the computation returns a value, and the value satisfies \<open>Q\<close>.\<close>

definition runs :: "('e, 'a) res \<Rightarrow> ('a \<Rightarrow> bool) \<Rightarrow> bool" where
  "runs r Q \<longleftrightarrow> (\<exists>a. r = Inr a \<and> Q a)"

lemma runs_Inr [simp]: "runs (Inr a) Q \<longleftrightarrow> Q a"
  by (simp add: runs_def)

lemma runs_Inl [simp]: "\<not> runs (Inl e) Q"
  by (simp add: runs_def)

lemma runs_bindr: "runs r R \<Longrightarrow> (\<And>a. R a \<Longrightarrow> runs (f a) Q) \<Longrightarrow> runs (bindr r f) Q"
  by (auto simp: runs_def)

lemma runs_mono: "runs r R \<Longrightarrow> (\<And>a. R a \<Longrightarrow> Q a) \<Longrightarrow> runs r Q"
  by (auto simp: runs_def)

lemma runsD: "runs r Q \<Longrightarrow> \<exists>a. r = Inr a \<and> Q a"
  by (simp add: runs_def)

section \<open>Bounds of machine words\<close>

lemma unat_u64_less: "unat (a :: u64) < 256 ^ 8"
proof -
  have "unat a < 2 ^ LENGTH(64)" by (rule unsigned_less)
  then show ?thesis by simp
qed

lemma unat_u32_less: "unat (a :: u32) < 256 ^ 4"
proof -
  have "unat a < 2 ^ LENGTH(32)" by (rule unsigned_less)
  then show ?thesis by simp
qed

lemma runs_bindr_Inr [simp]: "runs (bindr r (\<lambda>a. Inr (f a))) Q \<longleftrightarrow> runs r (\<lambda>a. Q (f a))"
  by (cases r) simp_all

end
