(* ===== verification/CMem.thy ===== *)
theory CMem
  imports Prelude
begin

text \<open>
  The part of the C abstract machine that the library sources under
  src/profiles/x86-gcc-limited-libc/src use: objects made of bytes, pointers into them,
  loads, stores, pointer arithmetic, and the heap. Undefined behaviour is an error value, as
  the semantics under src/semantics/c reports it. The heap follows the rules for
  \<open>malloc\<close> and \<open>free\<close> of src/semantics/c/library/stdlib.k, with the bound of
  src/profiles/x86-gcc-limited-libc/semantics/c-settings.k.

  A byte is \<open>None\<close> while it is indeterminate. A pointer may point one past the end of
  its object, never further.
\<close>

section \<open>Objects, pointers, memory\<close>

datatype ub =
    NullDeref
  | DeadObject
  | OutOfBounds
  | Indeterminate
  | ReadOnly
  | BadFree
  | SignedOverflow

type_synonym cell = "u8 option"

record obj =
  contents :: "cell list"
  writable :: bool

record mem =
  objs :: "nat \<Rightarrow> obj option"
  fresh :: nat
  malloced :: "nat \<Rightarrow> nat option"

datatype ptr = NullPtr | Ptr nat int

type_synonym 'a ubres = "(ub, 'a) res"

fun obj_at :: "mem \<Rightarrow> ptr \<Rightarrow> (nat \<times> int \<times> obj) ubres" where
  "obj_at m NullPtr = Inl NullDeref"
| "obj_at m (Ptr b i) =
     (case objs m b of None \<Rightarrow> Inl DeadObject | Some ob \<Rightarrow> Inr (b, i, ob))"

definition load_cell :: "mem \<Rightarrow> ptr \<Rightarrow> cell ubres" where
  "load_cell m p = bindr (obj_at m p) (\<lambda>(b, i, ob).
     if 0 \<le> i \<and> i < int (length (contents ob)) then Inr (contents ob ! nat i)
     else Inl OutOfBounds)"

definition load :: "mem \<Rightarrow> ptr \<Rightarrow> u8 ubres" where
  "load m p = bindr (load_cell m p) (\<lambda>c. case c of None \<Rightarrow> Inl Indeterminate | Some v \<Rightarrow> Inr v)"

definition store_cell :: "mem \<Rightarrow> ptr \<Rightarrow> cell \<Rightarrow> mem ubres" where
  "store_cell m p c = bindr (obj_at m p) (\<lambda>(b, i, ob).
     if \<not> (0 \<le> i \<and> i < int (length (contents ob))) then Inl OutOfBounds
     else if \<not> writable ob then Inl ReadOnly
     else Inr (m\<lparr>objs := (objs m)(b \<mapsto> ob\<lparr>contents := (contents ob)[nat i := c]\<rparr>)\<rparr>))"

definition store :: "mem \<Rightarrow> ptr \<Rightarrow> u8 \<Rightarrow> mem ubres" where
  "store m p v = store_cell m p (Some v)"

definition ptr_add :: "mem \<Rightarrow> ptr \<Rightarrow> int \<Rightarrow> ptr ubres" where
  "ptr_add m p k = bindr (obj_at m p) (\<lambda>(b, i, ob).
     if 0 \<le> i + k \<and> i + k \<le> int (length (contents ob)) then Inr (Ptr b (i + k))
     else Inl OutOfBounds)"

text \<open>The difference of two pointers into one object, as the \<open>size_t\<close> it is converted to.\<close>

fun ptr_diff :: "ptr \<Rightarrow> ptr \<Rightarrow> u64 ubres" where
  "ptr_diff (Ptr b i) (Ptr c j) = (if b = c then Inr (word_of_int (i - j)) else Inl OutOfBounds)"
| "ptr_diff _ _ = Inl NullDeref"

section \<open>The heap\<close>

definition maxHeapBound :: nat where
  "maxHeapBound = 2 ^ 32 - 2"

definition malloc :: "mem \<Rightarrow> u64 \<Rightarrow> mem \<times> ptr" where
  "malloc m n =
     (if unat n \<le> maxHeapBound
      then (m\<lparr>objs := (objs m)(fresh m \<mapsto> \<lparr>contents = replicate (unat n) None, writable = True\<rparr>),
              fresh := fresh m + 1,
              malloced := (malloced m)(fresh m \<mapsto> unat n)\<rparr>, Ptr (fresh m) 0)
      else (m, NullPtr))"

fun free :: "mem \<Rightarrow> ptr \<Rightarrow> mem ubres" where
  "free m NullPtr = Inr m"
| "free m (Ptr b i) =
     (if malloced m b = None \<or> i \<noteq> 0 then Inl BadFree
      else Inr (m\<lparr>objs := (objs m)(b := None), malloced := (malloced m)(b := None)\<rparr>))"

text \<open>No live object and no heap entry has an identity that \<open>malloc\<close> still has to hand out.\<close>

definition wf_mem :: "mem \<Rightarrow> bool" where
  "wf_mem m \<longleftrightarrow> (\<forall>b. fresh m \<le> b \<longrightarrow> objs m b = None \<and> malloced m b = None)"

section \<open>Abstraction: runs of bytes and C strings\<close>

fun padd :: "ptr \<Rightarrow> nat \<Rightarrow> ptr" where
  "padd NullPtr k = NullPtr"
| "padd (Ptr b i) k = Ptr b (i + int k)"

fun cells_at :: "mem \<Rightarrow> ptr \<Rightarrow> cell list \<Rightarrow> bool" where
  "cells_at m NullPtr cs = False"
| "cells_at m (Ptr b i) cs =
     (case objs m b of None \<Rightarrow> False
      | Some ob \<Rightarrow> 0 \<le> i \<and> nat i + length cs \<le> length (contents ob) \<and>
          take (length cs) (drop (nat i) (contents ob)) = cs)"

abbreviation bytes_at :: "mem \<Rightarrow> ptr \<Rightarrow> u8 list \<Rightarrow> bool" where
  "bytes_at m p bs \<equiv> cells_at m p (map Some bs)"

definition cstr :: "mem \<Rightarrow> ptr \<Rightarrow> u8 list \<Rightarrow> bool" where
  "cstr m p xs \<longleftrightarrow> bytes_at m p (xs @ [0]) \<and> 0 \<notin> set xs"

text \<open>A writable region of \<open>n\<close> bytes.\<close>

fun room_at :: "mem \<Rightarrow> ptr \<Rightarrow> nat \<Rightarrow> bool" where
  "room_at m NullPtr n = False"
| "room_at m (Ptr b i) n =
     (case objs m b of None \<Rightarrow> False
      | Some ob \<Rightarrow> 0 \<le> i \<and> nat i + n \<le> length (contents ob) \<and> writable ob)"

text \<open>The bytes left from a pointer to the end of its object: what a scan consumes.\<close>

fun room :: "mem \<Rightarrow> ptr \<Rightarrow> nat" where
  "room m NullPtr = 0"
| "room m (Ptr b i) = (case objs m b of None \<Rightarrow> 0 | Some ob \<Rightarrow> nat (int (length (contents ob)) - i))"

text \<open>The memory after the cells \<open>cs\<close> have been written from \<open>p\<close> on.\<close>

definition splice_at :: "nat \<Rightarrow> 'a list \<Rightarrow> 'a list \<Rightarrow> 'a list" where
  "splice_at i cs xs = take i xs @ cs @ drop (i + length cs) xs"

fun write_cells :: "mem \<Rightarrow> ptr \<Rightarrow> cell list \<Rightarrow> mem" where
  "write_cells m NullPtr cs = m"
| "write_cells m (Ptr b i) cs =
     (case objs m b of None \<Rightarrow> m
      | Some ob \<Rightarrow> m\<lparr>objs := (objs m)(b \<mapsto> ob\<lparr>contents := splice_at (nat i) cs (contents ob)\<rparr>)\<rparr>)"

abbreviation write_bytes :: "mem \<Rightarrow> ptr \<Rightarrow> u8 list \<Rightarrow> mem" where
  "write_bytes m p bs \<equiv> write_cells m p (map Some bs)"

named_theorems mem_simps \<open>evaluation of memory accesses\<close>

section \<open>Laws of the memory\<close>

lemma room_decreases [mem_simps]:
  "load_cell m p = Inr c \<Longrightarrow> ptr_add m p 1 = Inr q \<Longrightarrow> room m q < room m p"
  by (cases p) (auto simp: load_cell_def ptr_add_def split: option.splits if_splits)

lemma load_load_cell: "load m p = Inr v \<longleftrightarrow> load_cell m p = Inr (Some v)"
  by (auto simp: load_def bindr_eq_Inr split: option.splits)

lemma room_load_pos: "load m p = Inr v \<Longrightarrow> 0 < room m p"
  by (cases p) (auto simp: load_load_cell load_cell_def split: option.splits if_splits)

lemma ptr_add_room: "ptr_add m p 1 = Inr q \<Longrightarrow> room m q = room m p - 1"
  by (cases p) (auto simp: ptr_add_def split: option.splits if_splits)

lemma padd_0 [simp]: "padd p 0 = p"
  by (cases p) simp_all

lemma padd_padd [simp]: "padd (padd p j) k = padd p (j + k)"
  by (cases p) simp_all

lemma padd_neq_Null [simp]: "p \<noteq> NullPtr \<Longrightarrow> padd p k \<noteq> NullPtr"
  by (cases p) simp_all

lemma padd_inject [simp]: "p \<noteq> NullPtr \<Longrightarrow> padd p j = padd p k \<longleftrightarrow> j = k"
  by (cases p) simp_all

lemma cells_at_not_Null [dest]: "cells_at m p cs \<Longrightarrow> p \<noteq> NullPtr"
  by (cases p) simp_all

lemma cells_at_Cons:
  "cells_at m p (c # cs) \<longleftrightarrow> load_cell m p = Inr c \<and> cells_at m (padd p (Suc 0)) cs"
proof (cases p)
  case NullPtr
  then show ?thesis by (simp add: load_cell_def)
next
  case (Ptr b i)
  show ?thesis
  proof (cases "objs m b")
    case None
    with Ptr show ?thesis by simp
  next
    case (Some ob)
    show ?thesis
    proof (cases "0 \<le> i \<and> nat i < length (contents ob)")
      case True
      then have "drop (nat i) (contents ob) = contents ob ! nat i # drop (Suc (nat i)) (contents ob)"
        by (simp add: Cons_nth_drop_Suc)
      moreover have "nat (i + 1) = Suc (nat i)" and "i < int (length (contents ob))"
        using True by auto
      ultimately show ?thesis using True Ptr Some by (auto simp: load_cell_def)
    next
      case False
      with Ptr Some show ?thesis by (auto simp: load_cell_def)
    qed
  qed
qed

lemma cells_at_ptr_add:
  "cells_at m p (c # cs) \<Longrightarrow> ptr_add m p 1 = Inr (padd p (Suc 0))"
  by (cases p) (auto simp: ptr_add_def split: option.splits)

lemma bytes_at_Cons [mem_simps]:
  "bytes_at m p (b # bs) \<longleftrightarrow> load m p = Inr b \<and> bytes_at m (padd p (Suc 0)) bs"
  by (simp add: cells_at_Cons load_load_cell)

lemma bytes_at_step:
  assumes "bytes_at m p (b # bs)"
  shows "load m p = Inr b" and "load_cell m p = Inr (Some b)"
    and "ptr_add m p 1 = Inr (padd p (Suc 0))" and "bytes_at m (padd p (Suc 0)) bs"
  using assms cells_at_ptr_add [of m p "Some b" "map Some bs"]
  by (simp_all add: cells_at_Cons load_load_cell)

lemma cells_at_append:
  "cells_at m p (cs @ ds) \<longleftrightarrow> cells_at m p cs \<and> cells_at m (padd p (length cs)) ds"
proof (induction cs arbitrary: p)
  case Nil
  show ?case by (cases p) (auto split: option.splits)
next
  case (Cons c cs)
  then show ?case by (simp add: cells_at_Cons)
qed

lemma cells_at_Nil_appendI: "cells_at m p cs \<Longrightarrow> cells_at m (padd p (length cs)) []"
  using cells_at_append [of m p cs "[]"] by simp

lemma cstr_not_Null [dest]: "cstr m p xs \<Longrightarrow> p \<noteq> NullPtr"
  by (auto simp: cstr_def)

lemma cstr_Nil: "cstr m p [] \<Longrightarrow> load m p = Inr 0"
  by (simp add: cstr_def cells_at_Cons load_load_cell)

lemma cstr_Cons:
  assumes "cstr m p (x # xs)"
  shows "load m p = Inr x" and "x \<noteq> 0"
    and "ptr_add m p 1 = Inr (padd p (Suc 0))" and "cstr m (padd p (Suc 0)) xs"
  using assms bytes_at_step [of m p x "xs @ [0]"] by (auto simp: cstr_def)

lemma cstr_drop: "cstr m p xs \<Longrightarrow> k \<le> length xs \<Longrightarrow> cstr m (padd p k) (drop k xs)"
proof (induction k arbitrary: p xs)
  case 0
  then show ?case by simp
next
  case (Suc k)
  then obtain y ys where xs: "xs = y # ys" by (cases xs) auto
  with Suc.prems have "cstr m (padd p (Suc 0)) ys" by (blast dest: cstr_Cons(4))
  with Suc.IH [of "padd p (Suc 0)" ys] Suc.prems xs show ?case by simp
qed

lemma cstr_unique: "cstr m p xs \<Longrightarrow> cstr m p ys \<Longrightarrow> xs = ys"
proof (induction xs arbitrary: p ys)
  case Nil
  then show ?case using cstr_Nil [of m p] cstr_Cons(1,2) [of m p] by (cases ys) fastforce+
next
  case step: (Cons x xs)
  note x = cstr_Cons [OF step.prems(1)]
  show ?case
  proof (cases ys)
    case Nil
    with step.prems(2) x show ?thesis by (auto dest: cstr_Nil)
  next
    case (Cons y zs)
    note y = cstr_Cons [OF step.prems(2) [unfolded Cons]]
    from x(1) y(1) have "x = y" by simp
    moreover have "xs = zs" using x(4) y(4) by (rule step.IH)
    ultimately show ?thesis using Cons by simp
  qed
qed

section \<open>Laws of writing\<close>

fun disjoint_regions :: "ptr \<Rightarrow> nat \<Rightarrow> ptr \<Rightarrow> nat \<Rightarrow> bool" where
  "disjoint_regions (Ptr b i) n (Ptr c j) k = 
     (n = 0 \<or> k = 0 \<or> b \<noteq> c \<or> i + int n \<le> j \<or> j + int k \<le> i)"
| "disjoint_regions _ _ _ _ = True"

lemma length_splice [simp]: "i + length cs \<le> length xs \<Longrightarrow> length (splice_at i cs xs) = length xs"
  by (simp add: splice_at_def)

lemma splice_Nil [simp]: "splice_at i [] xs = xs"
  by (simp add: splice_at_def)

lemma splice_one: "i < length xs \<Longrightarrow> splice_at i [c] xs = xs[i := c]"
  by (simp add: splice_at_def upd_conv_take_nth_drop)

lemma splice_splice:
  "i + length cs \<le> length xs \<Longrightarrow>
   splice_at (i + length cs) ds (splice_at i cs xs) = splice_at i (cs @ ds) xs"
  by (simp add: splice_at_def ac_simps)

lemma splice_same: "i + length cs \<le> length xs \<Longrightarrow> take (length cs) (drop i (splice_at i cs xs)) = cs"
  by (simp add: splice_at_def)

lemma splice_before:
  "j + k \<le> i \<Longrightarrow> i + length cs \<le> length xs \<Longrightarrow>
   take k (drop j (splice_at i cs xs)) = take k (drop j xs)"
  by (simp add: splice_at_def take_drop min_absorb1)

lemma splice_after:
  "i + length cs \<le> j \<Longrightarrow> i + length cs \<le> length xs \<Longrightarrow>
   take k (drop j (splice_at i cs xs)) = take k (drop j xs)"
  by (simp add: splice_at_def)

lemma room_at_not_Null [dest]: "room_at m p n \<Longrightarrow> p \<noteq> NullPtr"
  by (cases p) simp_all

lemma room_at_less: "room_at m p n \<Longrightarrow> k \<le> n \<Longrightarrow> room_at m p k"
  by (cases p) (auto split: option.splits)

lemma room_at_padd: "room_at m p (j + n) \<Longrightarrow> room_at m (padd p j) n"
  by (cases p) (auto split: option.splits)

lemma room_at_ptr_add: "room_at m p (Suc n) \<Longrightarrow> ptr_add m p 1 = Inr (padd p (Suc 0))"
  by (cases p) (auto simp: ptr_add_def split: option.splits)

lemma store_cell_room_at: "room_at m p (Suc n) \<Longrightarrow> store_cell m p c = Inr (write_cells m p [c])"
  by (cases p) (auto simp: store_cell_def splice_one split: option.splits)

lemma room_at_write_cells [simp]:
  "room_at m p (length cs) \<Longrightarrow> room_at (write_cells m p cs) q n = room_at m q n"
  by (cases p; cases q) (auto split: option.splits)

lemma write_cells_Nil [simp]: "write_cells m p [] = m"
  by (cases p) (auto simp: map_upd_triv split: option.splits)

lemma write_cells_append:
  assumes "room_at m p (length cs + n)"
  shows "write_cells (write_cells m p cs) (padd p (length cs)) ds = write_cells m p (cs @ ds)"
proof (cases p)
  case NullPtr
  with assms show ?thesis by simp
next
  case (Ptr b i)
  with assms obtain ob where ob: "objs m b = Some ob" and i: "0 \<le> i"
    and len: "nat i + length cs \<le> length (contents ob)"
    by (auto split: option.splits)
  from i have "nat (i + int (length cs)) = nat i + length cs" by simp
  with Ptr ob len show ?thesis by (simp add: splice_splice)
qed

lemma write_cells_Cons:
  "room_at m p (Suc (length cs)) \<Longrightarrow>
   write_cells (write_cells m p [c]) (padd p (Suc 0)) cs = write_cells m p (c # cs)"
  using write_cells_append [of m p "[c]" "length cs" cs] by simp

lemma cells_at_write_cells_same:
  "room_at m p (length cs) \<Longrightarrow> cells_at (write_cells m p cs) p cs"
  by (cases p) (auto simp: splice_same split: option.splits)

lemma cells_at_write_cells_disjoint:
  assumes "room_at m p (length cs)" and "disjoint_regions p (length cs) q (length ds)"
  shows "cells_at (write_cells m p cs) q ds \<longleftrightarrow> cells_at m q ds"
proof (cases p)
  case NullPtr
  with assms show ?thesis by simp
next
  case p: (Ptr b i)
  show ?thesis
  proof (cases q)
    case NullPtr
    then show ?thesis by simp
  next
    case q: (Ptr c j)
    with p assms show ?thesis
      by (cases "b = c")
        (auto simp: splice_before splice_after nat_le_eq_zle nat_add_distrib split: option.splits)
  qed
qed

lemma disjoint_regions_sym: "disjoint_regions p n q k \<longleftrightarrow> disjoint_regions q k p n"
  by (cases p; cases q) auto

lemma disjoint_regions_head:
  "disjoint_regions p (Suc n) q (Suc k) \<Longrightarrow> disjoint_regions p (Suc 0) (padd q (Suc 0)) k"
  by (cases p; cases q) auto

lemma disjoint_regions_tail:
  "disjoint_regions p (Suc n) q (Suc k) \<Longrightarrow>
   disjoint_regions (padd p (Suc 0)) n (padd q (Suc 0)) k"
  by (cases p; cases q) auto

lemma disjoint_regions_mono:
  "disjoint_regions p n q k \<Longrightarrow> n' \<le> n \<Longrightarrow> k' \<le> k \<Longrightarrow> disjoint_regions p n' q k'"
  by (cases p; cases q) auto

lemma room_at_cells_at: "room_at m p n \<Longrightarrow> k \<le> n \<Longrightarrow> \<exists>cs. length cs = k \<and> cells_at m p cs"
proof (cases p)
  case NullPtr
  then show "room_at m p n \<Longrightarrow> k \<le> n \<Longrightarrow> ?thesis" by simp
next
  case (Ptr b i)
  then show "room_at m p n \<Longrightarrow> k \<le> n \<Longrightarrow> ?thesis"
    by (auto split: option.splits
        intro!: exI [of _ "take k (drop (nat i) (contents (the (objs m b))))"])
qed

end
