(* ===== verification/LibcString.thy ===== *)
theory LibcString
  imports CMem
begin

text \<open>
  The string and memory functions of src/profiles/x86-gcc-limited-libc/src/string.c, each
  loop as a function that terminates because its scan stays inside one object or its
  \<open>size_t\<close> counter falls, together with the two functions they call that are built into
  the semantics (\<open>strlen\<close> and \<open>strcpy\<close> of src/semantics/c/library/string.k). Every
  access goes through the memory of theory CMem, so that an access outside an object, through
  a null pointer or to an indeterminate byte is an error of the model.
  The specifications are stated over C strings and runs of bytes.
\<close>

section \<open>Termination of scans\<close>

lemma room_step: "load m p = Inr v \<Longrightarrow> ptr_add m p 1 = Inr q \<Longrightarrow> room m q < room m p"
  by (rule room_decreases) (simp add: load_load_cell)

lemma room_padd: "load m p = Inr v \<Longrightarrow> room m (padd p (Suc 0)) < room m p"
  by (cases p) (auto simp: load_load_cell load_cell_def split: option.splits if_splits)

lemma room_store: "store m p v = Inr m' \<Longrightarrow> room m' q = room m q"
  by (cases p; cases q) (auto simp: store_def store_cell_def split: option.splits if_splits)

section \<open>Built-in string functions\<close>

function getString :: "mem \<Rightarrow> ptr \<Rightarrow> u8 list ubres" where
  "getString m p = bindr (load m p) (\<lambda>b.
     if b = 0 then Inr []
     else bindr (getString m (padd p (Suc 0))) (\<lambda>bs. Inr (b # bs)))"
  by pat_completeness auto
termination
  by (relation "measure (\<lambda>(m, p). room m p)") (auto dest: room_padd)

definition strlen :: "mem \<Rightarrow> ptr \<Rightarrow> u64 ubres" where
  "strlen m p = bindr (getString m p) (\<lambda>bs. Inr (of_nat (length bs)))"

function strcpy_loop :: "mem \<Rightarrow> ptr \<Rightarrow> ptr \<Rightarrow> mem ubres" where
  "strcpy_loop m dest src = bindr (load m src) (\<lambda>b.
     bindr (store m dest b) (\<lambda>m'.
       if b \<noteq> 0 then strcpy_loop m' (padd dest (Suc 0)) (padd src (Suc 0)) else Inr m'))"
  by pat_completeness auto
termination
  by (relation "measure (\<lambda>(m, d, s). room m s)") (auto simp: room_store dest: room_padd)

definition strcpy :: "mem \<Rightarrow> ptr \<Rightarrow> ptr \<Rightarrow> (mem \<times> ptr) ubres" where
  "strcpy m dest src =
     (if dest = NullPtr \<or> src = NullPtr then Inl NullDeref
      else bindr (strcpy_loop m dest src) (\<lambda>m'. Inr (m', dest)))"

section \<open>Searching\<close>

function strchr_loop :: "mem \<Rightarrow> ptr \<Rightarrow> u32 \<Rightarrow> ptr ubres" where
  "strchr_loop m s c = bindr (load m s) (\<lambda>b.
     if b \<noteq> 0 \<and> b \<noteq> to_char c then bindr (ptr_add m s 1) (\<lambda>s'. strchr_loop m s' c)
     else Inr s)"
  by pat_completeness auto
termination
  by (relation "measure (\<lambda>(m, s, c). room m s)") (auto dest: room_step)

text \<open>The final test compares the promoted \<open>char\<close> with the \<open>int\<close> argument itself.\<close>

definition strchr :: "mem \<Rightarrow> ptr \<Rightarrow> u32 \<Rightarrow> ptr ubres" where
  "strchr m s c = bindr (strchr_loop m s c) (\<lambda>s'.
     bindr (load m s') (\<lambda>b. Inr (if promote_char b = c then s' else NullPtr)))"

function memchr_loop :: "mem \<Rightarrow> ptr \<Rightarrow> u8 \<Rightarrow> u64 \<Rightarrow> ptr ubres" where
  "memchr_loop m src uc n =
     (if n \<noteq> 0 then bindr (load m src) (\<lambda>b.
        if b = uc then Inr src
        else bindr (ptr_add m src 1) (\<lambda>src'. memchr_loop m src' uc (n - 1)))
      else Inr NullPtr)"
  by pat_completeness auto
termination
  by (relation "measure (\<lambda>(m, s, c, n). unat n)") auto

definition memchr :: "mem \<Rightarrow> ptr \<Rightarrow> u32 \<Rightarrow> u64 \<Rightarrow> ptr ubres" where
  "memchr m s c n = memchr_loop m s (to_char c) n"

function strcspn_loop :: "mem \<Rightarrow> ptr \<Rightarrow> ptr \<Rightarrow> ptr \<Rightarrow> u64 ubres" where
  "strcspn_loop m s1 s2 sc1 = bindr (load m sc1) (\<lambda>b.
     if b \<noteq> 0 then bindr (strchr m s2 (promote_char b)) (\<lambda>q.
       if q \<noteq> NullPtr then ptr_diff sc1 s1
       else bindr (ptr_add m sc1 1) (\<lambda>sc1'. strcspn_loop m s1 s2 sc1'))
     else ptr_diff sc1 s1)"
  by pat_completeness auto
termination
  by (relation "measure (\<lambda>(m, s1, s2, sc1). room m sc1)") (auto dest: room_step)

definition strcspn :: "mem \<Rightarrow> ptr \<Rightarrow> ptr \<Rightarrow> u64 ubres" where
  "strcspn m s1 s2 = strcspn_loop m s1 s2 s1"

function strpbrk_loop :: "mem \<Rightarrow> ptr \<Rightarrow> ptr \<Rightarrow> ptr ubres" where
  "strpbrk_loop m s2 sc1 = bindr (load m sc1) (\<lambda>b.
     if b \<noteq> 0 then bindr (strchr m s2 (promote_char b)) (\<lambda>q.
       if q \<noteq> NullPtr then Inr sc1
       else bindr (ptr_add m sc1 1) (\<lambda>sc1'. strpbrk_loop m s2 sc1'))
     else Inr NullPtr)"
  by pat_completeness auto
termination
  by (relation "measure (\<lambda>(m, s2, sc1). room m sc1)") (auto dest: room_step)

definition strpbrk :: "mem \<Rightarrow> ptr \<Rightarrow> ptr \<Rightarrow> ptr ubres" where
  "strpbrk m s1 s2 = strpbrk_loop m s2 s1"

function strspn_loop :: "mem \<Rightarrow> ptr \<Rightarrow> ptr \<Rightarrow> ptr \<Rightarrow> u64 ubres" where
  "strspn_loop m s1 s2 sc1 = bindr (load m sc1) (\<lambda>b.
     if b \<noteq> 0 then bindr (strchr m s2 (promote_char b)) (\<lambda>q.
       if q = NullPtr then ptr_diff sc1 s1
       else bindr (ptr_add m sc1 1) (\<lambda>sc1'. strspn_loop m s1 s2 sc1'))
     else ptr_diff sc1 s1)"
  by pat_completeness auto
termination
  by (relation "measure (\<lambda>(m, s1, s2, sc1). room m sc1)") (auto dest: room_step)

definition strspn :: "mem \<Rightarrow> ptr \<Rightarrow> ptr \<Rightarrow> u64 ubres" where
  "strspn m s1 s2 = strspn_loop m s1 s2 s1"

section \<open>Comparison\<close>

function strcmp :: "mem \<Rightarrow> ptr \<Rightarrow> ptr \<Rightarrow> int ubres" where
  "strcmp m s1 s2 = bindr (load m s1) (\<lambda>a. bindr (load m s2) (\<lambda>b.
     if a = b then
       (if a = 0 then Inr 0
        else bindr (ptr_add m s1 1) (\<lambda>s1'. bindr (ptr_add m s2 1) (\<lambda>s2'. strcmp m s1' s2')))
     else Inr (if a < b then - 1 else 1)))"
  by pat_completeness auto
termination
  by (relation "measure (\<lambda>(m, s1, s2). room m s1)") (auto dest: room_step)

function strncmp_loop :: "mem \<Rightarrow> ptr \<Rightarrow> ptr \<Rightarrow> u64 \<Rightarrow> int ubres" where
  "strncmp_loop m s1 s2 n =
     bindr (load m s1) (\<lambda>a. bindr (load m s2) (\<lambda>b.
       if n \<noteq> 0 \<and> a = b then
         (if n - 1 = 0 \<or> a = 0 then Inr 0
          else bindr (ptr_add m s1 1) (\<lambda>s1'. bindr (ptr_add m s2 1) (\<lambda>s2'.
            strncmp_loop m s1' s2' (n - 1))))
       else Inr (if a < b then - 1 else if a > b then 1 else 0)))"
  by pat_completeness auto
termination
  by (relation "measure (\<lambda>(m, s1, s2, n). unat n)") auto

definition strncmp :: "mem \<Rightarrow> ptr \<Rightarrow> ptr \<Rightarrow> u64 \<Rightarrow> int ubres" where
  "strncmp m s1 s2 n = (if n = 0 then Inr 0 else strncmp_loop m s1 s2 n)"

function memcmp :: "mem \<Rightarrow> ptr \<Rightarrow> ptr \<Rightarrow> u64 \<Rightarrow> int ubres" where
  "memcmp m us1 us2 n =
     (if n \<noteq> 0 then bindr (load m us1) (\<lambda>a. bindr (load m us2) (\<lambda>b.
        if a \<noteq> b then Inr (if a < b then - 1 else 1)
        else bindr (ptr_add m us1 1) (\<lambda>us1'. bindr (ptr_add m us2 1) (\<lambda>us2'.
          memcmp m us1' us2' (n - 1)))))
      else Inr 0)"
  by pat_completeness auto
termination
  by (relation "measure (\<lambda>(m, s1, s2, n). unat n)") auto

declare getString.simps [simp del] strcpy_loop.simps [simp del] strchr_loop.simps [simp del]
  memchr_loop.simps [simp del] strcspn_loop.simps [simp del] strpbrk_loop.simps [simp del]
  strspn_loop.simps [simp del] strcmp.simps [simp del] strncmp_loop.simps [simp del]
  memcmp.simps [simp del]

section \<open>Substrings and last occurrences\<close>

lemma strchr_loop_room: "strchr_loop m s c = Inr p \<Longrightarrow> room m p \<le> room m s"
proof (induction m s c rule: strchr_loop.induct)
  case (1 m s c)
  from "1.prems" obtain b where b: "load m s = Inr b"
    by (subst (asm) strchr_loop.simps) (auto simp: bindr_eq_Inr)
  show ?case
  proof (cases "b \<noteq> 0 \<and> b \<noteq> to_char c")
    case True
    with "1.prems" b obtain s' where s': "ptr_add m s 1 = Inr s'"
      and r: "strchr_loop m s' c = Inr p"
      by (subst (asm) strchr_loop.simps) (auto simp: bindr_eq_Inr)
    have "room m p \<le> room m s'" using "1.IH" [OF b True s' r] .
    with ptr_add_room [OF s'] show ?thesis by simp
  next
    case False
    with "1.prems" b have "p = s"
      by (subst (asm) strchr_loop.simps) auto
    then show ?thesis by simp
  qed
qed

lemma strchr_found_room:
  assumes "strchr m s c = Inr p" and "p \<noteq> NullPtr" and "ptr_add m p 1 = Inr q"
  shows "room m q < room m s"
proof -
  from assms(1,2) obtain b where "strchr_loop m s c = Inr p" and "load m p = Inr b"
    by (auto simp: strchr_def bindr_eq_Inr split: if_splits)
  from strchr_loop_room [OF this(1)] room_step [OF this(2) assms(3)] show ?thesis
    by simp
qed

function strstr_loop :: "mem \<Rightarrow> ptr \<Rightarrow> ptr \<Rightarrow> u64 \<Rightarrow> ptr ubres" where
  "strstr_loop m haystack needle needlelen = bindr (load m needle) (\<lambda>c.
     bindr (strchr m haystack (promote_char c)) (\<lambda>h.
       if h \<noteq> NullPtr then bindr (strncmp m h needle needlelen) (\<lambda>r.
         if r = 0 then Inr h
         else bindr (ptr_add m h 1) (\<lambda>h'. strstr_loop m h' needle needlelen))
       else Inr NullPtr))"
  by pat_completeness auto
termination
  by (relation "measure (\<lambda>(m, h, nd, n). room m h)") (auto dest: strchr_found_room)

definition strstr :: "mem \<Rightarrow> ptr \<Rightarrow> ptr \<Rightarrow> ptr ubres" where
  "strstr m haystack needle = bindr (load m needle) (\<lambda>c.
     if c = 0 then Inr haystack
     else bindr (strlen m needle) (\<lambda>needlelen. strstr_loop m haystack needle needlelen))"

function strrchr_loop :: "mem \<Rightarrow> ptr \<Rightarrow> u32 \<Rightarrow> ptr \<Rightarrow> ptr ubres" where
  "strrchr_loop m s c found = bindr (strchr m s c) (\<lambda>s'.
     if s' \<noteq> NullPtr then bindr (ptr_add m s' 1) (\<lambda>s''. strrchr_loop m s'' c s')
     else Inr found)"
  by pat_completeness auto
termination
  by (relation "measure (\<lambda>(m, s, c, l). room m s)") (auto dest: strchr_found_room)

definition strrchr :: "mem \<Rightarrow> ptr \<Rightarrow> u32 \<Rightarrow> ptr ubres" where
  "strrchr m s c = (if c = 0 then strchr m s c else strrchr_loop m s c NullPtr)"

section \<open>Copying\<close>

function strncpy_pad :: "mem \<Rightarrow> ptr \<Rightarrow> u64 \<Rightarrow> mem ubres" where
  "strncpy_pad m dest n =
     (if n \<noteq> 0 then bindr (store m dest 0) (\<lambda>m'.
        bindr (ptr_add m' dest 1) (\<lambda>dest'. strncpy_pad m' dest' (n - 1)))
      else Inr m)"
  by pat_completeness auto
termination
  by (relation "measure (\<lambda>(m, d, n). unat n)") auto

function strncpy_loop :: "mem \<Rightarrow> ptr \<Rightarrow> ptr \<Rightarrow> u64 \<Rightarrow> mem ubres" where
  "strncpy_loop m dest src n =
     (if n = 0 then Inr m
      else bindr (load m src) (\<lambda>b. bindr (store m dest b) (\<lambda>m'.
        bindr (ptr_add m' dest 1) (\<lambda>dest'. bindr (ptr_add m' src 1) (\<lambda>src'.
          if b \<noteq> 0 then strncpy_loop m' dest' src' (n - 1)
          else strncpy_pad m' dest' (n - 1))))))"
  by pat_completeness auto
termination
  by (relation "measure (\<lambda>(m, d, s, n). unat n)") auto

definition strncpy :: "mem \<Rightarrow> ptr \<Rightarrow> ptr \<Rightarrow> u64 \<Rightarrow> (mem \<times> ptr) ubres" where
  "strncpy m dest src n = bindr (strncpy_loop m dest src n) (\<lambda>m'. Inr (m', dest))"

text \<open>Bytes are copied as \<open>unsigned char\<close>, indeterminate ones too.\<close>

function memcpy_loop :: "mem \<Rightarrow> ptr \<Rightarrow> ptr \<Rightarrow> u64 \<Rightarrow> mem ubres" where
  "memcpy_loop m dst8 src8 count =
     (if count \<noteq> 0 then bindr (load_cell m src8) (\<lambda>c. bindr (store_cell m dst8 c) (\<lambda>m'.
        bindr (ptr_add m' dst8 1) (\<lambda>dst8'. bindr (ptr_add m' src8 1) (\<lambda>src8'.
          memcpy_loop m' dst8' src8' (count - 1)))))
      else Inr m)"
  by pat_completeness auto
termination
  by (relation "measure (\<lambda>(m, d, s, n). unat n)") auto

definition memcpy :: "mem \<Rightarrow> ptr \<Rightarrow> ptr \<Rightarrow> u64 \<Rightarrow> (mem \<times> ptr) ubres" where
  "memcpy m dest src count = bindr (memcpy_loop m dest src count) (\<lambda>m'. Inr (m', dest))"

definition memmove :: "mem \<Rightarrow> ptr \<Rightarrow> ptr \<Rightarrow> u64 \<Rightarrow> (mem \<times> ptr) ubres" where
  "memmove m s1 s2 n =
     (let (m1, tmp) = malloc m n in
      bindr (memcpy m1 tmp s2 n) (\<lambda>(m2, _).
        bindr (memcpy m2 s1 tmp n) (\<lambda>(m3, _).
          bindr (free m3 tmp) (\<lambda>m4. Inr (m4, s1)))))"

function strend :: "mem \<Rightarrow> ptr \<Rightarrow> ptr ubres" where
  "strend m s = bindr (load m s) (\<lambda>b.
     if b \<noteq> 0 then bindr (ptr_add m s 1) (\<lambda>s'. strend m s') else Inr s)"
  by pat_completeness auto
termination
  by (relation "measure (\<lambda>(m, s). room m s)") (auto dest: room_step)

definition strcat :: "mem \<Rightarrow> ptr \<Rightarrow> ptr \<Rightarrow> (mem \<times> ptr) ubres" where
  "strcat m s1 s2 = bindr (strend m s1) (\<lambda>s.
     bindr (strcpy m s s2) (\<lambda>(m', _). Inr (m', s1)))"

function strncat_loop :: "mem \<Rightarrow> ptr \<Rightarrow> ptr \<Rightarrow> u64 \<Rightarrow> (mem \<times> ptr) ubres" where
  "strncat_loop m s s2 n =
     (if n \<noteq> 0 then bindr (load m s2) (\<lambda>b. bindr (ptr_add m s2 1) (\<lambda>s2'.
        bindr (store m s b) (\<lambda>m'.
          if b \<noteq> 0 then bindr (ptr_add m' s 1) (\<lambda>s'. strncat_loop m' s' s2' (n - 1))
          else Inr (m', s))))
      else Inr (m, s))"
  by pat_completeness auto
termination
  by (relation "measure (\<lambda>(m, s, s2, n). unat n)") auto

definition strncat :: "mem \<Rightarrow> ptr \<Rightarrow> ptr \<Rightarrow> u64 \<Rightarrow> (mem \<times> ptr) ubres" where
  "strncat m s1 s2 n = bindr (strend m s1) (\<lambda>s.
     bindr (strncat_loop m s s2 n) (\<lambda>(m', s').
       bindr (store m' s' 0) (\<lambda>m''. Inr (m'', s1))))"

declare strstr_loop.simps [simp del] strrchr_loop.simps [simp del]
  strncpy_pad.simps [simp del] strncpy_loop.simps [simp del] memcpy_loop.simps [simp del]
  strend.simps [simp del] strncat_loop.simps [simp del]

section \<open>Specifications: searching\<close>

lemma to_char_promote_char [simp]: "to_char (promote_char b) = b"
  by (rule bit_word_eqI) (simp add: bit_word_ucast_iff bit_word_scast_iff)

lemma promote_char_inject [simp]: "promote_char a = promote_char b \<longleftrightarrow> a = b"
  by (metis to_char_promote_char)

lemma promote_char_0_iff: "promote_char b = 0 \<longleftrightarrow> b = 0"
  using promote_char_inject [of b 0] by simp

text \<open>An \<open>int\<close> in the range of \<open>char\<close> survives the conversion to \<open>char\<close> and back.\<close>

definition in_char_range :: "u32 \<Rightarrow> bool" where
  "in_char_range c \<longleftrightarrow> promote_char (to_char c) = c"

lemma in_char_range_promote [simp]: "in_char_range (promote_char b)"
  by (simp add: in_char_range_def)

lemma getString_cstr: "cstr m p xs \<Longrightarrow> getString m p = Inr xs"
proof (induction xs arbitrary: p)
  case Nil
  then show ?case by (simp add: getString.simps [of m p] cstr_Nil)
next
  case (Cons x xs)
  then show ?case using cstr_Cons [OF Cons.prems] by (simp add: getString.simps [of m p])
qed

lemma strlen_cstr: "cstr m p xs \<Longrightarrow> strlen m p = Inr (of_nat (length xs))"
  by (simp add: strlen_def getString_cstr)

lemma strend_cstr: "cstr m p xs \<Longrightarrow> strend m p = Inr (padd p (length xs))"
proof (induction xs arbitrary: p)
  case Nil
  then show ?case by (simp add: strend.simps [of m p] cstr_Nil)
next
  case (Cons x xs)
  then show ?case using cstr_Cons [OF Cons.prems] by (simp add: strend.simps [of m p])
qed

lemma cstr_load: "cstr m p xs \<Longrightarrow> k \<le> length xs \<Longrightarrow> load m (padd p k) = Inr ((xs @ [0]) ! k)"
proof -
  assume *: "cstr m p xs" "k \<le> length xs"
  then have "cstr m (padd p k) (drop k xs)" by (rule cstr_drop)
  then show ?thesis
  proof (cases "drop k xs")
    case Nil
    with * \<open>cstr m (padd p k) (drop k xs)\<close> show ?thesis by (auto dest!: cstr_Nil)
  next
    case (Cons y ys)
    with * have "xs ! k = y" and "k < length xs"
      by (metis nth_via_drop, metis drop_eq_Nil le_neq_implies_less list.simps(3) order_refl)
    with Cons \<open>cstr m (padd p k) (drop k xs)\<close> show ?thesis
      by (auto dest!: cstr_Cons(1) simp: nth_append)
  qed
qed

lemma strchr_loop_cstr:
  "cstr m p xs \<Longrightarrow>
   strchr_loop m p c = Inr (padd p (length (takeWhile (\<lambda>b. b \<noteq> to_char c) xs)))"
proof (induction xs arbitrary: p)
  case Nil
  then show ?case by (simp add: strchr_loop.simps [of m p] cstr_Nil)
next
  case (Cons x xs)
  then show ?case using cstr_Cons [OF Cons.prems] by (simp add: strchr_loop.simps [of m p])
qed

lemma takeWhile_neq_index:
  "x \<in> set xs \<Longrightarrow> (xs @ [0]) ! length (takeWhile (\<lambda>b. b \<noteq> x) xs) = x"
  by (induction xs) auto

lemma takeWhile_neq_absent: "x \<notin> set xs \<Longrightarrow> takeWhile (\<lambda>b. b \<noteq> x) xs = xs"
  by (induction xs) auto

lemma strchr_cstr:
  assumes "cstr m p xs"
  shows "strchr m p c =
    Inr (if in_char_range c \<and> to_char c \<in> set (xs @ [0])
         then padd p (length (takeWhile (\<lambda>b. b \<noteq> to_char c) xs)) else NullPtr)"
proof -
  let ?k = "length (takeWhile (\<lambda>b. b \<noteq> to_char c) xs)"
  have k: "?k \<le> length xs" by (rule length_takeWhile_le)
  have eq: "strchr m p c =
      Inr (if promote_char ((xs @ [0]) ! ?k) = c then padd p ?k else NullPtr)"
    using strchr_loop_cstr [OF assms, of c] cstr_load [OF assms k] by (simp add: strchr_def)
  show ?thesis
  proof (cases "to_char c \<in> set xs")
    case True
    then show ?thesis using eq by (simp add: takeWhile_neq_index in_char_range_def)
  next
    case False
    then have "(xs @ [0]) ! ?k = 0" by (simp add: takeWhile_neq_absent)
    moreover have "promote_char 0 = c \<longleftrightarrow> in_char_range c \<and> to_char c = 0"
      by (auto simp: in_char_range_def)
    ultimately show ?thesis using eq False by simp
  qed
qed

text \<open>The test the span functions make: a byte of the first string occurs in the second.\<close>

lemma strchr_member:
  assumes "cstr m q ys" and "b \<noteq> 0"
  obtains r where "strchr m q (promote_char b) = Inr r" and "r = NullPtr \<longleftrightarrow> b \<notin> set ys"
  using strchr_cstr [OF assms(1), of "promote_char b"] assms padd_neq_Null [of q]
  by (cases "b \<in> set ys") auto

lemma ptr_diff_padd [simp]: "p \<noteq> NullPtr \<Longrightarrow> ptr_diff (padd p k) p = Inr (of_nat k)"
  by (cases p) simp_all

lemma ptr_diff_padd_padd [simp]:
  "p \<noteq> NullPtr \<Longrightarrow> ptr_diff (padd p (j + k)) (padd p j) = Inr (of_nat k)"
  by (cases p) simp_all

lemma strspn_loop_cstr:
  assumes "cstr m (padd p j) xs" and "cstr m q ys" and "p \<noteq> NullPtr"
  shows "strspn_loop m p q (padd p j) =
    Inr (of_nat (j + length (takeWhile (\<lambda>b. b \<in> set ys) xs)))"
  using assms(1)
proof (induction xs arbitrary: j)
  case Nil
  then show ?case using assms(3) by (simp add: strspn_loop.simps [of m p] cstr_Nil)
next
  case (Cons x xs)
  note x = cstr_Cons [OF Cons.prems]
  obtain r where "strchr m q (promote_char x) = Inr r" and "r = NullPtr \<longleftrightarrow> x \<notin> set ys"
    using strchr_member [OF assms(2) x(2)] .
  then show ?case using x Cons.IH [of "Suc j"] assms(3)
    by (simp add: strspn_loop.simps [of m p q "padd p j"])
qed

lemma strcspn_loop_cstr:
  assumes "cstr m (padd p j) xs" and "cstr m q ys" and "p \<noteq> NullPtr"
  shows "strcspn_loop m p q (padd p j) =
    Inr (of_nat (j + length (takeWhile (\<lambda>b. b \<notin> set ys) xs)))"
  using assms(1)
proof (induction xs arbitrary: j)
  case Nil
  then show ?case using assms(3) by (simp add: strcspn_loop.simps [of m p] cstr_Nil)
next
  case (Cons x xs)
  note x = cstr_Cons [OF Cons.prems]
  obtain r where "strchr m q (promote_char x) = Inr r" and "r = NullPtr \<longleftrightarrow> x \<notin> set ys"
    using strchr_member [OF assms(2) x(2)] .
  then show ?case using x Cons.IH [of "Suc j"] assms(3)
    by (simp add: strcspn_loop.simps [of m p q "padd p j"])
qed

lemma strspn_cstr:
  "cstr m p xs \<Longrightarrow> cstr m q ys \<Longrightarrow>
   strspn m p q = Inr (of_nat (length (takeWhile (\<lambda>b. b \<in> set ys) xs)))"
  using strspn_loop_cstr [of m p 0 xs q ys] by (auto simp: strspn_def)

lemma strcspn_cstr:
  "cstr m p xs \<Longrightarrow> cstr m q ys \<Longrightarrow>
   strcspn m p q = Inr (of_nat (length (takeWhile (\<lambda>b. b \<notin> set ys) xs)))"
  using strcspn_loop_cstr [of m p 0 xs q ys] by (auto simp: strcspn_def)

lemma strpbrk_cstr:
  assumes "cstr m p xs" and "cstr m q ys"
  shows "strpbrk m p q =
    Inr (if set xs \<inter> set ys = {} then NullPtr
         else padd p (length (takeWhile (\<lambda>b. b \<notin> set ys) xs)))"
  unfolding strpbrk_def using assms(1)
proof (induction xs arbitrary: p)
  case Nil
  then show ?case by (simp add: strpbrk_loop.simps [of m q p] cstr_Nil)
next
  case (Cons x xs)
  note x = cstr_Cons [OF Cons.prems]
  obtain r where "strchr m q (promote_char x) = Inr r" and "r = NullPtr \<longleftrightarrow> x \<notin> set ys"
    using strchr_member [OF assms(2) x(2)] .
  then show ?case using x Cons.IH [OF x(4)]
    by (simp add: strpbrk_loop.simps [of m q p])
qed

lemma memchr_loop_bytes:
  "bytes_at m p xs \<Longrightarrow> length xs = unat n \<Longrightarrow>
   memchr_loop m p x n =
     Inr (if x \<in> set xs then padd p (length (takeWhile (\<lambda>b. b \<noteq> x) xs)) else NullPtr)"
proof (induction xs arbitrary: p n)
  case Nil
  then have "n = 0" by (simp add: unat_eq_zero)
  then show ?case by (simp add: memchr_loop.simps [of m p])
next
  case (Cons y xs)
  note y = bytes_at_step [OF Cons.prems(1)]
  have "n \<noteq> 0" using Cons.prems(2) by auto
  moreover from this have "length xs = unat (n - 1)" using Cons.prems(2) by simp
  ultimately show ?case using y Cons.IH [OF y(4)] by (simp add: memchr_loop.simps [of m p])
qed

section \<open>Specifications: comparison\<close>

text \<open>Comparison of byte sequences as \<open>unsigned char\<close>, a proper prefix being smaller.\<close>

fun cmp_bytes :: "u8 list \<Rightarrow> u8 list \<Rightarrow> int" where
  "cmp_bytes [] [] = 0"
| "cmp_bytes [] (y # ys) = - 1"
| "cmp_bytes (x # xs) [] = 1"
| "cmp_bytes (x # xs) (y # ys) =
     (if x = y then cmp_bytes xs ys else if x < y then - 1 else 1)"

lemma cmp_bytes_0_iff: "cmp_bytes xs ys = 0 \<longleftrightarrow> xs = ys"
  by (induction xs ys rule: cmp_bytes.induct) auto

lemma cmp_bytes_swap: "cmp_bytes ys xs = - cmp_bytes xs ys"
  by (induction xs ys rule: cmp_bytes.induct) auto

lemma u8_pos_iff: "0 < (x :: u8) \<longleftrightarrow> x \<noteq> 0"
  by (rule word_neq_0_conv [symmetric])

lemma strcmp_cstr:
  "cstr m p xs \<Longrightarrow> cstr m q ys \<Longrightarrow> strcmp m p q = Inr (cmp_bytes xs ys)"
proof (induction xs ys arbitrary: p q rule: cmp_bytes.induct)
  case 1
  then show ?case by (simp add: strcmp.simps [of m p q] cstr_Nil)
next
  case (2 y ys)
  then show ?case using cstr_Cons [OF "2.prems"(2)]
    by (simp add: strcmp.simps [of m p q] cstr_Nil u8_pos_iff)
next
  case (3 x xs)
  then show ?case using cstr_Cons [OF "3.prems"(1)]
    by (simp add: strcmp.simps [of m p q] cstr_Nil u8_pos_iff)
next
  case (4 x xs y ys)
  note x = cstr_Cons [OF "4.prems"(1)] and y = cstr_Cons [OF "4.prems"(2)]
  show ?case using x y "4.IH" [OF _ x(4) y(4)] by (simp add: strcmp.simps [of m p q])
qed

lemma strncmp_loop_cstr:
  "cstr m p xs \<Longrightarrow> cstr m q ys \<Longrightarrow> n \<noteq> 0 \<Longrightarrow>
   strncmp_loop m p q n = Inr (cmp_bytes (take (unat n) xs) (take (unat n) ys))"
proof (induction xs ys arbitrary: p q n rule: cmp_bytes.induct)
  case 1
  then show ?case by (simp add: strncmp_loop.simps [of m p q] cstr_Nil)
next
  case (2 y ys)
  then have "take (unat n) (y # ys) = y # take (unat n - 1) ys"
    by (cases "unat n") (auto simp: unat_eq_zero)
  then show ?case using cstr_Cons [OF "2.prems"(2)] "2.prems"
    by (simp add: strncmp_loop.simps [of m p q] cstr_Nil u8_pos_iff)
next
  case (3 x xs)
  then have "take (unat n) (x # xs) = x # take (unat n - 1) xs"
    by (cases "unat n") (auto simp: unat_eq_zero)
  then show ?case using cstr_Cons [OF "3.prems"(1)] "3.prems"
    by (auto simp add: strncmp_loop.simps [of m p q] cstr_Nil u8_pos_iff)
next
  case (4 x xs y ys)
  note x = cstr_Cons [OF "4.prems"(1)] and y = cstr_Cons [OF "4.prems"(2)]
  have t: "take (unat n) (z # zs) = z # take (unat (n - 1)) zs" for z :: u8 and zs
    using "4.prems"(3) by (cases "unat n") (auto simp: unat_eq_zero)
  show ?case
  proof (cases "x = y \<and> n - 1 \<noteq> 0")
    case True
    then show ?thesis using x y "4.IH" [OF _ x(4) y(4), of "n - 1"] "4.prems"(3)
      by (simp add: strncmp_loop.simps [of m p q n] t)
  next
    case False
    then show ?thesis using x y "4.prems"(3)
      by (auto simp add: strncmp_loop.simps [of m p q n] t not_less)
  qed
qed

lemma strncmp_cstr:
  "cstr m p xs \<Longrightarrow> cstr m q ys \<Longrightarrow>
   strncmp m p q n = Inr (cmp_bytes (take (unat n) xs) (take (unat n) ys))"
  by (simp add: strncmp_def strncmp_loop_cstr)

lemma memcmp_bytes:
  "bytes_at m p xs \<Longrightarrow> bytes_at m q ys \<Longrightarrow> length xs = unat n \<Longrightarrow> length ys = unat n \<Longrightarrow>
   memcmp m p q n = Inr (cmp_bytes xs ys)"
proof (induction xs ys arbitrary: p q n rule: cmp_bytes.induct)
  case 1
  then have "n = 0" by (simp add: unat_eq_zero)
  then show ?case by (simp add: memcmp.simps [of m p q])
next
  case (4 x xs y ys)
  note x = bytes_at_step [OF "4.prems"(1)] and y = bytes_at_step [OF "4.prems"(2)]
  have n: "n \<noteq> 0" using "4.prems"(3) by auto
  then have "length xs = unat (n - 1)" and "length ys = unat (n - 1)"
    using "4.prems"(3,4) by simp_all
  then show ?case using x y n "4.IH" [OF _ x(4) y(4), of "n - 1"]
    by (simp add: memcmp.simps [of m p q n])
qed auto

section \<open>Specifications: substrings and last occurrences\<close>

text \<open>The first position at which \<open>ys\<close> occurs in \<open>xs\<close>.\<close>

fun find_sub :: "'a list \<Rightarrow> 'a list \<Rightarrow> nat option" where
  "find_sub ys [] = (if ys = [] then Some 0 else None)"
| "find_sub ys (x # xs) =
     (if take (length ys) (x # xs) = ys then Some 0 else map_option Suc (find_sub ys xs))"

lemma find_sub_Some:
  "find_sub ys xs = Some k \<longleftrightarrow>
     take (length ys) (drop k xs) = ys \<and> k \<le> length xs \<and>
     (\<forall>j<k. take (length ys) (drop j xs) \<noteq> ys)"
proof (induction xs arbitrary: k)
  case Nil
  then show ?case by (cases k) auto
next
  case (Cons x xs)
  show ?case
  proof (cases "take (length ys) (x # xs) = ys")
    case True
    then show ?thesis by (cases k) (auto simp del: take_Suc_Cons)
  next
    case False
    then show ?thesis
      by (cases k) (auto simp: Cons.IH All_less_Suc2 simp del: take_Suc_Cons)
  qed
qed

lemma find_sub_None:
  "find_sub ys xs = None \<longleftrightarrow> (\<forall>k \<le> length xs. take (length ys) (drop k xs) \<noteq> ys)"
proof (induction xs)
  case Nil
  then show ?case by auto
next
  case (Cons x xs)
  then show ?case
    by (auto simp: All_less_Suc2 less_Suc_eq_le [symmetric] simp del: take_Suc_Cons)
qed

text \<open>Positions before the next occurrence of the needle's first byte cannot match.\<close>

lemma find_sub_skip:
  "find_sub (y # ys) xs =
     (if y \<in> set xs
      then map_option ((+) (length (takeWhile (\<lambda>b. b \<noteq> y) xs)))
             (find_sub (y # ys) (dropWhile (\<lambda>b. b \<noteq> y) xs))
      else None)"
proof (induction xs)
  case Nil
  then show ?case by simp
next
  case (Cons x xs)
  then show ?case
    by (cases "x = y") (auto simp: option.map_comp comp_def map_option.identity [unfolded id_def])
qed

lemma cmp_bytes_take_0:
  "cmp_bytes (take (length ys) xs) (take (length ys) ys) = 0 \<longleftrightarrow> take (length ys) xs = ys"
  by (simp add: cmp_bytes_0_iff)

lemma strstr_loop_cstr:
  assumes "cstr m q (y # ys)" and "length (y # ys) < 2 ^ 64" and "n = of_nat (length (y # ys))"
  shows "cstr m p xs \<Longrightarrow> strstr_loop m p q n =
    Inr (case find_sub (y # ys) xs of None \<Rightarrow> NullPtr | Some k \<Rightarrow> padd p k)"
proof (induction xs arbitrary: p rule: length_induct)
  case (1 xs)
  note y = cstr_Cons [OF assms(1)]
  let ?k = "length (takeWhile (\<lambda>b. b \<noteq> y) xs)"
  let ?zs = "dropWhile (\<lambda>b. b \<noteq> y) xs"
  have n: "unat n = length (y # ys)" using assms(2) unfolding assms(3) by (rule unat_of_nat_u64)
  show ?case
  proof (cases "y \<in> set xs")
    case False
    then show ?thesis using y strchr_cstr [OF "1.prems", of "promote_char y"]
      by (simp add: strstr_loop.simps [of m p] find_sub_skip [of y ys xs])
  next
    case True
    have s: "strchr m p (promote_char y) = Inr (padd p ?k)"
      using strchr_cstr [OF "1.prems", of "promote_char y"] True by simp
    have k: "?k < length xs" using True by (intro length_takeWhile_less) auto
    have dr: "drop ?k xs = ?zs" by (simp add: dropWhile_eq_drop)
    have zs: "?zs = y # tl ?zs" using True hd_dropWhile [of "\<lambda>b. b \<noteq> y" xs]
      by (cases ?zs) (auto simp: dropWhile_eq_Nil_conv)
    have c: "cstr m (padd p ?k) ?zs" using cstr_drop [OF "1.prems", of ?k] k dr by simp
    have nn: "padd p ?k \<noteq> NullPtr" using c by auto
    have cmp: "strncmp m (padd p ?k) q n = Inr (cmp_bytes (take (length (y # ys)) ?zs) (y # ys))"
      using strncmp_cstr [OF c assms(1), of n] n by simp
    have fs: "find_sub (y # ys) xs = map_option ((+) ?k) (find_sub (y # ys) ?zs)"
      using True by (subst find_sub_skip) simp
    show ?thesis
    proof (cases "take (length (y # ys)) ?zs = y # ys")
      case True
      have "find_sub (y # ys) ?zs = Some 0"
        using True by (subst find_sub_Some) simp
      then show ?thesis using y s nn cmp fs True
        by (simp add: strstr_loop.simps [of m p] cmp_bytes_0_iff)
    next
      case False
      from zs have z: "find_sub (y # ys) ?zs = map_option Suc (find_sub (y # ys) (tl ?zs))"
        using False by (metis find_sub.simps(2))
      have c': "cstr m (padd (padd p ?k) (Suc 0)) (tl ?zs)"
        and a: "ptr_add m (padd p ?k) 1 = Inr (padd (padd p ?k) (Suc 0))"
        using cstr_Cons [of m "padd p ?k" y "tl ?zs"] c zs by simp_all
      have "length (tl ?zs) < length ?zs" by (subst (2) zs) simp
      then have "length (tl ?zs) < length xs"
        using length_dropWhile_le [of "\<lambda>b. b \<noteq> y" xs] by simp
      then have "strstr_loop m (padd (padd p ?k) (Suc 0)) q n =
          Inr (case find_sub (y # ys) (tl ?zs) of None \<Rightarrow> NullPtr
               | Some j \<Rightarrow> padd (padd (padd p ?k) (Suc 0)) j)"
        using "1.IH" c' by blast
      then show ?thesis using y s nn cmp fs False z a
        by (simp add: strstr_loop.simps [of m p] cmp_bytes_0_iff option.map_comp
            split: option.split)
    qed
  qed
qed

lemma strstr_cstr:
  assumes "cstr m p xs" and "cstr m q ys" and "length ys < 2 ^ 64"
  shows "strstr m p q = Inr (case find_sub ys xs of None \<Rightarrow> NullPtr | Some k \<Rightarrow> padd p k)"
proof (cases ys)
  case Nil
  then have "find_sub ys xs = Some 0" by (cases xs) auto
  with Nil assms show ?thesis by (simp add: strstr_def cstr_Nil)
next
  case (Cons y zs)
  with assms show ?thesis
    using cstr_Cons [of m q y zs] strlen_cstr [OF assms(2)]
      strstr_loop_cstr [of m q y zs "of_nat (length ys)" p xs]
    by (simp add: strstr_def)
qed

text \<open>The last position of a byte.\<close>

fun last_index :: "'a \<Rightarrow> 'a list \<Rightarrow> nat option" where
  "last_index x [] = None"
| "last_index x (y # ys) =
     (case last_index x ys of Some k \<Rightarrow> Some (Suc k) | None \<Rightarrow> if x = y then Some 0 else None)"

lemma last_index_None: "last_index x ys = None \<longleftrightarrow> x \<notin> set ys"
  by (induction ys) (auto split: option.splits)

lemma last_index_Some:
  "last_index x ys = Some k \<Longrightarrow> k < length ys \<and> ys ! k = x \<and> x \<notin> set (drop (Suc k) ys)"
proof (induction ys arbitrary: k)
  case (Cons y ys)
  then show ?case
    by (cases "last_index x ys") (auto split: if_splits simp: last_index_None)
qed simp

lemma last_index_skip:
  "x \<in> set ys \<Longrightarrow> last_index x ys =
     (let k = length (takeWhile (\<lambda>b. b \<noteq> x) ys)
      in case last_index x (drop (Suc k) ys) of None \<Rightarrow> Some k | Some j \<Rightarrow> Some (Suc (k + j)))"
  by (induction ys) (auto simp: Let_def split: option.splits)

lemma strrchr_loop_cstr:
  assumes "in_char_range c" and "to_char c \<noteq> 0"
  shows "cstr m p xs \<Longrightarrow> strrchr_loop m p c r =
    Inr (case last_index (to_char c) xs of None \<Rightarrow> r | Some k \<Rightarrow> padd p k)"
proof (induction xs arbitrary: p r rule: length_induct)
  case (1 xs)
  let ?k = "length (takeWhile (\<lambda>b. b \<noteq> to_char c) xs)"
  show ?case
  proof (cases "to_char c \<in> set xs")
    case False
    then have "last_index (to_char c) xs = None" by (simp add: last_index_None)
    then show ?thesis using strchr_cstr [OF "1.prems", of c] assms False
      by (simp add: strrchr_loop.simps [of m p])
  next
    case True
    have s: "strchr m p c = Inr (padd p ?k)"
      using strchr_cstr [OF "1.prems", of c] assms True by simp
    have k: "?k < length xs" using True by (intro length_takeWhile_less) auto
    have c: "cstr m (padd p (Suc ?k)) (drop (Suc ?k) xs)"
      using cstr_drop [OF "1.prems", of "Suc ?k"] k by simp
    have "cstr m (padd p ?k) (drop ?k xs)" using cstr_drop [OF "1.prems", of ?k] k by simp
    then have a: "ptr_add m (padd p ?k) 1 = Inr (padd p (Suc ?k))"
      using k by (auto simp: Cons_nth_drop_Suc [symmetric] dest: cstr_Cons(3))
    have nn: "padd p ?k \<noteq> NullPtr" using "1.prems" by auto
    have "strrchr_loop m (padd p (Suc ?k)) c (padd p ?k) =
        Inr (case last_index (to_char c) (drop (Suc ?k) xs) of None \<Rightarrow> padd p ?k
             | Some j \<Rightarrow> padd (padd p (Suc ?k)) j)"
      using "1.IH" c k by (auto intro: diff_less)
    then show ?thesis using s a nn last_index_skip [OF True]
      by (simp add: strrchr_loop.simps [of m p] Let_def split: option.split)
  qed
qed

lemma strrchr_cstr:
  assumes "cstr m p xs" and "in_char_range c"
  shows "strrchr m p c =
    Inr (if c = 0 then padd p (length xs)
         else case last_index (to_char c) xs of None \<Rightarrow> NullPtr | Some k \<Rightarrow> padd p k)"
proof (cases "c = 0")
  case True
  have "length (takeWhile (\<lambda>b. b \<noteq> 0) xs) = length xs"
    using assms(1) takeWhile_neq_absent [of 0 xs]
    by (simp add: cstr_def del: takeWhile_eq_all_conv)
  with True show ?thesis using strchr_cstr [OF assms(1), of 0] assms(2)
    by (simp add: strrchr_def)
next
  case False
  then have "to_char c \<noteq> 0" using assms(2) by (auto simp: in_char_range_def)
  then show ?thesis using strrchr_loop_cstr [OF assms(2) _ assms(1)] False
    by (simp add: strrchr_def)
qed

section \<open>Specifications: copying\<close>

lemma ptr_add_write_cells [simp]:
  "room_at m p (length cs) \<Longrightarrow> ptr_add (write_cells m p cs) q k = ptr_add m q k"
  by (cases p; cases q) (auto simp: ptr_add_def split: option.splits)

lemma store_room_at: "room_at m p (Suc n) \<Longrightarrow> store m p v = Inr (write_bytes m p [v])"
  by (simp add: store_def store_cell_room_at)

lemma cstr_write_cells_disjoint:
  "room_at m p (length cs) \<Longrightarrow> disjoint_regions p (length cs) q (Suc (length xs)) \<Longrightarrow>
   cstr (write_cells m p cs) q xs \<longleftrightarrow> cstr m q xs"
  by (simp add: cstr_def cells_at_write_cells_disjoint)

text \<open>One step of a copying loop: write a byte, advance both pointers.\<close>

lemma copy_step:
  assumes "room_at m dest (Suc n)" and "disjoint_regions dest (Suc n) src (Suc k)"
  shows "store_cell m dest c = Inr (write_cells m dest [c])"
    and "ptr_add (write_cells m dest [c]) dest 1 = Inr (padd dest (Suc 0))"
    and "room_at (write_cells m dest [c]) (padd dest (Suc 0)) n"
    and "disjoint_regions (padd dest (Suc 0)) n (padd src (Suc 0)) k"
    and "length ds = k \<Longrightarrow>
      cells_at (write_cells m dest [c]) (padd src (Suc 0)) ds = cells_at m (padd src (Suc 0)) ds"
proof -
  have r1: "room_at m dest (Suc 0)" using assms(1) by (rule room_at_less) simp
  show "store_cell m dest c = Inr (write_cells m dest [c])"
    by (rule store_cell_room_at [OF assms(1)])
  show "ptr_add (write_cells m dest [c]) dest 1 = Inr (padd dest (Suc 0))"
    using r1 room_at_ptr_add [OF assms(1)] by simp
  show "room_at (write_cells m dest [c]) (padd dest (Suc 0)) n"
    using r1 assms(1) room_at_padd [of m dest "Suc 0" n] by simp
  show "disjoint_regions (padd dest (Suc 0)) n (padd src (Suc 0)) k"
    by (rule disjoint_regions_tail [OF assms(2)])
  have "disjoint_regions dest (Suc 0) (padd src (Suc 0)) k"
    by (rule disjoint_regions_head [OF assms(2)])
  then show "length ds = k \<Longrightarrow>
      cells_at (write_cells m dest [c]) (padd src (Suc 0)) ds = cells_at m (padd src (Suc 0)) ds"
    using r1 by (intro cells_at_write_cells_disjoint) simp_all
qed

lemma memcpy_loop_cells:
  "cells_at m src cs \<Longrightarrow> room_at m dest (length cs) \<Longrightarrow>
   disjoint_regions dest (length cs) src (length cs) \<Longrightarrow> unat n = length cs \<Longrightarrow>
   memcpy_loop m dest src n = Inr (write_cells m dest cs)"
proof (induction cs arbitrary: m dest src n)
  case Nil
  then have "n = 0" by (simp add: unat_eq_zero)
  then show ?case by (simp add: memcpy_loop.simps [of m dest])
next
  case (Cons c cs)
  let ?m = "write_cells m dest [c]"
  have room: "room_at m dest (Suc (length cs))"
    and disj: "disjoint_regions dest (Suc (length cs)) src (Suc (length cs))"
    using Cons.prems(2,3) by simp_all
  note step = copy_step [OF room disj]
  have n: "n \<noteq> 0" and n1: "unat (n - 1) = length cs"
    using unat_eq_Suc [of n "length cs"] Cons.prems(4) by simp_all
  have r1: "room_at m dest (Suc 0)" using room by (rule room_at_less) simp
  have src: "load_cell m src = Inr c" "cells_at ?m (padd src (Suc 0)) cs"
    using Cons.prems(1) step(5) by (simp_all add: cells_at_Cons)
  have "ptr_add ?m src 1 = Inr (padd src (Suc 0))"
    using r1 cells_at_ptr_add [OF Cons.prems(1)] by simp
  moreover have "memcpy_loop ?m (padd dest (Suc 0)) (padd src (Suc 0)) (n - 1) =
      Inr (write_cells ?m (padd dest (Suc 0)) cs)"
    by (rule Cons.IH [OF src(2) step(3,4) n1])
  ultimately show ?case using n src(1) step(1,2) write_cells_Cons [OF room]
    by (simp add: memcpy_loop.simps [of m dest src n])
qed

lemma memcpy_cells:
  "cells_at m src cs \<Longrightarrow> room_at m dest (length cs) \<Longrightarrow>
   disjoint_regions dest (length cs) src (length cs) \<Longrightarrow> unat n = length cs \<Longrightarrow>
   memcpy m dest src n = Inr (write_cells m dest cs, dest)"
  by (simp add: memcpy_def memcpy_loop_cells)

lemma wf_mem_live: "wf_mem m \<Longrightarrow> objs m b = Some ob \<Longrightarrow> b \<noteq> fresh m"
  by (auto simp: wf_mem_def)

lemma memmove_cells:
  assumes "wf_mem m" and "cells_at m src cs" and "room_at m dest (length cs)"
    and "unat n = length cs" and "length cs \<le> maxHeapBound"
  shows "memmove m dest src n = Inr ((write_cells m dest cs)\<lparr>fresh := Suc (fresh m)\<rparr>, dest)"
proof -
  let ?f = "fresh m"
  let ?tmp = "Ptr ?f 0"
  let ?m1 = "m\<lparr>objs := (objs m)(?f \<mapsto> \<lparr>contents = replicate (length cs) None, writable = True\<rparr>),
               fresh := ?f + 1, malloced := (malloced m)(?f \<mapsto> length cs)\<rparr>"
  let ?m2 = "write_cells ?m1 ?tmp cs"
  from assms(2) obtain b i where src: "src = Ptr b i" and b: "b \<noteq> ?f"
    using wf_mem_live [OF assms(1)] by (cases src) (auto split: option.splits)
  from assms(3) obtain c j ob where dest: "dest = Ptr c j" and c: "c \<noteq> ?f"
    and ob: "objs m c = Some ob"
    using wf_mem_live [OF assms(1)] by (cases dest) (auto split: option.splits)
  have ml: "malloc m n = (?m1, ?tmp)" using assms(4,5) by (simp add: malloc_def)
  have "cells_at ?m1 src cs" and "room_at ?m1 ?tmp (length cs)"
    using assms(2) src b by simp_all
  then have c1: "memcpy ?m1 ?tmp src n = Inr (?m2, ?tmp)"
    using src b assms(4) by (intro memcpy_cells) auto
  have "cells_at ?m2 ?tmp cs" by (rule cells_at_write_cells_same) simp
  moreover have "room_at ?m2 dest (length cs)" using assms(3) dest c by simp
  ultimately have c2: "memcpy ?m2 dest ?tmp n = Inr (write_cells ?m2 dest cs, dest)"
    using dest c assms(4) by (intro memcpy_cells) auto
  have nf: "objs m ?f = None" "malloced m ?f = None" using assms(1) by (simp_all add: wf_mem_def)
  have "free (write_cells ?m2 dest cs) ?tmp =
      Inr ((write_cells m dest cs)\<lparr>fresh := Suc ?f\<rparr>)"
    using dest c ob nf by (simp add: fun_upd_twist [of c] fun_upd_idem)
  then show ?thesis using ml c1 c2 by (simp add: memmove_def)
qed

lemma memmove_too_large:
  assumes "maxHeapBound < unat n" and "cells_at m src (c # cs)"
  shows "memmove m dest src n = Inl NullDeref"
proof -
  have "n \<noteq> 0" using assms(1) by auto
  moreover have "load_cell m src = Inr c" using assms(2) by (simp add: cells_at_Cons)
  ultimately have "memcpy m NullPtr src n = Inl NullDeref"
    by (simp add: memcpy_def memcpy_loop.simps [of m NullPtr] store_cell_def)
  then show ?thesis using assms(1) by (simp add: memmove_def malloc_def)
qed

lemma strcpy_loop_cstr:
  "cstr m src xs \<Longrightarrow> room_at m dest (Suc (length xs)) \<Longrightarrow>
   disjoint_regions dest (Suc (length xs)) src (Suc (length xs)) \<Longrightarrow>
   strcpy_loop m dest src = Inr (write_bytes m dest (xs @ [0]))"
proof (induction xs arbitrary: m dest src)
  case Nil
  then show ?case
    by (simp add: strcpy_loop.simps [of m dest] cstr_Nil store_room_at [of m dest 0])
next
  case (Cons x xs)
  let ?m = "write_bytes m dest [x]"
  have room: "room_at m dest (Suc (Suc (length xs)))"
    and disj: "disjoint_regions dest (Suc (Suc (length xs))) src (Suc (Suc (length xs)))"
    using Cons.prems(2,3) by simp_all
  note step = copy_step [OF room disj] and x = cstr_Cons [OF Cons.prems(1)]
  have "cstr ?m (padd src (Suc 0)) xs" using x(4) step(5) by (simp add: cstr_def)
  then have "strcpy_loop ?m (padd dest (Suc 0)) (padd src (Suc 0)) =
      Inr (write_bytes ?m (padd dest (Suc 0)) (xs @ [0]))"
    using step(3,4) by (intro Cons.IH) simp_all
  then show ?case
    using x(1,2) step(1) write_cells_Cons [of m dest "map Some (xs @ [0])" "Some x"] room
    by (simp add: strcpy_loop.simps [of m dest src] store_def)
qed

lemma strcpy_cstr:
  assumes "cstr m src xs" and "room_at m dest (Suc (length xs))"
    and "disjoint_regions dest (Suc (length xs)) src (Suc (length xs))"
  shows "strcpy m dest src = Inr (write_bytes m dest (xs @ [0]), dest)"
  using strcpy_loop_cstr [OF assms] assms(1,2) by (auto simp: strcpy_def)

lemma strncpy_pad_zeros:
  "room_at m dest k \<Longrightarrow> unat n = k \<Longrightarrow>
   strncpy_pad m dest n = Inr (write_bytes m dest (replicate k 0))"
proof (induction k arbitrary: m dest n)
  case 0
  then have "n = 0" by (simp add: unat_eq_zero)
  then show ?case by (simp add: strncpy_pad.simps [of m dest])
next
  case (Suc k)
  have n: "n \<noteq> 0" "unat (n - 1) = k" using unat_eq_Suc [of n k] Suc.prems(2) by simp_all
  have r1: "room_at m dest (Suc 0)" using Suc.prems(1) by (rule room_at_less) simp
  let ?m = "write_bytes m dest [0]"
  have "room_at ?m (padd dest (Suc 0)) k"
    using r1 room_at_padd [of m dest "Suc 0" k] Suc.prems(1) by simp
  then have "strncpy_pad ?m (padd dest (Suc 0)) (n - 1) =
      Inr (write_bytes ?m (padd dest (Suc 0)) (replicate k 0))"
    using n(2) by (rule Suc.IH)
  then show ?case
    using n r1 store_room_at [OF Suc.prems(1)] room_at_ptr_add [OF Suc.prems(1)]
      write_cells_Cons [of m dest "map Some (replicate k 0)" "Some 0"] Suc.prems(1)
    by (simp add: strncpy_pad.simps [of m dest n])
qed

lemma strncpy_loop_cstr:
  "cstr m src xs \<Longrightarrow> room_at m dest k \<Longrightarrow> unat n = k \<Longrightarrow>
   disjoint_regions dest k src (Suc (length xs)) \<Longrightarrow>
   strncpy_loop m dest src n = Inr (write_bytes m dest (take k xs @ replicate (k - length xs) 0))"
proof (induction xs arbitrary: m dest src n k)
  case Nil
  show ?case
  proof (cases k)
    case 0
    with Nil.prems(3) have "n = 0" by (simp add: unat_eq_zero)
    with 0 show ?thesis by (simp add: strncpy_loop.simps [of m dest])
  next
    case (Suc j)
    have n: "n \<noteq> 0" "unat (n - 1) = j" using unat_eq_Suc [of n j] Nil.prems(3) Suc by simp_all
    have room: "room_at m dest (Suc j)" using Nil.prems(2) Suc by simp
    have r1: "room_at m dest (Suc 0)" using room by (rule room_at_less) simp
    have src: "ptr_add m src 1 = Inr (padd src (Suc 0))"
      using Nil.prems(1) by (auto simp: cstr_def intro: cells_at_ptr_add)
    let ?m = "write_bytes m dest [0]"
    have "room_at ?m (padd dest (Suc 0)) j"
      using r1 room_at_padd [of m dest "Suc 0" j] room by simp
    from strncpy_pad_zeros [OF this n(2)] show ?thesis
      using n r1 src Nil.prems(1) Suc store_room_at [OF room] room_at_ptr_add [OF room]
        write_cells_Cons [of m dest "map Some (replicate j 0)" "Some 0"] room
      by (simp add: strncpy_loop.simps [of m dest src n] cstr_Nil)
  qed
next
  case (Cons x xs)
  show ?case
  proof (cases k)
    case 0
    with Cons.prems(3) have "n = 0" by (simp add: unat_eq_zero)
    with 0 show ?thesis by (simp add: strncpy_loop.simps [of m dest])
  next
    case (Suc j)
    have n: "n \<noteq> 0" "unat (n - 1) = j" using unat_eq_Suc [of n j] Cons.prems(3) Suc by simp_all
    have room: "room_at m dest (Suc j)"
      and disj: "disjoint_regions dest (Suc j) src (Suc (Suc (length xs)))"
      using Cons.prems(2,4) Suc by simp_all
    note step = copy_step [OF room disj] and x = cstr_Cons [OF Cons.prems(1)]
    have r1: "room_at m dest (Suc 0)" using room by (rule room_at_less) simp
    let ?m = "write_bytes m dest [x]"
    let ?bs = "take j xs @ replicate (j - length xs) 0"
    have "cstr ?m (padd src (Suc 0)) xs" using x(4) step(5) by (simp add: cstr_def)
    then have "strncpy_loop ?m (padd dest (Suc 0)) (padd src (Suc 0)) (n - 1) =
        Inr (write_bytes ?m (padd dest (Suc 0)) ?bs)"
      using step(3,4) n(2) by (intro Cons.IH) simp_all
    moreover have "write_bytes ?m (padd dest (Suc 0)) ?bs = write_bytes m dest (x # ?bs)"
      using write_cells_Cons [of m dest "map Some ?bs" "Some x"] room by (simp add: min_def)
    ultimately show ?thesis using n x step(1,2) r1 Suc
      by (simp add: strncpy_loop.simps [of m dest src n] store_def)
  qed
qed

lemma strncpy_cstr:
  assumes "cstr m src xs" and "room_at m dest (unat n)"
    and "disjoint_regions dest (unat n) src (Suc (length xs))"
  shows "strncpy m dest src n =
    Inr (write_bytes m dest (take (unat n) xs @ replicate (unat n - length xs) 0), dest)"
  using strncpy_loop_cstr [OF assms(1,2) refl assms(3)] by (simp add: strncpy_def)

text \<open>Appending at the end of a string: the region behind it and the string it makes.\<close>

lemma cstr_after_append:
  assumes "cstr m p xs" and "room_at m p (length xs + Suc (length ys))" and "0 \<notin> set ys"
  shows "cstr (write_bytes m (padd p (length xs)) (ys @ [0])) p (xs @ ys)"
proof -
  let ?q = "padd p (length xs)"
  let ?m = "write_bytes m ?q (ys @ [0])"
  have room: "room_at m ?q (length (map Some (ys @ [0])))"
    using assms(2) by (simp add: room_at_padd)
  then have tail: "bytes_at ?m ?q (ys @ [0])" by (rule cells_at_write_cells_same)
  have "bytes_at m p xs" using assms(1) by (simp add: cstr_def cells_at_append)
  moreover have "disjoint_regions ?q (length (map Some (ys @ [0]))) p (length (map Some xs))"
    by (cases p) simp_all
  ultimately have "bytes_at ?m p xs" using cells_at_write_cells_disjoint [OF room] by blast
  with tail assms(1,3) show ?thesis by (auto simp: cstr_def cells_at_append)
qed

lemma strcat_cstr:
  assumes "cstr m s1 xs" and "cstr m s2 ys" and "room_at m s1 (length xs + Suc (length ys))"
    and "disjoint_regions s1 (length xs + Suc (length ys)) s2 (Suc (length ys))"
  shows "strcat m s1 s2 = Inr (write_bytes m (padd s1 (length xs)) (ys @ [0]), s1)"
proof -
  have "room_at m (padd s1 (length xs)) (Suc (length ys))"
    using assms(3) by (simp add: room_at_padd)
  moreover have "disjoint_regions (padd s1 (length xs)) (Suc (length ys)) s2 (Suc (length ys))"
    using assms(4) by (cases s1; cases s2) auto
  ultimately show ?thesis using strcpy_cstr [OF assms(2)] strend_cstr [OF assms(1)]
    by (simp add: strcat_def)
qed

lemma write_cells_twice:
  "room_at m p (length cs) \<Longrightarrow> length ds = length cs \<Longrightarrow>
   write_cells (write_cells m p cs) p ds = write_cells m p ds"
  by (cases p) (auto simp: splice_at_def split: option.splits)

lemma strncat_loop_cstr:
  "cstr m s2 ys \<Longrightarrow> unat n = k \<Longrightarrow> room_at m s (Suc (min k (length ys))) \<Longrightarrow>
   disjoint_regions s (Suc (min k (length ys))) s2 (Suc (length ys)) \<Longrightarrow>
   \<exists>m' s'. strncat_loop m s s2 n = Inr (m', s') \<and>
     store m' s' 0 = Inr (write_bytes m s (take k ys @ [0]))"
proof (induction ys arbitrary: m s s2 n k)
  case Nil
  have room: "room_at m s (Suc 0)" using Nil.prems(3) by simp
  have src: "ptr_add m s2 1 = Inr (padd s2 (Suc 0))"
    using Nil.prems(1) by (auto simp: cstr_def intro: cells_at_ptr_add)
  show ?case
    using Nil.prems(1) room src store_room_at [OF room] write_cells_twice [of m s "[Some 0]"]
      store_room_at [of "write_bytes m s [0]" s 0]
    by (cases "n = 0") (simp_all add: strncat_loop.simps [of m s s2] cstr_Nil)
next
  case (Cons y ys)
  show ?case
  proof (cases k)
    case 0
    with Cons.prems have "n = 0" and "room_at m s (Suc 0)" by (simp_all add: unat_eq_zero)
    with 0 show ?thesis using store_room_at [of m s 0]
      by (simp add: strncat_loop.simps [of m s])
  next
    case (Suc j)
    have n: "n \<noteq> 0" "unat (n - 1) = j" using unat_eq_Suc [of n j] Cons.prems(2) Suc by simp_all
    have room: "room_at m s (Suc (Suc (min j (length ys))))"
      and disj: "disjoint_regions s (Suc (Suc (min j (length ys)))) s2 (Suc (Suc (length ys)))"
      using Cons.prems(3,4) Suc by simp_all
    note step = copy_step [OF room disj] and y = cstr_Cons [OF Cons.prems(1)]
    let ?m = "write_cells m s [Some y]"
    have "cstr ?m (padd s2 (Suc 0)) ys" using y(4) step(5) by (simp add: cstr_def)
    from Cons.IH [OF this n(2) step(3,4)] obtain m' s' where
      rest: "strncat_loop ?m (padd s (Suc 0)) (padd s2 (Suc 0)) (n - 1) = Inr (m', s')"
        "store m' s' 0 = Inr (write_bytes ?m (padd s (Suc 0)) (take j ys @ [0]))"
      by auto
    have "write_bytes ?m (padd s (Suc 0)) (take j ys @ [0]) = write_bytes m s (y # take j ys @ [0])"
      using write_cells_Cons [of m s "map Some (take j ys @ [0])" "Some y"] room
      by (simp add: min.commute)
    then show ?thesis using n y step(1,2) rest Suc
      by (simp add: strncat_loop.simps [of m s s2 n] store_def)
  qed
qed

lemma strncat_cstr:
  assumes "cstr m s1 xs" and "cstr m s2 ys"
    and "room_at m s1 (length xs + Suc (min (unat n) (length ys)))"
    and "disjoint_regions s1 (length xs + Suc (min (unat n) (length ys))) s2 (Suc (length ys))"
  shows "strncat m s1 s2 n =
    Inr (write_bytes m (padd s1 (length xs)) (take (unat n) ys @ [0]), s1)"
proof -
  have "room_at m (padd s1 (length xs)) (Suc (min (unat n) (length ys)))"
    using assms(3) by (simp add: room_at_padd)
  moreover have "disjoint_regions (padd s1 (length xs)) (Suc (min (unat n) (length ys)))
      s2 (Suc (length ys))"
    using assms(4) by (cases s1; cases s2) auto
  ultimately obtain m' s' where
    "strncat_loop m (padd s1 (length xs)) s2 n = Inr (m', s')"
    "store m' s' 0 = Inr (write_bytes m (padd s1 (length xs)) (take (unat n) ys @ [0]))"
    using strncat_loop_cstr [OF assms(2) refl] by blast
  then show ?thesis using strend_cstr [OF assms(1)] by (simp add: strncat_def)
qed

section \<open>Properties\<close>

text \<open>A memory with two objects, for concrete instances.\<close>

definition two_objects :: "u8 list \<Rightarrow> u8 list \<Rightarrow> mem" where
  "two_objects xs ys =
     \<lparr>objs = [0 \<mapsto> \<lparr>contents = map Some xs, writable = True\<rparr>,
              Suc 0 \<mapsto> \<lparr>contents = map Some ys, writable = True\<rparr>],
      fresh = 2, malloced = Map.empty\<rparr>"

lemma two_objects_cstr:
  "0 \<notin> set xs \<Longrightarrow> cstr (two_objects (xs @ 0 # zs) ys) (Ptr 0 0) xs"
  "0 \<notin> set ys \<Longrightarrow> cstr (two_objects xs (ys @ 0 # zs)) (Ptr (Suc 0) 0) ys"
  by (simp_all add: two_objects_def cstr_def)

lemma two_objects_room: "room_at (two_objects xs ys) (Ptr 0 0) n \<longleftrightarrow> n \<le> length xs"
  by (simp add: two_objects_def)

lemma two_objects_wf: "wf_mem (two_objects xs ys)"
  by (simp add: two_objects_def wf_mem_def)

text \<open>
  C8: \<open>memmove\<close> (string.c) copies the \<open>n\<close> bytes at \<open>src\<close> to \<open>dest\<close> even when the
  two regions overlap: afterwards \<open>dest\<close> holds what \<open>src\<close> held before, the result is
  \<open>dest\<close>, every region apart from the destination keeps its contents, and the temporary
  buffer has been freed.
\<close>

theorem memmove_overlapping:
  assumes "wf_mem m" and "cells_at m src cs" and "room_at m dest (length cs)"
    and "unat n = length cs" and "length cs \<le> maxHeapBound"
  shows "\<exists>m'. memmove m dest src n = Inr (m', dest) \<and> cells_at m' dest cs \<and>
    malloced m' = malloced m \<and>
    (\<forall>p ds. cells_at m p ds \<longrightarrow> disjoint_regions dest (length cs) p (length ds) \<longrightarrow> cells_at m' p ds)"
proof -
  let ?m = "write_cells m dest cs"
  have same: "cells_at (?m\<lparr>fresh := k\<rparr>) p ds = cells_at ?m p ds" for k p ds by (cases p) simp_all
  have "malloced ?m = malloced m" by (cases dest) (simp_all split: option.splits)
  with memmove_cells [OF assms] same show ?thesis
    using cells_at_write_cells_same [OF assms(3)] cells_at_write_cells_disjoint [OF assms(3)] by simp
qed

theorem memmove_overlapping_witness:
  "\<exists>m'. memmove (two_objects [1, 2, 3, 4, 5] []) (Ptr 0 1) (Ptr 0 0) 3 = Inr (m', Ptr 0 1) \<and>
    cells_at m' (Ptr 0 1) (map Some [1, 2, 3])"
proof -
  let ?m = "two_objects [1, 2, 3, 4, 5] []"
  have "cells_at ?m (Ptr 0 0) (map Some [1, 2, 3])" and "room_at ?m (Ptr 0 1) (length (map Some [1, 2, 3 :: u8]))"
    and "unat (3 :: u64) = length (map Some [1, 2, 3 :: u8])"
    and "length (map Some [1, 2, 3 :: u8]) \<le> maxHeapBound"
    by (simp_all add: two_objects_def maxHeapBound_def)
  from memmove_overlapping [OF two_objects_wf this] show ?thesis by blast
qed

text \<open>
  C15: \<open>strstr\<close> (string.c) returns a pointer to the first place at which the second string
  occurs in the first, and a null pointer exactly when it occurs nowhere.
\<close>

theorem strstr_first_match:
  assumes "cstr m p xs" and "cstr m q ys" and "length ys < 2 ^ 64"
  shows "(strstr m p q = Inr NullPtr \<longleftrightarrow> (\<forall>k \<le> length xs. take (length ys) (drop k xs) \<noteq> ys)) \<and>
    (strstr m p q = Inr (padd p k) \<longleftrightarrow> k \<le> length xs \<and> take (length ys) (drop k xs) = ys \<and>
      (\<forall>j<k. take (length ys) (drop j xs) \<noteq> ys))"
proof -
  have "p \<noteq> NullPtr" using assms(1) by auto
  moreover from this have "NullPtr \<noteq> padd p k" by (cases p) simp_all
  ultimately show ?thesis
    using strstr_cstr [OF assms] find_sub_Some [of ys xs] find_sub_None [of ys xs]
    by (cases "find_sub ys xs") auto
qed

theorem strstr_first_match_witness:
  "strstr (two_objects [97, 98, 97, 98, 99, 0] [98, 99, 0]) (Ptr 0 0) (Ptr 1 0) = Inr (Ptr 0 3)"
proof -
  let ?m = "two_objects ([97, 98, 97, 98, 99] @ 0 # []) ([98, 99] @ 0 # [])"
  have "cstr ?m (Ptr 0 0) [97, 98, 97, 98, 99]" and "cstr ?m (Ptr (Suc 0) 0) [98, 99]"
    by (rule two_objects_cstr, simp)+
  note match = strstr_first_match [OF this, of 3, THEN conjunct2]
  have "\<forall>j<3. take (Suc (Suc 0)) (drop j [97, 98, 97, 98, 99]) \<noteq> [98, 99 :: u8]"
    by (simp add: All_less_Suc numeral_3_eq_3)
  with match show ?thesis by simp
qed

text \<open>
  \<open>strcmp\<close> (string.c) orders C strings by their bytes as unsigned characters: the
  result is zero exactly on equal strings, negative exactly when the first string is smaller
  in the lexicographic order, and swapping the arguments negates it.
\<close>

lemma strcmp_order:
  assumes "cstr m p xs" and "cstr m q ys"
  shows "\<exists>r. strcmp m p q = Inr r \<and> strcmp m q p = Inr (- r) \<and> (r = 0 \<longleftrightarrow> xs = ys) \<and>
    (r < 0 \<longleftrightarrow> (xs, ys) \<in> lexord {(a, b). a < b})"
proof -
  have "cmp_bytes xs ys < 0 \<longleftrightarrow> (xs, ys) \<in> lexord {(a, b). a < b}"
    by (induction xs ys rule: cmp_bytes.induct) auto
  with strcmp_cstr [OF assms] strcmp_cstr [OF assms(2,1)] show ?thesis
    by (simp add: cmp_bytes_swap [of ys xs] cmp_bytes_0_iff)
qed

text \<open>
  \<open>strncmp\<close> (string.c) with bound \<open>n\<close> gives what \<open>strcmp\<close> gives on the first
  \<open>n\<close> bytes of the two strings; with bound zero the strings compare equal.
\<close>

lemma strncmp_prefix:
  assumes "cstr m p xs" and "cstr m q ys"
  shows "\<exists>r. strncmp m p q n = Inr r \<and> (r = 0 \<longleftrightarrow> take (unat n) xs = take (unat n) ys) \<and>
    (\<forall>m' p' q'. cstr m' p' (take (unat n) xs) \<longrightarrow> cstr m' q' (take (unat n) ys) \<longrightarrow> strcmp m' p' q' = Inr r)"
  using strncmp_cstr [OF assms, of n] strcmp_cstr by (simp add: cmp_bytes_0_iff)

text \<open>
  \<open>memcmp\<close> (string.c) compares the \<open>n\<close> bytes at its arguments as unsigned
  characters: zero exactly when they are equal, otherwise the sign of the first difference.
\<close>

lemma memcmp_first_difference:
  assumes "bytes_at m p xs" and "bytes_at m q ys" and "length xs = unat n" and "length ys = unat n"
  shows "memcmp m p q n = Inr 0 \<and> xs = ys \<or>
    (\<exists>k<unat n. take k xs = take k ys \<and> xs ! k \<noteq> ys ! k \<and>
       memcmp m p q n = Inr (if xs ! k < ys ! k then - 1 else 1))"
proof -
  have *: "length us = length vs \<Longrightarrow> us \<noteq> vs \<Longrightarrow>
      \<exists>k<length us. take k us = take k vs \<and> us ! k \<noteq> vs ! k \<and> cmp_bytes us vs = (if us ! k < vs ! k then - 1 else 1)"
    for us vs
  proof (induction us vs rule: list_induct2')
    case (4 u us v vs)
    show ?case
    proof (cases "u = v")
      case True
      with 4 obtain k where "k < length us" "take k us = take k vs" "us ! k \<noteq> vs ! k"
        "cmp_bytes us vs = (if us ! k < vs ! k then - 1 else 1)" by auto
      with True show ?thesis by (intro exI [of _ "Suc k"]) simp
    qed (auto intro: exI [of _ 0])
  qed simp_all
  show ?thesis
    using memcmp_bytes [OF assms] * [of xs ys] assms(3,4) by (cases "xs = ys") (auto simp: cmp_bytes_0_iff)
qed

text \<open>
  \<open>strcat\<close> (string.c) leaves at its first argument the concatenation of the two
  strings, keeps the second one, and returns its first argument.
\<close>

lemma strcat_appends:
  assumes "cstr m s1 xs" and "cstr m s2 ys" and "room_at m s1 (length xs + Suc (length ys))"
    and "disjoint_regions s1 (length xs + Suc (length ys)) s2 (Suc (length ys))"
  shows "\<exists>m'. strcat m s1 s2 = Inr (m', s1) \<and> cstr m' s1 (xs @ ys) \<and> cstr m' s2 ys"
proof -
  let ?m = "write_bytes m (padd s1 (length xs)) (ys @ [0])"
  have "0 \<notin> set ys" using assms(2) by (simp add: cstr_def)
  then have "cstr ?m s1 (xs @ ys)" by (rule cstr_after_append [OF assms(1,3)])
  moreover have "disjoint_regions (padd s1 (length xs)) (Suc (length ys)) s2 (Suc (length ys))"
    using assms(4) by (cases s1; cases s2) auto
  then have "cstr ?m s2 ys"
    using cells_at_write_cells_disjoint [of m "padd s1 (length xs)" "map Some (ys @ [0])" s2 "map Some (ys @ [0])"]
      room_at_padd [OF assms(3)] assms(2) by (simp add: cstr_def)
  ultimately show ?thesis using strcat_cstr [OF assms] by blast
qed

text \<open>
  \<open>strncat\<close> (string.c) appends at most \<open>n\<close> bytes of the second string, and always a
  terminating null byte.
\<close>

lemma strncat_appends:
  assumes "cstr m s1 xs" and "cstr m s2 ys"
    and "room_at m s1 (length xs + Suc (min (unat n) (length ys)))"
    and "disjoint_regions s1 (length xs + Suc (min (unat n) (length ys))) s2 (Suc (length ys))"
  shows "\<exists>m'. strncat m s1 s2 n = Inr (m', s1) \<and> cstr m' s1 (xs @ take (unat n) ys)"
proof -
  have "0 \<notin> set (take (unat n) ys)" using assms(2) by (auto simp: cstr_def dest: in_set_takeD)
  moreover have "room_at m s1 (length xs + Suc (length (take (unat n) ys)))"
    using assms(3) by (simp add: min.commute)
  ultimately show ?thesis
    using strncat_cstr [OF assms] cstr_after_append [OF assms(1)] by blast
qed

text \<open>
  \<open>strncpy\<close> (string.c) writes exactly \<open>n\<close> bytes: the string, cut after \<open>n\<close>
  bytes, filled up with null bytes. The result is a C string exactly when the source is
  shorter than \<open>n\<close>.
\<close>

lemma strncpy_writes:
  assumes "cstr m src xs" and "room_at m dest (unat n)"
    and "disjoint_regions dest (unat n) src (Suc (length xs))"
  shows "\<exists>m'. strncpy m dest src n = Inr (m', dest) \<and>
    bytes_at m' dest (take (unat n) xs @ replicate (unat n - length xs) 0) \<and>
    (length xs < unat n \<longrightarrow> cstr m' dest xs)"
proof -
  let ?bs = "take (unat n) xs @ replicate (unat n - length xs) 0"
  let ?m = "write_bytes m dest ?bs"
  have len: "length (map Some ?bs) = unat n" by simp
  have at: "bytes_at ?m dest ?bs"
    using cells_at_write_cells_same [of m dest "map Some ?bs"] assms(2) len by metis
  have "cstr ?m dest xs" if "length xs < unat n"
  proof -
    have "?bs = (xs @ [0]) @ replicate (unat n - length xs - 1) 0"
      using that by (cases "unat n - length xs") simp_all
    with at have "bytes_at ?m dest ((xs @ [0]) @ replicate (unat n - length xs - 1) 0)" by simp
    then have "bytes_at ?m dest (xs @ [0])" by (simp only: map_append cells_at_append)
    with assms(1) show ?thesis by (simp add: cstr_def)
  qed
  with at strncpy_cstr [OF assms] show ?thesis by blast
qed

text \<open>
  \<open>memcpy\<close> (string.c) between disjoint regions leaves at the destination the cells of
  the source, indeterminate ones included, and keeps every other region.
\<close>

lemma memcpy_copies:
  assumes "cells_at m src cs" and "room_at m dest (length cs)"
    and "disjoint_regions dest (length cs) src (length cs)" and "unat n = length cs"
  shows "\<exists>m'. memcpy m dest src n = Inr (m', dest) \<and> cells_at m' dest cs \<and>
    (\<forall>p ds. disjoint_regions dest (length cs) p (length ds) \<longrightarrow> cells_at m' p ds = cells_at m p ds)"
  using memcpy_cells [OF assms] cells_at_write_cells_same [OF assms(2)]
    cells_at_write_cells_disjoint [OF assms(2)] by blast

text \<open>
  \<open>strchr\<close> (string.c) finds the first occurrence of a character, the terminating null
  included. Its last test compares the character with the argument before conversion, so an
  argument outside the range of \<open>char\<close> is never found, even when its conversion occurs.
\<close>

lemma strchr_finds:
  assumes "cstr m p xs"
  shows "(in_char_range c \<longrightarrow> to_char c \<in> set (xs @ [0]) \<longrightarrow>
      (\<exists>k \<le> length xs. strchr m p c = Inr (padd p k) \<and> (xs @ [0]) ! k = to_char c \<and> to_char c \<notin> set (take k xs))) \<and>
    (to_char c \<notin> set (xs @ [0]) \<longrightarrow> strchr m p c = Inr NullPtr) \<and>
    (\<not> in_char_range c \<longrightarrow> strchr m p c = Inr NullPtr)"
proof -
  let ?k = "length (takeWhile (\<lambda>b. b \<noteq> to_char c) xs)"
  have "(xs @ [0]) ! ?k = to_char c" if "to_char c \<in> set (xs @ [0])"
  proof (cases "to_char c \<in> set xs")
    case True
    then have "?k < length xs" by (intro length_takeWhile_less) auto
    with nth_length_takeWhile_neg [OF this] show ?thesis by (simp add: nth_append)
  next
    case False
    with that show ?thesis by (simp add: takeWhile_neq_absent)
  qed
  moreover have "to_char c \<notin> set (take ?k xs)"
    by (metis (mono_tags, lifting) set_takeWhileD takeWhile_eq_take)
  moreover have "?k \<le> length xs" by (rule length_takeWhile_le)
  ultimately show ?thesis using strchr_cstr [OF assms, of c] by auto
qed

text \<open>
  \<open>strrchr\<close> (string.c) finds the last occurrence of a character, for the null
  character the end of the string, and returns a null pointer when there is none.
\<close>

lemma strrchr_finds_last:
  assumes "cstr m p xs" and "in_char_range c"
  shows "(\<exists>k \<le> length xs. strrchr m p c = Inr (padd p k) \<and> (xs @ [0]) ! k = to_char c \<and>
      to_char c \<notin> set (drop (Suc k) (xs @ [0]))) \<or>
    strrchr m p c = Inr NullPtr \<and> to_char c \<notin> set (xs @ [0])"
proof (cases "c = 0")
  case True
  then show ?thesis using strrchr_cstr [OF assms] by (intro disjI1 exI [of _ "length xs"]) simp
next
  case False
  then have "to_char c \<noteq> 0" using assms(2) by (auto simp: in_char_range_def)
  with False strrchr_cstr [OF assms] last_index_None [of "to_char c" xs] last_index_Some [of "to_char c" xs]
  show ?thesis by (cases "last_index (to_char c) xs") (auto simp: nth_append intro!: exI)
qed

text \<open>
  \<open>memchr\<close> (string.c) finds the first of \<open>n\<close> bytes that equals its argument
  converted to \<open>unsigned char\<close>, and returns a null pointer exactly when there is none.
\<close>

lemma memchr_finds:
  assumes "bytes_at m p xs" and "length xs = unat n"
  shows "memchr m p c n = Inr (if to_char c \<in> set xs
     then padd p (length (takeWhile (\<lambda>b. b \<noteq> to_char c) xs)) else NullPtr)"
  using memchr_loop_bytes [OF assms] by (simp add: memchr_def)

text \<open>
  \<open>strspn\<close> (string.c) counts the longest prefix of the first string whose characters
  all occur in the second.
\<close>

lemma strspn_counts:
  assumes "cstr m p xs" and "cstr m q ys" and "length xs < 2 ^ 64"
  shows "\<exists>n. strspn m p q = Inr n \<and> unat n \<le> length xs \<and> set (take (unat n) xs) \<subseteq> set ys \<and>
    (unat n < length xs \<longrightarrow> xs ! unat n \<notin> set ys)"
proof -
  let ?w = "takeWhile (\<lambda>b. b \<in> set ys) xs"
  have len: "length ?w \<le> length xs" by (rule length_takeWhile_le)
  then have n: "unat (of_nat (length ?w) :: u64) = length ?w" using assms(3) by (intro unat_of_nat_u64) simp
  have "set (take (length ?w) xs) \<subseteq> set ys" by (metis (no_types, lifting) set_takeWhileD subsetI takeWhile_eq_take)
  with len n strspn_cstr [OF assms(1,2)] show ?thesis by (auto dest: nth_length_takeWhile_neg)
qed

text \<open>
  \<open>strcspn\<close> (string.c) counts the longest prefix of the first string with no character
  of the second.
\<close>

lemma strcspn_counts:
  assumes "cstr m p xs" and "cstr m q ys" and "length xs < 2 ^ 64"
  shows "\<exists>n. strcspn m p q = Inr n \<and> unat n \<le> length xs \<and> set (take (unat n) xs) \<inter> set ys = {} \<and>
    (unat n < length xs \<longrightarrow> xs ! unat n \<in> set ys)"
proof -
  let ?w = "takeWhile (\<lambda>b. b \<notin> set ys) xs"
  have len: "length ?w \<le> length xs" by (rule length_takeWhile_le)
  then have n: "unat (of_nat (length ?w) :: u64) = length ?w" using assms(3) by (intro unat_of_nat_u64) simp
  have "set (take (length ?w) xs) \<inter> set ys = {}"
    by (metis (no_types, lifting) disjoint_iff set_takeWhileD takeWhile_eq_take)
  with len n strcspn_cstr [OF assms(1,2)] show ?thesis by (auto dest: nth_length_takeWhile_neg)
qed

text \<open>
  \<open>strpbrk\<close> (string.c) points to the first character of the first string that occurs
  in the second, which is where \<open>strcspn\<close> stops, and is null when there is none.
\<close>

lemma strpbrk_finds:
  assumes "cstr m p xs" and "cstr m q ys" and "length xs < 2 ^ 64"
  shows "\<exists>n. strcspn m p q = Inr n \<and>
    strpbrk m p q = Inr (if unat n < length xs then padd p (unat n) else NullPtr)"
proof -
  let ?w = "takeWhile (\<lambda>b. b \<notin> set ys) xs"
  have len: "length ?w \<le> length xs" by (rule length_takeWhile_le)
  then have n: "unat (of_nat (length ?w) :: u64) = length ?w" using assms(3) by (intro unat_of_nat_u64) simp
  have "length ?w < length xs \<longleftrightarrow> set xs \<inter> set ys \<noteq> {}"
  proof
    assume "length ?w < length xs"
    then have "xs ! length ?w \<in> set ys" and "xs ! length ?w \<in> set xs"
      using nth_length_takeWhile_neg [of "\<lambda>b. b \<notin> set ys" xs] by auto
    then show "set xs \<inter> set ys \<noteq> {}" by blast
  next
    assume "set xs \<inter> set ys \<noteq> {}"
    then have "\<exists>x\<in>set xs. \<not> x \<notin> set ys" by blast
    then show "length ?w < length xs" by (rule length_takeWhile_less)
  qed
  with n strcspn_cstr [OF assms(1,2)] strpbrk_cstr [OF assms(1,2)] show ?thesis by auto
qed

text \<open>
  The three functions of string.c over a set of characters. \<open>strspn\<close> counts the longest
  prefix of the first string whose characters all occur in the second, \<open>strcspn\<close> the longest
  prefix with none of them, and \<open>strpbrk\<close> points to where \<open>strcspn\<close> stops, or is null when that
  is the end of the string.
\<close>

lemma span_functions:
  assumes "cstr m p xs" and "cstr m q ys" and "length xs < 2 ^ 64"
  shows "\<exists>j k. strspn m p q = Inr j \<and> unat j \<le> length xs \<and> set (take (unat j) xs) \<subseteq> set ys \<and>
      (unat j < length xs \<longrightarrow> xs ! unat j \<notin> set ys) \<and>
    strcspn m p q = Inr k \<and> unat k \<le> length xs \<and> set (take (unat k) xs) \<inter> set ys = {} \<and>
      (unat k < length xs \<longrightarrow> xs ! unat k \<in> set ys) \<and>
    strpbrk m p q = Inr (if unat k < length xs then padd p (unat k) else NullPtr)"
proof -
  obtain j where j: "strspn m p q = Inr j" "unat j \<le> length xs" "set (take (unat j) xs) \<subseteq> set ys"
    "unat j < length xs \<longrightarrow> xs ! unat j \<notin> set ys" using strspn_counts [OF assms] by blast
  obtain k where k: "strcspn m p q = Inr k" "unat k \<le> length xs" "set (take (unat k) xs) \<inter> set ys = {}"
    "unat k < length xs \<longrightarrow> xs ! unat k \<in> set ys" using strcspn_counts [OF assms] by blast
  have "strpbrk m p q = Inr (if unat k < length xs then padd p (unat k) else NullPtr)"
    using strpbrk_finds [OF assms] k(1) by auto
  with j k show ?thesis by blast
qed

text \<open>
  The comparisons of C strings (string.c). \<open>strcmp\<close> orders them by their bytes as
  unsigned characters: the result is zero exactly on equal strings, negative exactly when the
  first string is smaller in the lexicographic order, and swapping the arguments negates it.
  \<open>strncmp\<close> with bound \<open>n\<close> gives what \<open>strcmp\<close> gives on the first \<open>n\<close> bytes of the two
  strings; with bound zero the strings compare equal.
\<close>

lemma string_comparisons:
  assumes "cstr m p xs" and "cstr m q ys"
  shows "(\<exists>r. strcmp m p q = Inr r \<and> strcmp m q p = Inr (- r) \<and> (r = 0 \<longleftrightarrow> xs = ys) \<and>
      (r < 0 \<longleftrightarrow> (xs, ys) \<in> lexord {(a, b). a < b})) \<and>
    (\<exists>r. strncmp m p q n = Inr r \<and> (r = 0 \<longleftrightarrow> take (unat n) xs = take (unat n) ys) \<and>
      (\<forall>m' p' q'. cstr m' p' (take (unat n) xs) \<longrightarrow> cstr m' q' (take (unat n) ys) \<longrightarrow> strcmp m' p' q' = Inr r))"
  using strcmp_order [OF assms] strncmp_prefix [OF assms, of n] by blast

text \<open>
  The searches for a character in a C string (string.c). \<open>strchr\<close> finds the first
  occurrence, the terminating null included; its last test compares the character with the
  argument before conversion, so an argument outside the range of \<open>char\<close> is never found, even
  when its conversion occurs. \<open>strrchr\<close> finds the last occurrence, for the null character the end
  of the string. Both return a null pointer when there is none.
\<close>

lemma character_searches:
  assumes "cstr m p xs"
  shows "(in_char_range c \<longrightarrow> to_char c \<in> set (xs @ [0]) \<longrightarrow>
      (\<exists>k \<le> length xs. strchr m p c = Inr (padd p k) \<and> (xs @ [0]) ! k = to_char c \<and> to_char c \<notin> set (take k xs)) \<and>
      (\<exists>k \<le> length xs. strrchr m p c = Inr (padd p k) \<and> (xs @ [0]) ! k = to_char c \<and>
        to_char c \<notin> set (drop (Suc k) (xs @ [0])))) \<and>
    (to_char c \<notin> set (xs @ [0]) \<longrightarrow> strchr m p c = Inr NullPtr \<and> (in_char_range c \<longrightarrow> strrchr m p c = Inr NullPtr)) \<and>
    (\<not> in_char_range c \<longrightarrow> strchr m p c = Inr NullPtr)"
proof -
  have last: "to_char c \<in> set (xs @ [0])" if "k \<le> length xs" "(xs @ [0]) ! k = to_char c" for k
    using that nth_mem [of k "xs @ [0]"] by simp
  show ?thesis
    using strchr_finds [OF assms, of c] strrchr_finds_last [OF assms, of c] last by blast
qed

text \<open>
  C34: the functions of string.c that read \<open>n\<close> bytes of a region. \<open>memcmp\<close> compares two regions
  as unsigned characters: zero exactly when they are equal, otherwise the sign of the first
  difference. \<open>memchr\<close> finds the first byte that equals its argument converted to
  \<open>unsigned char\<close>, and returns a null pointer exactly when there is none.
\<close>

theorem region_readers:
  assumes "bytes_at m p xs" and "bytes_at m q ys" and "length xs = unat n" and "length ys = unat n"
  shows "(memcmp m p q n = Inr 0 \<and> xs = ys \<or>
     (\<exists>k<unat n. take k xs = take k ys \<and> xs ! k \<noteq> ys ! k \<and>
       memcmp m p q n = Inr (if xs ! k < ys ! k then - 1 else 1))) \<and>
    memchr m p c n = Inr (if to_char c \<in> set xs
     then padd p (length (takeWhile (\<lambda>b. b \<noteq> to_char c) xs)) else NullPtr)"
  using memcmp_first_difference [OF assms] memchr_finds [OF assms(1,3)] by blast

theorem region_readers_witness:
  "memcmp (two_objects [1, 0, 3] [1, 0, 2]) (Ptr 0 0) (Ptr (Suc 0) 0) 3 = Inr 1 \<and>
   memchr (two_objects [1, 0, 3] [1, 0, 2]) (Ptr 0 0) 259 3 = Inr (Ptr 0 2)"
proof -
  let ?m = "two_objects [1, 0, 3] [1, 0, 2]"
  have "bytes_at ?m (Ptr 0 0) [1, 0, 3]" and "bytes_at ?m (Ptr (Suc 0) 0) [1, 0, 2]"
    and "length [1, 0, 3 :: u8] = unat (3 :: u64)" and "length [1, 0, 2 :: u8] = unat (3 :: u64)"
    by (simp_all add: two_objects_def)
  note r = region_readers [OF this, of 259]
  from r obtain k where k: "k < 3" "[1, 0, 3 :: u8] ! k \<noteq> [1, 0, 2] ! k"
    "memcmp ?m (Ptr 0 0) (Ptr (Suc 0) 0) 3 = Inr (if [1, 0, 3 :: u8] ! k < [1, 0, 2] ! k then - 1 else 1)"
    by auto
  then have "k = 0 \<or> k = 1 \<or> k = 2" by arith
  with k r show ?thesis by auto
qed

text \<open>
  C33: the readers of C strings (string.c), for any two strings. \<open>strcmp\<close> orders them by
  their bytes as unsigned characters: zero exactly on equal strings, negative exactly when the
  first is smaller in the lexicographic order, negated when the arguments are swapped.
  \<open>strncmp\<close> compares as \<open>strcmp\<close> does on the first \<open>n\<close> bytes. \<open>strspn\<close> counts the longest
  prefix whose characters all occur in the second string, \<open>strcspn\<close> the longest prefix with
  none of them, and \<open>strpbrk\<close> points to where \<open>strcspn\<close> stops, or is null at the end.
  \<open>strchr\<close> finds the first and \<open>strrchr\<close> the last occurrence of a character, the terminating
  null included, or a null pointer when there is none; an argument outside the range of
  \<open>char\<close> is never found by \<open>strchr\<close>, even when its conversion to \<open>char\<close> occurs.
\<close>

theorem string_readers:
  assumes "cstr m p xs" and "cstr m q ys"
  shows "(\<exists>r. strcmp m p q = Inr r \<and> strcmp m q p = Inr (- r) \<and> (r = 0 \<longleftrightarrow> xs = ys) \<and>
      (r < 0 \<longleftrightarrow> (xs, ys) \<in> lexord {(a, b). a < b})) \<and>
    (\<exists>r. strncmp m p q n = Inr r \<and> (r = 0 \<longleftrightarrow> take (unat n) xs = take (unat n) ys) \<and>
      (\<forall>m' p' q'. cstr m' p' (take (unat n) xs) \<longrightarrow> cstr m' q' (take (unat n) ys) \<longrightarrow> strcmp m' p' q' = Inr r)) \<and>
    (length xs < 2 ^ 64 \<longrightarrow>
      (\<exists>j k. strspn m p q = Inr j \<and> unat j \<le> length xs \<and> set (take (unat j) xs) \<subseteq> set ys \<and>
        (unat j < length xs \<longrightarrow> xs ! unat j \<notin> set ys) \<and>
      strcspn m p q = Inr k \<and> unat k \<le> length xs \<and> set (take (unat k) xs) \<inter> set ys = {} \<and>
        (unat k < length xs \<longrightarrow> xs ! unat k \<in> set ys) \<and>
      strpbrk m p q = Inr (if unat k < length xs then padd p (unat k) else NullPtr))) \<and>
    (in_char_range c \<longrightarrow> to_char c \<in> set (xs @ [0]) \<longrightarrow>
      (\<exists>k \<le> length xs. strchr m p c = Inr (padd p k) \<and> (xs @ [0]) ! k = to_char c \<and> to_char c \<notin> set (take k xs)) \<and>
      (\<exists>k \<le> length xs. strrchr m p c = Inr (padd p k) \<and> (xs @ [0]) ! k = to_char c \<and>
        to_char c \<notin> set (drop (Suc k) (xs @ [0])))) \<and>
    (to_char c \<notin> set (xs @ [0]) \<longrightarrow> strchr m p c = Inr NullPtr \<and> (in_char_range c \<longrightarrow> strrchr m p c = Inr NullPtr)) \<and>
    (\<not> in_char_range c \<longrightarrow> strchr m p c = Inr NullPtr)"
  using string_comparisons [OF assms, of n] span_functions [OF assms] character_searches [OF assms(1), of c]
  by (intro conjI) blast+

theorem string_readers_witness:
  "\<exists>r k. strcmp (two_objects [97, 98, 200, 0] [97, 98, 100, 0]) (Ptr 0 0) (Ptr (Suc 0) 0) = Inr r \<and> 0 < r \<and>
   strncmp (two_objects [97, 98, 200, 0] [97, 98, 100, 0]) (Ptr 0 0) (Ptr (Suc 0) 0) 2 = Inr 0 \<and>
   strcspn (two_objects [97, 98, 200, 0] [97, 98, 100, 0]) (Ptr 0 0) (Ptr (Suc 0) 0) = Inr k \<and> unat k \<le> 3 \<and>
   strchr (two_objects [97, 98, 200, 0] [97, 98, 100, 0]) (Ptr 0 0) (256 + 98) = Inr NullPtr"
proof -
  let ?m = "two_objects ([97, 98, 200] @ 0 # []) ([97, 98, 100] @ 0 # [])"
  have "cstr ?m (Ptr 0 0) [97, 98, 200]" and "cstr ?m (Ptr (Suc 0) 0) [97, 98, 100]"
    by (rule two_objects_cstr, simp)+
  note c = string_readers [OF this, of 2 "256 + 98"]
  from c obtain r where r: "strcmp ?m (Ptr 0 0) (Ptr (Suc 0) 0) = Inr r" "r \<noteq> 0" "\<not> r < 0" by auto
  have "length [97, 98, 200 :: u8] < 2 ^ 64" by simp
  with c obtain k where k: "strcspn ?m (Ptr 0 0) (Ptr (Suc 0) 0) = Inr k" "unat k \<le> length [97, 98, 200 :: u8]"
    by blast
  have "\<not> in_char_range (256 + 98 :: u32)" by (simp add: in_char_range_def)
  with c have "strchr ?m (Ptr 0 0) (256 + 98) = Inr NullPtr" by blast
  moreover from r have "0 < r" by simp
  moreover from c have "strncmp ?m (Ptr 0 0) (Ptr (Suc 0) 0) 2 = Inr 0" by auto
  ultimately show ?thesis using r(1) k by (auto simp: numeral_3_eq_3)
qed

text \<open>
  C35: the two bounded writers of string.c. \<open>strncpy\<close> writes exactly \<open>n\<close> bytes: the string,
  cut after \<open>n\<close> bytes, filled up with null bytes, so that the result is a C string when the
  source is shorter than \<open>n\<close>. \<open>strncat\<close> appends at most \<open>n\<close> bytes of the second string to
  the first, and always a terminating null byte. Each needs the room it writes, apart from the
  source.
\<close>

theorem bounded_writers:
  assumes "cstr m src ys"
  shows "(room_at m dest (unat n) \<and> disjoint_regions dest (unat n) src (Suc (length ys)) \<longrightarrow>
      (\<exists>m'. strncpy m dest src n = Inr (m', dest) \<and>
        bytes_at m' dest (take (unat n) ys @ replicate (unat n - length ys) 0) \<and>
        (length ys < unat n \<longrightarrow> cstr m' dest ys))) \<and>
    (cstr m dest xs \<and> room_at m dest (length xs + Suc (min (unat n) (length ys))) \<and>
      disjoint_regions dest (length xs + Suc (min (unat n) (length ys))) src (Suc (length ys)) \<longrightarrow>
      (\<exists>m'. strncat m dest src n = Inr (m', dest) \<and> cstr m' dest (xs @ take (unat n) ys)))"
  using strncpy_writes [OF assms, of dest n] strncat_appends [OF _ assms, of dest xs n] by blast

theorem bounded_writers_witness:
  "\<exists>m'. strncat (two_objects [97, 0, 7, 7] [98, 99, 100, 0]) (Ptr 0 0) (Ptr (Suc 0) 0) 2 = Inr (m', Ptr 0 0) \<and>
    cstr m' (Ptr 0 0) [97, 98, 99]"
proof -
  let ?m = "two_objects ([97] @ 0 # [7, 7]) ([98, 99, 100] @ 0 # [])"
  have d: "cstr ?m (Ptr 0 0) [97]" and s: "cstr ?m (Ptr (Suc 0) 0) [98, 99, 100]"
    by (rule two_objects_cstr, simp)+
  have "room_at ?m (Ptr 0 0) (length [97 :: u8] + Suc (min (unat (2 :: u64)) (length [98, 99, 100 :: u8])))"
    unfolding two_objects_room by simp
  moreover have "disjoint_regions (Ptr 0 0)
      (length [97 :: u8] + Suc (min (unat (2 :: u64)) (length [98, 99, 100 :: u8]))) (Ptr (Suc 0) 0)
      (Suc (length [98, 99, 100 :: u8]))" by simp
  ultimately have "\<exists>m'. strncat ?m (Ptr 0 0) (Ptr (Suc 0) 0) 2 = Inr (m', Ptr 0 0) \<and>
      cstr m' (Ptr 0 0) ([97] @ take (unat (2 :: u64)) [98, 99, 100])"
    using bounded_writers [OF s, of "Ptr 0 0" 2 "[97]"] d by blast
  then show ?thesis by (simp add: take_Cons')
qed

text \<open>
  \<open>memmove\<close> (string.c) ignores a failure of \<open>malloc\<close>: for a size above the heap
  bound of the profile it dereferences a null pointer.
\<close>

lemma memmove_malloc_failure:
  assumes "maxHeapBound < unat n" and "cells_at m src (c # cs)"
  shows "memmove m dest src n = Inl NullDeref"
  using assms by (rule memmove_too_large)

end
