(* ===== verification/LibcToken.thy ===== *)
theory LibcToken
  imports LibcString
begin

text \<open>
  The tokenizer \<open>strtok_r\<close> and its static-state form \<open>strtok\<close> of
  src/profiles/x86-gcc-limited-libc/src/string.c, and the proof that calling it until it
  returns a null pointer yields exactly the maximal runs of non-delimiters of the string, in
  order, each one a C string in the memory that is left.
\<close>

section \<open>Tokens\<close>

text \<open>
  \<open>lasts\<close> is the pointer the caller keeps between calls and \<open>emptystr\<close> the address of
  the string literal \<open>""\<close>. The result is the memory, the new \<open>lasts\<close> and the token.
\<close>

definition strtok_r :: "ptr \<Rightarrow> mem \<Rightarrow> ptr \<Rightarrow> ptr \<Rightarrow> ptr \<Rightarrow> (mem \<times> ptr \<times> ptr) ubres" where
  "strtok_r emptystr m s delimiters lasts =
     (let sbegin0 = (if s \<noteq> NullPtr then s else lasts) in
      bindr (strspn m sbegin0 delimiters) (\<lambda>k.
      bindr (ptr_add m sbegin0 (uint k)) (\<lambda>sbegin.
      bindr (load m sbegin) (\<lambda>b.
        if b = 0 then Inr (m, emptystr, NullPtr)
        else bindr (strcspn m sbegin delimiters) (\<lambda>j.
          bindr (ptr_add m sbegin (uint j)) (\<lambda>send.
          bindr (load m send) (\<lambda>e.
            if e \<noteq> 0 then bindr (store m send 0) (\<lambda>m'.
              bindr (ptr_add m' send 1) (\<lambda>send'. Inr (m', send', sbegin)))
            else Inr (m, send, sbegin))))))))"

text \<open>\<open>strtok\<close> keeps \<open>lasts\<close> in a static variable, initially the address of \<open>""\<close>.\<close>

definition strtok :: "ptr \<Rightarrow> mem \<Rightarrow> ptr \<Rightarrow> ptr \<Rightarrow> ptr \<Rightarrow> (mem \<times> ptr \<times> ptr) ubres" where
  "strtok emptystr m ssave s1 delimiters = strtok_r emptystr m s1 delimiters ssave"

section \<open>One call\<close>

lemma uint_of_nat_u64: "k < 2 ^ 64 \<Longrightarrow> uint (of_nat k :: u64) = int k"
  by (metis uint_nat unat_of_nat_u64)

lemma cstr_ptr_add:
  "cstr m p xs \<Longrightarrow> k \<le> length xs \<Longrightarrow> ptr_add m p (int k) = Inr (padd p k)"
  by (cases p) (auto simp: cstr_def ptr_add_def split: option.splits)

lemma cstr_ptr_add_u64:
  "cstr m p xs \<Longrightarrow> k \<le> length xs \<Longrightarrow> length xs < 2 ^ 64 \<Longrightarrow>
   ptr_add m p (uint (of_nat k :: u64)) = Inr (padd p k)"
  by (simp add: uint_of_nat_u64 cstr_ptr_add)

lemma strtok_r_none:
  assumes "cstr m p xs" and "cstr m q ds" and "p = (if s \<noteq> NullPtr then s else lasts)"
    and "length xs < 2 ^ 64" and "set xs \<subseteq> set ds"
  shows "strtok_r emptystr m s q lasts = Inr (m, emptystr, NullPtr)"
proof -
  have "takeWhile (\<lambda>b. b \<in> set ds) xs = xs" using assms(5) by auto
  then have "strspn m p q = Inr (of_nat (length xs))"
    using strspn_cstr [OF assms(1,2)] by (simp del: takeWhile_eq_all_conv)
  moreover have "load m (padd p (length xs)) = Inr 0"
    using cstr_load [OF assms(1) order_refl] by simp
  ultimately show ?thesis
    using assms(3) cstr_ptr_add_u64 [OF assms(1) order_refl assms(4)]
    by (simp add: strtok_r_def Let_def)
qed

text \<open>
  The string from which a token is taken splits into leading delimiters, the token and the
  rest, which is empty or starts with a delimiter.
\<close>

lemma strtok_r_some:
  assumes "cstr m p (pre @ tok @ aft)" and "cstr m q ds"
    and "p = (if s \<noteq> NullPtr then s else lasts)"
    and "length (pre @ tok @ aft) < 2 ^ 64"
    and "set pre \<subseteq> set ds" and "tok \<noteq> []" and "set tok \<inter> set ds = {}"
    and "aft = [] \<or> hd aft \<in> set ds"
    and "room_at m p (Suc (length (pre @ tok @ aft)))"
  shows "strtok_r emptystr m s q lasts =
    (let t = padd p (length pre); e = padd p (length pre + length tok)
     in if aft = [] then Inr (m, e, t)
        else Inr (write_bytes m e [0], padd e (Suc 0), t))"
proof -
  let ?xs = "pre @ tok @ aft"
  let ?t = "padd p (length pre)"
  let ?e = "padd p (length pre + length tok)"
  have hd: "hd tok \<notin> set ds" using assms(6,7) by (cases tok) auto
  have "takeWhile (\<lambda>b. b \<in> set ds) ?xs = pre"
    using assms(5,6) hd by (cases tok) (auto simp: takeWhile_append)
  then have 1: "strspn m p q = Inr (of_nat (length pre))"
    using strspn_cstr [OF assms(1,2)] by simp
  have 2: "ptr_add m p (uint (of_nat (length pre) :: u64)) = Inr ?t"
    using cstr_ptr_add_u64 [OF assms(1) _ assms(4)] by simp
  have t: "cstr m ?t (tok @ aft)" using cstr_drop [OF assms(1), of "length pre"] by simp
  have 3: "load m ?t = Inr (hd tok)" and nz: "hd tok \<noteq> 0"
    using t assms(6) by (cases tok; auto dest: cstr_Cons)+
  have "takeWhile (\<lambda>b. b \<notin> set ds) (tok @ aft) = tok"
    using assms(7,8) by (cases aft) (auto simp: takeWhile_append)
  then have 4: "strcspn m ?t q = Inr (of_nat (length tok))"
    using strcspn_cstr [OF t assms(2)] by simp
  have 5: "ptr_add m ?t (uint (of_nat (length tok) :: u64)) = Inr ?e"
    using cstr_ptr_add_u64 [OF t, of "length tok"] assms(4) by simp
  have 6: "load m ?e = Inr ((aft @ [0]) ! 0)"
    using cstr_load [OF assms(1), of "length pre + length tok"] by (simp add: nth_append)
  have room: "room_at m ?e (Suc (length aft))"
    using assms(9) room_at_padd [of m p "length pre + length tok" "Suc (length aft)"]
    by (simp add: ac_simps)
  show ?thesis
  proof (cases aft)
    case Nil
    then show ?thesis using assms(3) 1 2 3 4 5 6 nz by (simp add: strtok_r_def Let_def)
  next
    case (Cons d ys)
    have "d \<noteq> 0" using assms(1) Cons by (auto simp: cstr_def)
    moreover have "room_at m ?e (Suc 0)" using room by (rule room_at_less) simp
    ultimately show ?thesis
      using assms(3) 1 2 3 4 5 6 nz Cons store_room_at [OF room] room_at_ptr_add [OF room]
      by (simp add: strtok_r_def Let_def)
  qed
qed

section \<open>A whole tokenization\<close>

text \<open>The tokens of a string: its maximal runs of non-delimiters.\<close>

function tokens :: "u8 set \<Rightarrow> u8 list \<Rightarrow> u8 list list" where
  "tokens D xs =
     (let rest = dropWhile (\<lambda>b. b \<in> D) xs in
      if rest = [] then []
      else takeWhile (\<lambda>b. b \<notin> D) rest # tokens D (tl (dropWhile (\<lambda>b. b \<notin> D) rest)))"
  by pat_completeness auto
termination
proof (relation "measure (\<lambda>(D, xs). length xs)")
  fix D :: "u8 set" and xs rest :: "u8 list"
  assume rest: "rest = dropWhile (\<lambda>b. b \<in> D) xs" "rest \<noteq> []"
  have "length (dropWhile (\<lambda>b. b \<notin> D) rest) \<le> length rest" by (rule length_dropWhile_le)
  moreover have "0 < length rest" using rest(2) by simp
  moreover have "length rest \<le> length xs" using rest(1) by (simp add: length_dropWhile_le)
  ultimately show "((D, tl (dropWhile (\<lambda>b. b \<notin> D) rest)), D, xs) \<in> measure (\<lambda>(D, xs). length xs)"
    by (simp only: in_measure prod.case length_tl)
qed simp

declare tokens.simps [simp del]

lemma tokens_all_delims: "set xs \<subseteq> D \<Longrightarrow> tokens D xs = []"
proof -
  assume "set xs \<subseteq> D"
  then have "dropWhile (\<lambda>b. b \<in> D) xs = []" by auto
  then show ?thesis by (simp add: tokens.simps [of D xs])
qed

lemma tokens_split:
  assumes "set pre \<subseteq> D" and "tok \<noteq> []" and "set tok \<inter> D = {}" and "aft = [] \<or> hd aft \<in> D"
  shows "tokens D (pre @ tok @ aft) = tok # tokens D (tl aft)"
proof -
  have "dropWhile (\<lambda>b. b \<in> D) (pre @ tok @ aft) = tok @ aft"
    using assms(1,2,3) by (cases tok) (auto simp: dropWhile_append)
  moreover have "takeWhile (\<lambda>b. b \<notin> D) (tok @ aft) = tok" "dropWhile (\<lambda>b. b \<notin> D) (tok @ aft) = aft"
    using assms(3,4) by (cases aft; auto simp: takeWhile_append dropWhile_append)+
  ultimately show ?thesis using assms(2) by (simp add: tokens.simps [of D "pre @ tok @ aft"])
qed

lemma token_split_exists:
  assumes "\<not> set xs \<subseteq> D"
  obtains pre tok aft where "xs = pre @ tok @ aft" and "set pre \<subseteq> D" and "tok \<noteq> []"
    and "set tok \<inter> D = {}" and "aft = [] \<or> hd aft \<in> D"
proof -
  let ?rest = "dropWhile (\<lambda>b. b \<in> D) xs"
  let ?tok = "takeWhile (\<lambda>b. b \<notin> D) ?rest" and ?aft = "dropWhile (\<lambda>b. b \<notin> D) ?rest"
  have "?rest \<noteq> []" using assms by (auto simp: dropWhile_eq_Nil_conv)
  then have "hd ?rest \<notin> D" by (rule hd_dropWhile)
  then have tok: "?tok \<noteq> []" using \<open>?rest \<noteq> []\<close> by (cases ?rest) auto
  have "xs = takeWhile (\<lambda>b. b \<in> D) xs @ ?tok @ ?aft" by simp
  moreover have "set (takeWhile (\<lambda>b. b \<in> D) xs) \<subseteq> D" by (auto dest: set_takeWhileD)
  moreover have "set ?tok \<inter> D = {}" by (auto dest: set_takeWhileD)
  moreover have "?aft = [] \<or> hd ?aft \<in> D" using hd_dropWhile [of "\<lambda>b. b \<notin> D" ?rest] by blast
  ultimately show ?thesis using that tok by blast
qed

text \<open>
  The loop of a caller: the first call passes the string, every later one a null pointer,
  until a null pointer is returned. The counter bounds the calls.
\<close>

fun strtok_run :: "ptr \<Rightarrow> nat \<Rightarrow> mem \<Rightarrow> ptr \<Rightarrow> ptr \<Rightarrow> ptr \<Rightarrow> (mem \<times> ptr list) ubres option" where
  "strtok_run emptystr 0 m s q lasts = None"
| "strtok_run emptystr (Suc fuel) m s q lasts =
     (case strtok_r emptystr m s q lasts of
        Inl e \<Rightarrow> Some (Inl e)
      | Inr (m', lasts', t) \<Rightarrow>
          if t = NullPtr then Some (Inr (m', []))
          else map_option (\<lambda>r. bindr r (\<lambda>(m'', ts). Inr (m'', t # ts)))
                 (strtok_run emptystr fuel m' NullPtr q lasts'))"

lemma cstr_prefix_write:
  assumes "cstr m p (xs @ b # ys)" and "room_at m p (Suc (length xs))"
  shows "cstr (write_bytes m (padd p (length xs)) [0]) p xs"
proof -
  let ?q = "padd p (length xs)"
  have room: "room_at m ?q (length (map Some [0 :: u8]))"
    using assms(2) room_at_padd [of m p "length xs" "Suc 0"] by simp
  have "bytes_at m p xs" using assms(1) by (simp add: cstr_def cells_at_append)
  moreover have "disjoint_regions ?q (length (map Some [0 :: u8])) p (length (map Some xs))"
    by (cases p) simp_all
  ultimately have "bytes_at (write_bytes m ?q [0]) p xs"
    using cells_at_write_cells_disjoint [OF room] by blast
  with cells_at_write_cells_same [OF room] assms(1) show ?thesis
    by (auto simp: cstr_def cells_at_append)
qed

lemma disjoint_regions_sub:
  "disjoint_regions p (j + n) r k \<Longrightarrow> disjoint_regions (padd p j) n r k"
  by (cases p; cases r) auto

text \<open>
  One call that finds a token: the token it returns is a string of the new memory, the next
  call continues with a shorter string, and only bytes of the string itself change.
\<close>

lemma strtok_r_step:
  assumes "cstr m q ds" and "cstr m p xs" and "p = (if s \<noteq> NullPtr then s else lasts)"
    and "room_at m p (Suc (length xs))" and "disjoint_regions p (Suc (length xs)) q (Suc (length ds))"
    and "length xs < 2 ^ 64" and "\<not> set xs \<subseteq> set ds"
  obtains m1 l1 t tok zs where "strtok_r emptystr m s q lasts = Inr (m1, l1, t)" and "t \<noteq> NullPtr"
    and "tokens (set ds) xs = tok # tokens (set ds) zs" and "length zs < length xs"
    and "cstr m1 t tok" and "cstr m1 l1 zs" and "cstr m1 q ds"
    and "room_at m1 l1 (Suc (length zs))"
    and "disjoint_regions l1 (length zs) t (Suc (length tok))"
    and "\<forall>n r k. disjoint_regions p (n + length xs) r k \<longrightarrow> disjoint_regions l1 (n + length zs) r k"
    and "\<forall>r cs. disjoint_regions p (length xs) r (length cs) \<longrightarrow> cells_at m1 r cs = cells_at m r cs"
proof -
  obtain pre tok aft where xs: "xs = pre @ tok @ aft"
    and split: "set pre \<subseteq> set ds" "tok \<noteq> []" "set tok \<inter> set ds = {}" "aft = [] \<or> hd aft \<in> set ds"
    using token_split_exists [OF assms(7)] .
  let ?t = "padd p (length pre)" and ?e = "padd p (length pre + length tok)"
  define m1 where "m1 = (if aft = [] then m else write_bytes m ?e [0])"
  define l1 where "l1 = (if aft = [] then ?e else padd ?e (Suc 0))"
  have nn: "p \<noteq> NullPtr" using assms(2) by auto
  have step: "strtok_r emptystr m s q lasts = Inr (m1, l1, ?t)"
    using strtok_r_some [OF assms(2)[unfolded xs] assms(1,3) assms(6)[unfolded xs]
        split assms(4)[unfolded xs], of emptystr] by (simp add: m1_def l1_def Let_def)
  have e: "cstr m ?e aft" and t: "cstr m ?t (tok @ aft)"
    using cstr_drop [OF assms(2), of "length pre + length tok"]
      cstr_drop [OF assms(2), of "length pre"] xs by simp_all
  have room: "room_at m ?e (Suc (length aft))"
    using assms(4) room_at_padd [of m p "length pre + length tok" "Suc (length aft)"] xs
    by (simp add: ac_simps)
  then have room1: "room_at m ?e (length [Some (0 :: u8)])" by (rule room_at_less) simp
  have sub: "disjoint_regions l1 (n + length (tl aft)) r k"
    if "disjoint_regions p (n + length xs) r k" for n r k
    using that nn by (cases p; cases r; cases aft) (auto simp: l1_def xs)
  have frame: "cells_at m1 r cs = cells_at m r cs"
    if "disjoint_regions p (length xs) r (length cs)" for r cs
  proof (cases aft)
    case (Cons d ys)
    then have "disjoint_regions ?e (length [Some (0 :: u8)]) r (length cs)"
      using that nn by (cases p; cases r) (auto simp: xs)
    from cells_at_write_cells_disjoint [OF room1 this] Cons show ?thesis by (simp add: m1_def)
  qed (simp add: m1_def)
  have "disjoint_regions p (length xs) q (Suc (length ds))"
    using assms(5) by (rule disjoint_regions_mono) simp_all
  then have q1: "cstr m1 q ds" using frame [of q "map Some (ds @ [0])"] assms(1)
    by (simp add: cstr_def)
  have tok: "cstr m1 ?t tok"
  proof (cases aft)
    case (Cons d ys)
    have "room_at m ?t (Suc (length tok))"
      using room_at_padd [of m p "length pre" "Suc (length tok)"]
        room_at_less [OF assms(4), of "length pre + Suc (length tok)"] xs by simp
    from cstr_prefix_write [OF t[unfolded Cons] this] Cons show ?thesis by (simp add: m1_def)
  qed (use t in \<open>simp add: m1_def\<close>)
  have l1: "cstr m1 l1 (tl aft)" "room_at m1 l1 (Suc (length (tl aft)))"
  proof -
    have "cstr m1 l1 (tl aft) \<and> room_at m1 l1 (Suc (length (tl aft)))"
    proof (cases aft)
      case (Cons d ys)
      have "cstr m (padd ?e (Suc 0)) ys" using cstr_Cons(4) e Cons by blast
      moreover have "disjoint_regions ?e (Suc 0) (padd ?e (Suc 0)) k" for k
        using nn by (cases p) simp_all
      ultimately show ?thesis
        using Cons room room1 cstr_write_cells_disjoint [OF room1, of "padd ?e (Suc 0)" ys]
          room_at_padd [of m ?e "Suc 0" "Suc (length ys)"] by (simp add: m1_def l1_def)
    qed (use e room in \<open>simp add: m1_def l1_def\<close>)
    then show "cstr m1 l1 (tl aft)" "room_at m1 l1 (Suc (length (tl aft)))" by simp_all
  qed
  have "disjoint_regions l1 (length (tl aft)) ?t (Suc (length tok))"
    using nn by (cases p; cases aft) (auto simp: l1_def)
  moreover have "length (tl aft) < length xs" using split(2) by (cases aft) (auto simp: xs)
  ultimately show ?thesis
    using that [OF step _ _ _ tok l1(1) q1 l1(2)] tokens_split [OF split] sub frame nn xs by simp
qed

text \<open>
  The run from a state whose next string is \<open>xs\<close> at \<open>p\<close>: it ends, its tokens are
  the tokens of \<open>xs\<close>, and memory outside the string is unchanged.
\<close>

lemma strtok_run_tokens:
  "\<lbrakk>cstr m q ds; cstr m p xs; p = (if s \<noteq> NullPtr then s else lasts);
     room_at m p (Suc (length xs)); disjoint_regions p (Suc (length xs)) q (Suc (length ds));
     length xs < 2 ^ 64; length xs < fuel\<rbrakk> \<Longrightarrow>
   \<exists>m' ts. strtok_run emptystr fuel m s q lasts = Some (Inr (m', ts)) \<and>
     list_all2 (cstr m') ts (tokens (set ds) xs) \<and>
     (\<forall>r cs. disjoint_regions p (length xs) r (length cs) \<longrightarrow> cells_at m' r cs = cells_at m r cs)"
proof (induction fuel arbitrary: m s lasts p xs)
  case 0
  then show ?case by simp
next
  case (Suc fuel)
  note prems = Suc.prems
  show ?case
  proof (cases "set xs \<subseteq> set ds")
    case True
    have "strtok_r emptystr m s q lasts = Inr (m, emptystr, NullPtr)"
      by (rule strtok_r_none [OF prems(2,1,3,6) True])
    then show ?thesis using tokens_all_delims [OF True] by simp
  next
    case False
    obtain m1 l1 t tok zs where st: "strtok_r emptystr m s q lasts = Inr (m1, l1, t)" "t \<noteq> NullPtr"
      "tokens (set ds) xs = tok # tokens (set ds) zs" "length zs < length xs"
      and c1: "cstr m1 t tok" "cstr m1 l1 zs" "cstr m1 q ds" "room_at m1 l1 (Suc (length zs))"
      "disjoint_regions l1 (length zs) t (Suc (length tok))"
      and sub: "\<forall>n r k. disjoint_regions p (n + length xs) r k \<longrightarrow> disjoint_regions l1 (n + length zs) r k"
      and fr: "\<forall>r cs. disjoint_regions p (length xs) r (length cs) \<longrightarrow> cells_at m1 r cs = cells_at m r cs"
      by (rule strtok_r_step [OF prems(1-6) False, of emptystr])
    have "disjoint_regions l1 (Suc (length zs)) q (Suc (length ds))"
      using sub [rule_format, of 1] prems(5) by simp
    with c1 st(4) prems(6,7) obtain m' ts where
      run: "strtok_run emptystr fuel m1 NullPtr q l1 = Some (Inr (m', ts))"
        "list_all2 (cstr m') ts (tokens (set ds) zs)"
      and fr': "\<And>r cs. disjoint_regions l1 (length zs) r (length cs) \<Longrightarrow>
        cells_at m' r cs = cells_at m1 r cs"
      using Suc.IH [of m1 l1 zs NullPtr l1] by auto
    have "cstr m' t tok" using fr' [of t "map Some (tok @ [0])"] c1(1,5) by (simp add: cstr_def)
    moreover have "cells_at m' r cs = cells_at m r cs"
      if "disjoint_regions p (length xs) r (length cs)" for r cs
      using that fr fr' sub [rule_format, of 0] by simp
    ultimately show ?thesis using st run by simp
  qed
qed

section \<open>Properties\<close>

text \<open>
  C7: calling \<open>strtok_r\<close> (string.c) until it returns a null pointer terminates and yields
  exactly the maximal runs of characters that are no delimiters, in order, each one a C string
  in the final memory; memory outside of the string is unchanged.
\<close>

theorem strtok_tokenizes:
  assumes "cstr m q ds" and "cstr m p xs" and "room_at m p (Suc (length xs))"
    and "disjoint_regions p (Suc (length xs)) q (Suc (length ds))"
    and "length xs < 2 ^ 64" and "length xs < fuel"
  shows "\<exists>m' ts. strtok_run emptystr fuel m p q lasts = Some (Inr (m', ts)) \<and>
     list_all2 (cstr m') ts (tokens (set ds) xs) \<and>
     (\<forall>r cs. disjoint_regions p (length xs) r (length cs) \<longrightarrow> cells_at m' r cs = cells_at m r cs)"
proof -
  have "p = (if p \<noteq> NullPtr then p else lasts)" using assms(2) by auto
  from strtok_run_tokens [OF assms(1,2) this assms(3-6)] show ?thesis .
qed

theorem strtok_tokenizes_witness:
  "\<exists>m' ts. strtok_run (Ptr 5 0) 6 (two_objects [32, 97, 98, 32, 99, 0] [32, 0]) (Ptr 0 0) (Ptr (Suc 0) 0) NullPtr =
      Some (Inr (m', ts)) \<and> list_all2 (cstr m') ts [[97, 98], [99]]"
proof -
  let ?m = "two_objects ([32, 97, 98, 32, 99] @ 0 # []) ([32] @ 0 # [])"
  have "cstr ?m (Ptr (Suc 0) 0) [32]" and "cstr ?m (Ptr 0 0) [32, 97, 98, 32, 99]"
    by (rule two_objects_cstr, simp)+
  moreover have "room_at ?m (Ptr 0 0) (Suc (length [32, 97, 98, 32, 99 :: u8]))"
    unfolding two_objects_room by simp
  moreover have "disjoint_regions (Ptr 0 0) (Suc (length [32, 97, 98, 32, 99 :: u8])) (Ptr (Suc 0) 0)
      (Suc (length [32 :: u8]))" by simp
  moreover have "length [32, 97, 98, 32, 99 :: u8] < 2 ^ 64" and "length [32, 97, 98, 32, 99 :: u8] < 6"
    by simp_all
  ultimately have "\<exists>m' ts. strtok_run (Ptr 5 0) 6 ?m (Ptr 0 0) (Ptr (Suc 0) 0) NullPtr = Some (Inr (m', ts)) \<and>
     list_all2 (cstr m') ts (tokens (set [32]) [32, 97, 98, 32, 99]) \<and>
     (\<forall>r cs. disjoint_regions (Ptr 0 0) (length [32, 97, 98, 32, 99 :: u8]) r (length cs) \<longrightarrow>
        cells_at m' r cs = cells_at ?m r cs)"
    by (rule strtok_tokenizes)
  moreover have "tokens (set [32]) [32, 97, 98, 32, 99] = [[97, 98], [99 :: u8]]" by (simp add: tokens.simps)
  ultimately show ?thesis by auto
qed

end
