(* ===== verification/LibcFrame.thy ===== *)
theory LibcFrame
  imports LibcToken
begin

text \<open>
  What the writing functions of string.c leave alone. Every store goes through a pointer that
  was stepped from the destination, so on any input on which such a function returns, whatever
  it was given, only the object of the destination has changed, and only bytes of it: no
  object has come to life, died, grown or become writable, and read-only objects are as
  they were.
\<close>

section \<open>Stores into one object\<close>

fun block :: "ptr \<Rightarrow> nat option" where
  "block NullPtr = None"
| "block (Ptr b i) = Some b"

lemma block_padd [simp]: "block (padd p k) = block p"
  by (cases p) simp_all

lemma block_ptr_add: "ptr_add m p k = Inr q \<Longrightarrow> block q = block p"
  by (cases p) (auto simp: ptr_add_def split: option.splits if_splits)

text \<open>
  A relation between the memory before and after that stores into the object \<open>b\<close> keep: the
  functions keep it too.
\<close>

locale frame =
  fixes b :: nat and R :: "mem \<Rightarrow> mem \<Rightarrow> bool"
  assumes unchanged: "R m m"
    and composed: "R m1 m2 \<Longrightarrow> R m2 m3 \<Longrightarrow> R m1 m3"
    and stored: "block p = Some b \<Longrightarrow> store_cell m p c = Inr m' \<Longrightarrow> R m m'"
begin

lemma store_frame: "block p = Some b \<Longrightarrow> store m p v = Inr m' \<Longrightarrow> R m m'"
  unfolding store_def by (rule stored)

lemma strcpy_loop_frame: "strcpy_loop m dest src = Inr m' \<Longrightarrow> block dest = Some b \<Longrightarrow> R m m'"
proof (induction m dest src rule: strcpy_loop.induct)
  case (1 m dest src)
  from "1.prems"(1) obtain v m1 where v: "load m src = Inr v" and m1: "store m dest v = Inr m1"
    and r: "(if v \<noteq> 0 then strcpy_loop m1 (padd dest (Suc 0)) (padd src (Suc 0)) else Inr m1) = Inr m'"
    unfolding strcpy_loop.simps [of m] bindr_eq_Inr by blast
  have "R m m1" using store_frame "1.prems"(2) m1 by blast
  moreover have "R m1 m'"
    using r "1.IH" [OF v m1] "1.prems"(2) unchanged by (cases "v = 0") simp_all
  ultimately show ?case by (rule composed)
qed

lemma strcpy_frame: "strcpy m dest src = Inr (m', r) \<Longrightarrow> block dest = Some b \<Longrightarrow> R m m'"
  by (auto simp: strcpy_def bindr_eq_Inr split: if_splits intro: strcpy_loop_frame)

lemma strncpy_pad_frame: "strncpy_pad m dest n = Inr m' \<Longrightarrow> block dest = Some b \<Longrightarrow> R m m'"
proof (induction m dest n rule: strncpy_pad.induct)
  case (1 m dest n)
  show ?case
  proof (cases "n = 0")
    case False
    with "1.prems"(1) obtain m1 d1 where m1: "store m dest 0 = Inr m1" and d1: "ptr_add m1 dest 1 = Inr d1"
      and r: "strncpy_pad m1 d1 (n - 1) = Inr m'"
      by (subst (asm) strncpy_pad.simps) (auto simp: bindr_eq_Inr)
    have "R m m1" using store_frame "1.prems"(2) m1 by blast
    moreover have "R m1 m'" using "1.IH" [OF False m1 d1 r] "1.prems"(2) block_ptr_add [OF d1] by simp
    ultimately show ?thesis by (rule composed)
  qed (use "1.prems" unchanged in \<open>simp add: strncpy_pad.simps [of m]\<close>)
qed

lemma strncpy_loop_frame: "strncpy_loop m dest src n = Inr m' \<Longrightarrow> block dest = Some b \<Longrightarrow> R m m'"
proof (induction m dest src n rule: strncpy_loop.induct)
  case (1 m dest src n)
  show ?case
  proof (cases "n = 0")
    case False
    with "1.prems"(1) obtain v m1 d1 s1 where v: "load m src = Inr v" and m1: "store m dest v = Inr m1"
      and d1: "ptr_add m1 dest 1 = Inr d1" and s1: "ptr_add m1 src 1 = Inr s1"
      and r: "(if v \<noteq> 0 then strncpy_loop m1 d1 s1 (n - 1) else strncpy_pad m1 d1 (n - 1)) = Inr m'"
      by (subst (asm) strncpy_loop.simps) (auto simp: bindr_eq_Inr)
    have "R m m1" using store_frame "1.prems"(2) m1 by blast
    moreover have "block d1 = Some b" using "1.prems"(2) block_ptr_add [OF d1] by simp
    then have "R m1 m'"
      using r "1.IH" [OF False v m1 d1 s1] strncpy_pad_frame by (cases "v = 0") simp_all
    ultimately show ?thesis by (rule composed)
  qed (use "1.prems" unchanged in \<open>simp add: strncpy_loop.simps [of m]\<close>)
qed

lemma strncpy_frame: "strncpy m dest src n = Inr (m', r) \<Longrightarrow> block dest = Some b \<Longrightarrow> R m m'"
  by (auto simp: strncpy_def bindr_eq_Inr intro: strncpy_loop_frame)

lemma memcpy_loop_frame: "memcpy_loop m dst src n = Inr m' \<Longrightarrow> block dst = Some b \<Longrightarrow> R m m'"
proof (induction m dst src n rule: memcpy_loop.induct)
  case (1 m dst src n)
  show ?case
  proof (cases "n = 0")
    case False
    with "1.prems"(1) obtain c m1 d1 s1 where c: "load_cell m src = Inr c" and m1: "store_cell m dst c = Inr m1"
      and d1: "ptr_add m1 dst 1 = Inr d1" and s1: "ptr_add m1 src 1 = Inr s1"
      and r: "memcpy_loop m1 d1 s1 (n - 1) = Inr m'"
      by (subst (asm) memcpy_loop.simps) (auto simp: bindr_eq_Inr)
    have "R m m1" using stored "1.prems"(2) m1 by blast
    moreover have "R m1 m'" using "1.IH" [OF False c m1 d1 s1 r] "1.prems"(2) block_ptr_add [OF d1] by simp
    ultimately show ?thesis by (rule composed)
  qed (use "1.prems" unchanged in \<open>simp add: memcpy_loop.simps [of m]\<close>)
qed

lemma memcpy_frame: "memcpy m dest src n = Inr (m', r) \<Longrightarrow> block dest = Some b \<Longrightarrow> R m m'"
  by (auto simp: memcpy_def bindr_eq_Inr intro: memcpy_loop_frame)

lemma strncat_loop_frame:
  "strncat_loop m s s2 n = Inr (m', s') \<Longrightarrow> block s = Some b \<Longrightarrow> R m m' \<and> block s' = Some b"
proof (induction m s s2 n rule: strncat_loop.induct)
  case (1 m s s2 n)
  show ?case
  proof (cases "n = 0")
    case False
    with "1.prems"(1) obtain v q m1 where v: "load m s2 = Inr v" and q: "ptr_add m s2 1 = Inr q"
      and m1: "store m s v = Inr m1"
      and r: "(if v \<noteq> 0 then bindr (ptr_add m1 s 1) (\<lambda>s1. strncat_loop m1 s1 q (n - 1)) else Inr (m1, s)) = Inr (m', s')"
      by (subst (asm) strncat_loop.simps) (auto simp: bindr_eq_Inr)
    have first: "R m m1" using store_frame "1.prems"(2) m1 by blast
    show ?thesis
    proof (cases "v = 0")
      case True
      with r first "1.prems"(2) show ?thesis by simp
    next
      case v0: False
      with r obtain s1 where s1: "ptr_add m1 s 1 = Inr s1" and r1: "strncat_loop m1 s1 q (n - 1) = Inr (m', s')"
        by (auto simp: bindr_eq_Inr)
      have "R m1 m' \<and> block s' = Some b"
        using "1.IH" [OF False v q m1 v0 s1 r1] "1.prems"(2) block_ptr_add [OF s1] by simp
      with first composed show ?thesis by blast
    qed
  qed (use "1.prems" unchanged in \<open>simp add: strncat_loop.simps [of m]\<close>)
qed

end

lemma strend_block: "strend m s = Inr e \<Longrightarrow> block e = block s"
proof (induction m s rule: strend.induct)
  case (1 m s)
  from "1.prems" obtain v where v: "load m s = Inr v"
    and r: "(if v \<noteq> 0 then bindr (ptr_add m s 1) (\<lambda>s'. strend m s') else Inr s) = Inr e"
    by (subst (asm) strend.simps) (auto simp: bindr_eq_Inr)
  then show ?case using "1.IH" [OF v] block_ptr_add by (cases "v = 0") (auto simp: bindr_eq_Inr)
qed

context frame
begin

lemma strcat_frame: "strcat m s1 s2 = Inr (m', r) \<Longrightarrow> block s1 = Some b \<Longrightarrow> R m m'"
  using strcpy_frame by (auto simp: strcat_def bindr_eq_Inr dest: strend_block)

lemma strncat_frame: "strncat m s1 s2 n = Inr (m', r) \<Longrightarrow> block s1 = Some b \<Longrightarrow> R m m'"
proof -
  assume "strncat m s1 s2 n = Inr (m', r)" and b: "block s1 = Some b"
  then obtain e m1 s where e: "strend m s1 = Inr e" and l: "strncat_loop m e s2 n = Inr (m1, s)"
    and st: "store m1 s 0 = Inr m'" by (auto simp: strncat_def bindr_eq_Inr)
  from strncat_loop_frame [OF l] strend_block [OF e] b have "R m m1" "block s = Some b" by simp_all
  with store_frame st composed show ?thesis by blast
qed

end

section \<open>What a store leaves\<close>

text \<open>The objects of a memory and of a later one in which at most bytes of object \<open>b\<close> differ.\<close>

fun same_shape :: "obj option \<Rightarrow> obj option \<Rightarrow> bool" where
  "same_shape None None \<longleftrightarrow> True"
| "same_shape (Some ob) (Some ob') \<longleftrightarrow> length (contents ob') = length (contents ob) \<and>
     writable ob' = writable ob \<and> (writable ob \<or> ob' = ob)"
| "same_shape _ _ \<longleftrightarrow> False"

definition touches :: "nat \<Rightarrow> mem \<Rightarrow> mem \<Rightarrow> bool" where
  "touches b m m' \<longleftrightarrow> fresh m \<le> fresh m' \<and> malloced m' = malloced m \<and>
     (\<forall>c. c \<noteq> b \<longrightarrow> objs m' c = objs m c) \<and> same_shape (objs m b) (objs m' b)"

lemma same_shape_refl: "same_shape x x"
  by (cases x) simp_all

lemma same_shape_trans: "same_shape x y \<Longrightarrow> same_shape y z \<Longrightarrow> same_shape x z"
  by (cases x; cases y; cases z) auto

lemma touches_wf: "touches b m m' \<Longrightarrow> wf_mem m \<Longrightarrow> wf_mem m'"
proof -
  assume t: "touches b m m'" and w: "wf_mem m"
  have "objs m' c = None" if "fresh m' \<le> c" for c
    using t w that by (cases "c = b"; cases "objs m' b") (auto simp: touches_def wf_mem_def)
  with t w show ?thesis by (auto simp: touches_def wf_mem_def)
qed

lemma store_cell_touches: "block p = Some b \<Longrightarrow> store_cell m p c = Inr m' \<Longrightarrow> touches b m m'"
  by (cases p) (auto simp: store_cell_def touches_def split: option.splits if_splits)

interpretation bytes: frame b "touches b" for b
proof unfold_locales
  show "touches b m m" for m by (simp add: touches_def same_shape_refl)
  show "touches b m1 m2 \<Longrightarrow> touches b m2 m3 \<Longrightarrow> touches b m1 m3" for m1 m2 m3
    by (auto simp: touches_def intro: same_shape_trans)
qed (rule store_cell_touches)

lemma memmove_touches:
  assumes "wf_mem m" and "memmove m (Ptr b i) s2 n = Inr (m', r)"
  shows "touches b m m'"
proof (cases "unat n \<le> maxHeapBound")
  case False
  then have "malloc m n = (m, NullPtr)" by (simp add: malloc_def)
  with assms(2) obtain m2 r2 r3 where "memcpy m NullPtr s2 n = Inr (m2, r2)"
    and m3: "memcpy m2 (Ptr b i) NullPtr n = Inr (m', r3)" by (auto simp: memmove_def bindr_eq_Inr)
  moreover have "n \<noteq> 0" using False by auto
  ultimately show ?thesis
    by (auto simp: memcpy_def memcpy_loop.simps [of _ NullPtr] bindr_eq_Inr store_cell_def)
next
  case True
  let ?t = "fresh m"
  obtain m1 where m1: "malloc m n = (m1, Ptr ?t 0)" "malloced m1 = (malloced m)(?t \<mapsto> unat n)"
    "fresh m1 = Suc ?t" "\<And>c. c \<noteq> ?t \<Longrightarrow> objs m1 c = objs m c"
    using True by (simp add: malloc_def)
  from assms(2) m1(1) obtain m2 m3 r2 r3 where c2: "memcpy m1 (Ptr ?t 0) s2 n = Inr (m2, r2)"
    and c3: "memcpy m2 (Ptr b i) (Ptr ?t 0) n = Inr (m3, r3)" and m': "free m3 (Ptr ?t 0) = Inr m'"
    by (auto simp: memmove_def bindr_eq_Inr simp del: free.simps)
  have m2: "touches ?t m1 m2" and m3: "touches b m2 m3"
    using bytes.memcpy_frame [OF c2] bytes.memcpy_frame [OF c3] by simp_all
  have "m' = m3\<lparr>objs := (objs m3)(?t := None), malloced := (malloced m3)(?t := None)\<rparr>"
    using m' by (auto split: if_splits)
  moreover have "objs m ?t = None" "malloced m ?t = None" using assms(1) by (auto simp: wf_mem_def)
  ultimately show ?thesis using m1 m2 m3 by (cases "b = ?t") (auto simp: touches_def fun_upd_idem)
qed

lemma strtok_r_touches:
  assumes "strtok_r emptystr m s delimiters lasts = Inr (m', r)"
    and "(if s \<noteq> NullPtr then s else lasts) = Ptr b i"
  shows "touches b m m'"
  using assms bytes.unchanged bytes.store_frame
  by (auto simp: strtok_r_def Let_def bindr_eq_Inr dest!: block_ptr_add split: if_splits)

section \<open>Properties\<close>

text \<open>
  C24: Every writing function of string.c (\<open>strcpy\<close>, \<open>strncpy\<close>, \<open>memcpy\<close>, \<open>memmove\<close>,
  \<open>strcat\<close>, \<open>strncat\<close>, \<open>strtok_r\<close> and \<open>strtok\<close>), called with any arguments whatever, either
  runs into undefined behaviour or leaves a well-formed memory in which every object of the
  memory before is still there with its size and its protection, nothing else is, and only the
  bytes of a writable destination may differ. In particular \<open>memmove\<close> frees its buffer.
\<close>

theorem writers_keep_shape:
  assumes "wf_mem m" and "dest = Ptr b i"
    and "\<exists>r. strcpy m dest src = Inr (m', r) \<or> strncpy m dest src n = Inr (m', r) \<or>
      memcpy m dest src n = Inr (m', r) \<or> memmove m dest src n = Inr (m', r) \<or>
      strcat m dest src = Inr (m', r) \<or> strncat m dest src n = Inr (m', r) \<or>
      (\<exists>q. strtok_r emptystr m dest src lasts = Inr (m', q, r) \<or>
           strtok_r emptystr m NullPtr src dest = Inr (m', q, r) \<or>
           strtok emptystr m ssave dest src = Inr (m', q, r) \<or>
           strtok emptystr m dest NullPtr src = Inr (m', q, r))"
  shows "wf_mem m' \<and> touches b m m'"
proof -
  have b: "block dest = Some b" by (simp add: assms(2))
  have "touches b m m'" if "strtok_r emptystr m p src l = Inr (m', qr)" "(if p \<noteq> NullPtr then p else l) = dest"
    for p l qr
    using strtok_r_touches [OF that(1)] that(2) assms(2) by simp
  then have "touches b m m'"
    using assms(3) b memmove_touches [OF assms(1), of b i src n m'] assms(2)
      bytes.strcpy_frame [of m dest src m'] bytes.strncpy_frame [of m dest src n m']
      bytes.memcpy_frame [of m dest src n m'] bytes.strcat_frame [of m dest src m']
      bytes.strncat_frame [of m dest src n m']
    unfolding strtok_def by (metis ptr.distinct(1))
  with touches_wf [OF this assms(1)] show ?thesis by simp
qed

theorem writers_keep_shape_witness:
  "\<exists>m' r. strcpy (two_objects [1, 2, 0] [4, 5, 6, 7]) (Ptr 1 1) (Ptr 0 0) = Inr (m', r) \<and>
     wf_mem m' \<and> touches 1 (two_objects [1, 2, 0] [4, 5, 6, 7]) m'"
proof -
  let ?m = "two_objects [1, 2, 0] [4, 5, 6, 7]"
  have "\<not> isl (strcpy ?m (Ptr 1 1) (Ptr 0 0))" by code_simp
  then obtain m' r where cp: "strcpy ?m (Ptr 1 1) (Ptr 0 0) = Inr (m', r)"
    by (cases "strcpy ?m (Ptr 1 1) (Ptr 0 0)") auto
  with writers_keep_shape [OF two_objects_wf refl, of "[1, 2, 0]" "[4, 5, 6, 7]" 1 1 "Ptr 0 0" m'] show ?thesis
    by blast
qed

end
