(* ===== verification/KTypes.thy ===== *)
theory KTypes
  imports Prelude
begin

text \<open>
  The integer types of the semantics of C (src/semantics/c/language/common): their names as
  typing.k has them, their sizes as the profile sets them
  (src/profiles/x86-gcc-limited-libc/semantics/c-settings.k), their ranges (typing/common.k),
  when two of them are the same (typing/compatibility.k), and the integer type that stands
  for an enumeration (translation/decl/tagged.k).

  An unqualified type \<open>ut(Mods, T)\<close> is a set of modifiers with a simple type. The
  constructor for an enumeration carries, beside the tag, the alias that the tag information
  in the \<open>tags\<close> cell records for it.
\<close>

section \<open>Simple types (typing.k)\<close>

datatype ityp =
    BoolType | CharType | SignedChar | UnsignedChar
  | ShortInt | UnsignedShortInt | PlainInt | SignedInt | UnsignedInt
  | LongInt | UnsignedLongInt | LongLongInt | UnsignedLongLongInt
  | OversizedInt | UnsignedOversizedInt

datatype ftyp = Float | Double | LongDouble | OversizedFloat

datatype ctag = NamedTag string | UnnamedTag int string

datatype itype =
    Basic ityp
  | Bitfield ityp int
  | Enum ctag ityp

datatype stype = Integer itype | Floating ftyp

datatype modifier = IntegerConstant | OtherModifier string

datatype 's utype = Ut (mods: "modifier set") (st: 's)

type_synonym iutype = "itype utype"
type_synonym autype = "stype utype"

text \<open>\<open>utype\<close> of a simple type: no modifiers.\<close>

abbreviation bare :: "'s \<Rightarrow> 's utype" where
  "bare t \<equiv> Ut {} t"

abbreviation int_type :: iutype where
  "int_type \<equiv> bare (Basic PlainInt)"

abbreviation uint_type :: iutype where
  "uint_type \<equiv> bare (Basic UnsignedInt)"

section \<open>Sizes and ranges (c-settings.k, typing/common.k)\<close>

definition bitsPerByte :: nat where
  "bitsPerByte = 8"

fun cfg_sizeof :: "ityp \<Rightarrow> nat" where
  "cfg_sizeof BoolType = 1"
| "cfg_sizeof CharType = 1" | "cfg_sizeof SignedChar = 1" | "cfg_sizeof UnsignedChar = 1"
| "cfg_sizeof ShortInt = 2" | "cfg_sizeof UnsignedShortInt = 2"
| "cfg_sizeof PlainInt = 4" | "cfg_sizeof SignedInt = 4" | "cfg_sizeof UnsignedInt = 4"
| "cfg_sizeof LongInt = 8" | "cfg_sizeof UnsignedLongInt = 8"
| "cfg_sizeof LongLongInt = 8" | "cfg_sizeof UnsignedLongLongInt = 8"
| "cfg_sizeof OversizedInt = 16" | "cfg_sizeof UnsignedOversizedInt = 16"

text \<open>The members of the sort \<open>SimpleSignedType\<close>; the profile adds \<open>char\<close> to it.\<close>

fun is_signed :: "ityp \<Rightarrow> bool" where
  "is_signed BoolType = False"
| "is_signed CharType = True" | "is_signed SignedChar = True" | "is_signed UnsignedChar = False"
| "is_signed ShortInt = True" | "is_signed UnsignedShortInt = False"
| "is_signed PlainInt = True" | "is_signed SignedInt = True" | "is_signed UnsignedInt = False"
| "is_signed LongInt = True" | "is_signed UnsignedLongInt = False"
| "is_signed LongLongInt = True" | "is_signed UnsignedLongLongInt = False"
| "is_signed OversizedInt = True" | "is_signed UnsignedOversizedInt = False"

definition numBits :: "ityp \<Rightarrow> nat" where
  "numBits t = cfg_sizeof t * bitsPerByte"

definition imin :: "ityp \<Rightarrow> int" where
  "imin t = (if is_signed t then 0 - 2 ^ (numBits t - 1) else 0)"

definition imax :: "ityp \<Rightarrow> int" where
  "imax t = (if is_signed t then 2 ^ (numBits t - 1) - 1 else 2 ^ numBits t - 1)"

text \<open>\<open>min\<close> and \<open>max\<close> of an integer type, bit-fields and enumerations included.\<close>

fun tmin :: "itype \<Rightarrow> int" where
  "tmin (Basic t) = imin t"
| "tmin (Bitfield t n) = (if is_signed t then 0 - 2 ^ nat \<bar>n - 1\<bar> else 0)"
| "tmin (Enum tag t) = imin t"

fun tmax :: "itype \<Rightarrow> int" where
  "tmax (Basic t) = imax t"
| "tmax (Bitfield t n) = (if is_signed t then 2 ^ nat \<bar>n - 1\<bar> - 1 else 2 ^ nat \<bar>n\<bar> - 1)"
| "tmax (Enum tag t) = imax t"

definition intInRange :: "int \<Rightarrow> itype \<Rightarrow> bool" where
  "intInRange v t \<longleftrightarrow> v \<le> tmax t \<and> v \<ge> tmin t"

fun bitSizeofType :: "itype \<Rightarrow> int" where
  "bitSizeofType (Basic t) = int (numBits t)"
| "bitSizeofType (Bitfield t n) = n"
| "bitSizeofType (Enum tag t) = int (numBits t)"

text \<open>The patterns \<open>signedIntegerUType\<close> and \<open>unsignedIntegerUType\<close>: no enumeration matches either.\<close>

fun signedInteger :: "itype \<Rightarrow> bool" where
  "signedInteger (Basic t) = is_signed t"
| "signedInteger (Bitfield t n) = is_signed t"
| "signedInteger (Enum tag t) = False"

fun unsignedInteger :: "itype \<Rightarrow> bool" where
  "unsignedInteger (Basic t) = (\<not> is_signed t)"
| "unsignedInteger (Bitfield t n) = (\<not> is_signed t)"
| "unsignedInteger (Enum tag t) = False"

fun isBool :: "itype \<Rightarrow> bool" where
  "isBool (Basic t) = (t = BoolType)"
| "isBool _ = False"

definition hasSameSignedness :: "itype \<Rightarrow> itype \<Rightarrow> bool" where
  "hasSameSignedness s t \<longleftrightarrow>
     signedInteger s \<and> signedInteger t \<or> unsignedInteger s \<and> unsignedInteger t"

section \<open>Compatibility (typing/compatibility.k)\<close>

fun areTagsCompat :: "ctag \<Rightarrow> ctag \<Rightarrow> bool" where
  "areTagsCompat (NamedTag a) (NamedTag b) = (a = b)"
| "areTagsCompat (UnnamedTag i a) (UnnamedTag j b) = True"
| "areTagsCompat _ _ = False"

definition compatBasic :: "ityp \<Rightarrow> ityp \<Rightarrow> bool" where
  "compatBasic s t \<longleftrightarrow>
     s = t \<or> s = SignedInt \<and> t = PlainInt \<or> s = PlainInt \<and> t = SignedInt"

fun areCompat :: "itype \<Rightarrow> itype \<Rightarrow> bool" where
  "areCompat (Basic s) (Basic t) = compatBasic s t"
| "areCompat (Enum tag a) (Basic t) = (t = a)"
| "areCompat (Basic t) (Enum tag a) = (t = a)"
| "areCompat (Enum tag a) (Enum tag' a') = areTagsCompat tag tag'"
| "areCompat (Bitfield s n) (Bitfield t m) = (n = m \<and> compatBasic s t)"
| "areCompat _ _ = False"

section \<open>Modifiers (typing/misc.k)\<close>

definition stripConstants :: "'s utype \<Rightarrow> 's utype" where
  "stripConstants T = Ut (mods T - {IntegerConstant}) (st T)"

definition fromConstantExpr :: "'s utype \<Rightarrow> bool" where
  "fromConstantExpr T \<longleftrightarrow> IntegerConstant \<in> mods T"

definition castTypes :: "iutype \<Rightarrow> iutype \<Rightarrow> iutype" where
  "castTypes T' T = Ut (mods T) (st T')"

fun flipSignedness :: "ityp \<Rightarrow> ityp" where
  "flipSignedness UnsignedChar = SignedChar"
| "flipSignedness UnsignedShortInt = ShortInt"
| "flipSignedness UnsignedInt = PlainInt"
| "flipSignedness UnsignedLongInt = LongInt"
| "flipSignedness UnsignedLongLongInt = LongLongInt"
| "flipSignedness UnsignedOversizedInt = OversizedInt"
| "flipSignedness SignedChar = UnsignedChar"
| "flipSignedness CharType = UnsignedChar"
| "flipSignedness ShortInt = UnsignedShortInt"
| "flipSignedness PlainInt = UnsignedInt"
| "flipSignedness SignedInt = UnsignedInt"
| "flipSignedness LongInt = UnsignedLongInt"
| "flipSignedness LongLongInt = UnsignedLongLongInt"
| "flipSignedness OversizedInt = UnsignedOversizedInt"
| "flipSignedness BoolType = BoolType"

fun correspondingUnsigned :: "itype \<Rightarrow> itype" where
  "correspondingUnsigned (Basic t) = Basic (if is_signed t then flipSignedness t else t)"
| "correspondingUnsigned (Bitfield t n) = Bitfield (if is_signed t then flipSignedness t else t) n"
| "correspondingUnsigned (Enum tag t) = Basic (if is_signed t then flipSignedness t else t)"

definition correspondingUnsignedType :: "iutype \<Rightarrow> iutype" where
  "correspondingUnsignedType T = Ut (mods T) (correspondingUnsigned (st T))"

section \<open>The alias of an enumeration (translation/decl/tagged.k)\<close>

fun firstSuitableType :: "int \<Rightarrow> int \<Rightarrow> ityp list \<Rightarrow> ityp" where
  "firstSuitableType lo hi [] = (if lo \<ge> 0 then UnsignedLongInt else LongInt)"
| "firstSuitableType lo hi (t # ts) =
     (if lo \<ge> imin t \<and> hi \<le> imax t then t else firstSuitableType lo hi ts)"

definition enumAliases :: "ityp list" where
  "enumAliases = [UnsignedInt, PlainInt, UnsignedLongInt, LongInt]"

definition packedEnumAliases :: "ityp list" where
  "packedEnumAliases = [UnsignedChar, SignedChar, UnsignedShortInt, ShortInt,
     UnsignedInt, PlainInt, UnsignedLongInt, LongInt]"

section \<open>Facts on ranges\<close>

named_theorems range_simps \<open>evaluation of the ranges of types\<close>

lemmas [range_simps] = imin_def imax_def numBits_def bitsPerByte_def intInRange_def

lemma imin_le_imax: "imin t \<le> 0 \<and> 0 < imax t"
  by (cases t) (simp_all add: range_simps)

lemma imax_unsigned: "\<not> is_signed t \<Longrightarrow> imin t = 0 \<and> imax t + 1 = 2 ^ numBits t"
  by (simp add: imin_def imax_def)

lemma intInRange_0 [simp]: "intInRange 0 (Basic t)"
  using imin_le_imax [of t] by (simp add: intInRange_def)

lemma signed_or_unsigned:
  "signedInteger t \<Longrightarrow> \<not> unsignedInteger t"
  by (cases t) simp_all

lemma areTagsCompat_refl [simp]: "areTagsCompat t t"
  by (cases t) simp_all

lemma areTagsCompat_sym: "areTagsCompat s t = areTagsCompat t s"
  by (cases s; cases t) auto

lemma areCompat_refl [simp]: "areCompat t t"
  by (cases t) (simp_all add: compatBasic_def)

lemma areCompat_sym: "areCompat s t = areCompat t s"
  by (cases s; cases t) (auto simp: areTagsCompat_sym compatBasic_def)

lemma compatBasic_range: "compatBasic s t \<Longrightarrow> imin s = imin t \<and> imax s = imax t"
  by (auto simp: range_simps compatBasic_def)

text \<open>
  The alias of an enumeration represents all its constants: a constant is an \<open>int\<close>, so
  an alias exists.
\<close>

lemma firstSuitableType_fits:
  assumes "imin PlainInt \<le> lo" and "lo \<le> hi" and "hi \<le> imax PlainInt"
    and "PlainInt \<in> set ts"
  shows "imin (firstSuitableType lo hi ts) \<le> lo \<and> hi \<le> imax (firstSuitableType lo hi ts)"
  using assms by (induction ts) auto

end
