(* ===== verification/LibcMisc.thy ===== *)
theory LibcMisc
  imports LibcString KTypes
begin

text \<open>
  The integer part of the rest of the bundled C library: the byte swaps of
  src/profiles/x86-gcc-limited-libc/src/builtins.c, \<open>atoi\<close> of src/stdlib.c and
  \<open>abs\<close> of src/math.c, and the macros of the headers limits.h, stdint.h and float.h
  beside the configuration constants (src/profiles/x86-gcc-limited-libc/semantics/c-settings.k)
  that the semantics computes the ranges of the types from.
\<close>

section \<open>Byte swaps (builtins.c)\<close>

text \<open>
  The operands are converted to \<open>unsigned long\<close> by the suffixes of the masks, and the
  result is converted back on return.
\<close>

definition kcc_bswap16 :: "u16 \<Rightarrow> u16" where
  "kcc_bswap16 y = (let x = ucast y :: u64 in ucast
     (push_bit 8 (x AND 0xff) OR drop_bit 8 (x AND 0xff00)))"

definition kcc_bswap32 :: "u32 \<Rightarrow> u32" where
  "kcc_bswap32 y = (let x = ucast y :: u64 in ucast
     (push_bit 24 (x AND 0xff) OR push_bit 8 (x AND 0xff00)
      OR drop_bit 8 (x AND 0xff0000) OR drop_bit 24 (x AND 0xff000000)))"

definition kcc_bswap64 :: "u64 \<Rightarrow> u64" where
  "kcc_bswap64 x =
     (push_bit 56 (x AND 0xff) OR push_bit 40 (x AND 0xff00)
      OR push_bit 24 (x AND 0xff0000) OR push_bit 8 (x AND 0xff000000)
      OR drop_bit 8 (x AND 0xff00000000) OR drop_bit 24 (x AND 0xff0000000000)
      OR drop_bit 40 (x AND 0xff000000000000) OR drop_bit 56 (x AND 0xff00000000000000))"

section \<open>Signed arithmetic (stdlib.c, math.c)\<close>

text \<open>A result of type \<open>int\<close> outside the range of the type is undefined behaviour.\<close>

definition int_check :: "int \<Rightarrow> int ubres" where
  "int_check v = (if - (2 ^ 31) \<le> v \<and> v \<le> 2 ^ 31 - 1 then Inr v else Inl SignedOverflow)"

definition c_abs :: "int \<Rightarrow> int ubres" where
  "c_abs num = (if num \<ge> 0 then Inr num else int_check (- num))"

definition char_digit :: "u8 \<Rightarrow> bool" where
  "char_digit b \<longleftrightarrow> sint b \<ge> 48 \<and> sint b \<le> 57"

function atoi_loop :: "mem \<Rightarrow> ptr \<Rightarrow> int \<Rightarrow> int ubres" where
  "atoi_loop m c res = bindr (load m c) (\<lambda>b.
     if char_digit b then
       bindr (int_check (res * 10)) (\<lambda>r10.
       bindr (ptr_add m c 1) (\<lambda>c'.
       bindr (int_check (r10 + sint b)) (\<lambda>s.
       bindr (int_check (s - 48)) (\<lambda>res'. atoi_loop m c' res'))))
     else Inr res)"
  by pat_completeness auto
termination
  by (relation "measure (\<lambda>(m, c, res). room m c)") (auto dest: room_step)

definition atoi :: "mem \<Rightarrow> ptr \<Rightarrow> int ubres" where
  "atoi m c = atoi_loop m c 0"

declare atoi_loop.simps [simp del]

section \<open>The value of a numeral\<close>

fun digits_value :: "int \<Rightarrow> u8 list \<Rightarrow> int" where
  "digits_value v [] = v"
| "digits_value v (b # bs) = digits_value (v * 10 + (uint b - 48)) bs"

lemma char_digit_uint: "char_digit b \<Longrightarrow> sint b = uint b \<and> 48 \<le> uint b \<and> uint b \<le> 57"
proof -
  assume d: "char_digit b"
  have "uint b = sint b mod 256" by (simp add: uint_sint take_bit_eq_mod)
  with d show ?thesis by (simp add: char_digit_def)
qed

lemma digits_value_mono:
  "0 \<le> v \<Longrightarrow> \<forall>b\<in>set bs. char_digit b \<Longrightarrow> v \<le> digits_value v bs"
proof (induction bs arbitrary: v)
  case Nil
  then show ?case by simp
next
  case (Cons b bs)
  have "48 \<le> uint b" using Cons.prems(2) char_digit_uint [of b] by simp
  with Cons.prems have "0 \<le> v * 10 + (uint b - 48)" and "v \<le> v * 10 + (uint b - 48)"
    by simp_all
  with Cons.IH [of "v * 10 + (uint b - 48)"] Cons.prems(2) show ?case by simp
qed

lemma not_char_digit_0 [simp]: "\<not> char_digit 0"
  by (simp add: char_digit_def)

text \<open>
  The sum \<open>res * 10 + *c\<close> is formed before \<open>'0'\<close> is subtracted, so the loop stays
  defined as long as the value stays 48 below the largest \<open>int\<close>.
\<close>

lemma atoi_step:
  assumes "cstr m p (b # xs)" and "char_digit b" and "0 \<le> v"
  shows "atoi_loop m p v =
    (if v * 10 + (uint b - 48) \<le> 2147483599 then atoi_loop m (padd p 1) (v * 10 + (uint b - 48))
     else Inl SignedOverflow)"
proof -
  note b = char_digit_uint [OF assms(2)]
  have "load m p = Inr b" and "ptr_add m p 1 = Inr (padd p 1)"
    using cstr_Cons [OF assms(1)] by simp_all
  with assms(2,3) b show ?thesis
    by (subst atoi_loop.simps) (auto simp: int_check_def algebra_simps)
qed

lemma atoi_loop_cstr:
  assumes "cstr m p xs" and "0 \<le> v" and "v \<le> 2147483599"
  shows "atoi_loop m p v = (let w = digits_value v (takeWhile char_digit xs) in
    if w \<le> 2147483599 then Inr w else Inl SignedOverflow)"
  using assms
proof (induction xs arbitrary: p v)
  case Nil
  then show ?case by (subst atoi_loop.simps) (simp add: cstr_Nil)
next
  case (Cons b xs)
  note st = cstr_Cons [OF Cons.prems(1)]
  show ?case
  proof (cases "char_digit b")
    case False
    with st Cons.prems(3) show ?thesis by (subst atoi_loop.simps) simp
  next
    case True
    let ?w = "v * 10 + (uint b - 48)"
    have w: "0 \<le> ?w" using char_digit_uint [OF True] Cons.prems(2) by simp
    have "?w \<le> digits_value ?w (takeWhile char_digit xs)"
      using w by (rule digits_value_mono) (auto dest: set_takeWhileD)
    with atoi_step [OF Cons.prems(1) True Cons.prems(2)] True Cons.IH [of "padd p 1" ?w] st w
    show ?thesis by (simp add: Let_def)
  qed
qed

lemma atoi_cstr:
  "cstr m p xs \<Longrightarrow> atoi m p = (let w = digits_value 0 (takeWhile char_digit xs) in
    if w \<le> 2147483599 then Inr w else Inl SignedOverflow)"
  using atoi_loop_cstr [of m p xs 0] by (simp add: atoi_def)

section \<open>Byte order\<close>

lemma le_bytes_word:
  "le_bytes k (unat (x :: 'a::len word)) = map (\<lambda>i. ucast (drop_bit (8 * i) x)) [0..<k]"
proof -
  have *: "le_bytes k v = map (\<lambda>i. of_nat (v div 256 ^ i)) [0..<k]" for v
  proof (induction k arbitrary: v)
    case 0
    then show ?case by simp
  next
    case (Suc k)
    have "of_nat (v mod 256) = (of_nat v :: u8)"
      by (simp add: word_of_nat_eq_iff take_bit_eq_mod)
    with Suc.IH [of "v div 256"] show ?case
      by (simp add: upt_conv_Cons map_Suc_upt [symmetric] div_mult2_eq o_def del: upt_Suc map_Suc_upt)
  qed
  have "of_nat (unat x div 256 ^ i) = (ucast (drop_bit (8 * i) x) :: u8)" for i
  proof -
    have "unat (drop_bit (8 * i) x) = unat x div 256 ^ i"
      unfolding unat_drop_bit_eq by (simp add: drop_bit_eq_div power_mult)
    then show ?thesis by (metis of_nat_unat)
  qed
  with * show ?thesis by simp
qed


lemma hex_masks:
  "(0xff :: u64) = push_bit 0 (mask 8)" "(0xff00 :: u64) = push_bit 8 (mask 8)"
  "(0xff0000 :: u64) = push_bit 16 (mask 8)" "(0xff000000 :: u64) = push_bit 24 (mask 8)"
  "(0xff00000000 :: u64) = push_bit 32 (mask 8)" "(0xff0000000000 :: u64) = push_bit 40 (mask 8)"
  "(0xff000000000000 :: u64) = push_bit 48 (mask 8)"
  "(0xff00000000000000 :: u64) = push_bit 56 (mask 8)"
  by (simp_all add: mask_eq_exp_minus_1 push_bit_eq_mult)

lemma bswap_byte:
  "j < 8 \<Longrightarrow> i < 8 \<Longrightarrow> bit (kcc_bswap64 x) (8 * i + j) = bit x (8 * (7 - i) + j)"
proof -
  assume "j < 8" and i: "i < 8"
  have "i = 0 \<or> i = 1 \<or> i = 2 \<or> i = 3 \<or> i = 4 \<or> i = 5 \<or> i = 6 \<or> i = 7" using i by arith
  with \<open>j < 8\<close> show ?thesis
    by (elim disjE) (simp_all add: kcc_bswap64_def hex_masks bit_simps)
qed


lemma bswap32_byte:
  "j < 8 \<Longrightarrow> i < 4 \<Longrightarrow> bit (kcc_bswap32 x) (8 * i + j) = bit x (8 * (3 - i) + j)"
proof -
  assume "j < 8" and i: "i < 4"
  have "i = 0 \<or> i = 1 \<or> i = 2 \<or> i = 3" using i by arith
  with \<open>j < 8\<close> show ?thesis
    by (elim disjE) (simp_all add: kcc_bswap32_def Let_def hex_masks bit_simps)
qed

lemma bswap16_byte:
  "j < 8 \<Longrightarrow> i < 2 \<Longrightarrow> bit (kcc_bswap16 x) (8 * i + j) = bit x (8 * (1 - i) + j)"
proof -
  assume "j < 8" and i: "i < 2"
  have "i = 0 \<or> i = 1" using i by arith
  with \<open>j < 8\<close> show ?thesis
    by (elim disjE) (simp_all add: kcc_bswap16_def Let_def hex_masks bit_simps)
qed

text \<open>Reversing the byte image is reversing the bytes inside the word.\<close>

lemma rev_bytesI:
  fixes x y :: "'a::len word"
  assumes "LENGTH('a) = 8 * k"
    and "\<And>i j. i < k \<Longrightarrow> j < 8 \<Longrightarrow> bit y (8 * i + j) = bit x (8 * (k - 1 - i) + j)"
  shows "le_bytes k (unat y) = rev (le_bytes k (unat x))"
proof -
  have "(ucast (drop_bit (8 * i) y) :: u8) = ucast (drop_bit (8 * (k - Suc i)) x)" if "i < k" for i
    by (rule bit_word_eqI) (use that assms(2) [of i] in \<open>simp add: bit_simps\<close>)
  then show ?thesis
    by (simp add: le_bytes_word rev_map rev_nth list_eq_iff_nth_eq)
qed

lemma bswap64_bytes: "le_bytes 8 (unat (kcc_bswap64 x)) = rev (le_bytes 8 (unat x))"
  by (rule rev_bytesI) (simp_all add: bswap_byte)

lemma bswap32_bytes: "le_bytes 4 (unat (kcc_bswap32 x)) = rev (le_bytes 4 (unat x))"
  by (rule rev_bytesI) (simp_all add: bswap32_byte)

lemma bswap16_bytes: "le_bytes 2 (unat (kcc_bswap16 x)) = rev (le_bytes 2 (unat x))"
  by (rule rev_bytesI) (simp_all add: bswap16_byte)

lemma le_bytes_inject:
  fixes x y :: "'a::len word"
  assumes "LENGTH('a) = 8 * k" and "le_bytes k (unat x) = le_bytes k (unat y)"
  shows "x = y"
proof -
  have "unat w < 256 ^ k" for w :: "'a word"
  proof -
    have "unat w < 2 ^ LENGTH('a)" by (rule unsigned_less)
    then show ?thesis using assms(1) by (simp add: power_mult)
  qed
  then have "of_le_bytes (le_bytes k (unat w)) = unat w" for w :: "'a word"
    by (simp add: of_le_bytes_le_bytes)
  with assms(2) show ?thesis by (metis word_unat_eq_iff)
qed

section \<open>Header constants\<close>

text \<open>
  limits.h: the number of bits of a byte, the longest multibyte character, and the pairs of
  macros that state the ranges of the types, in the order of the file.
\<close>

record limit_macros =
  CHAR_BIT :: int
  MB_LEN_MAX :: int
  ranges :: "(ityp \<times> int \<times> int) list"

definition limits_h :: limit_macros where
  "limits_h = \<lparr>CHAR_BIT = 8, MB_LEN_MAX = 6, ranges =
    [(SignedChar, -128, 127), (UnsignedChar, 0, 255), (CharType, -128, 127),
     (ShortInt, -32768, 32767), (UnsignedShortInt, 0, 65535),
     (PlainInt, -2147483647 - 1, 2147483647), (UnsignedInt, 0, 4294967295),
     (LongInt, -2147483647 - 1, 2147483647), (UnsignedLongInt, 0, 4294967295),
     (LongLongInt, -9223372036854775807 - 1, 9223372036854775807),
     (UnsignedLongLongInt, 0, 18446744073709551615)]\<rparr>"

text \<open>
  stdint.h: the exact-width, least-width and fast types with the type each is defined as and its
  limit macros, in the order of the file; then the greatest-width types and the limits of
  \<open>ptrdiff_t\<close>, \<open>size_t\<close> and \<open>wchar_t\<close>. The types for pointers, which have no limits
  there, and the macros for constants are left out.
\<close>

definition stdint_h :: "(string \<times> ityp \<times> int \<times> int) list" where
  "stdint_h =
    [(''int8_t'', SignedChar, -128, 127), (''uint8_t'', UnsignedChar, 0, 255),
     (''int16_t'', ShortInt, -32767 - 1, 32767), (''uint16_t'', UnsignedShortInt, 0, 65535),
     (''int32_t'', PlainInt, -2147483647 - 1, 2147483647), (''uint32_t'', UnsignedInt, 0, 4294967295),
     (''int64_t'', LongLongInt, -9223372036854775807 - 1, 9223372036854775807),
     (''uint64_t'', UnsignedLongLongInt, 0, 18446744073709551615),
     (''int_least8_t'', SignedChar, -128, 127), (''uint_least8_t'', UnsignedChar, 0, 255),
     (''int_least16_t'', ShortInt, -32767 - 1, 32767), (''uint_least16_t'', UnsignedShortInt, 0, 65535),
     (''int_least32_t'', PlainInt, -2147483647 - 1, 2147483647),
     (''uint_least32_t'', UnsignedInt, 0, 4294967295),
     (''int_least64_t'', LongLongInt, -9223372036854775807 - 1, 9223372036854775807),
     (''uint_least64_t'', UnsignedLongLongInt, 0, 18446744073709551615),
     (''int_fast8_t'', SignedChar, -128, 127), (''uint_fast8_t'', UnsignedChar, 0, 255),
     (''int_fast16_t'', ShortInt, -32767 - 1, 32767), (''uint_fast16_t'', UnsignedShortInt, 0, 65535),
     (''int_fast32_t'', PlainInt, -2147483647 - 1, 2147483647),
     (''uint_fast32_t'', UnsignedInt, 0, 4294967295),
     (''int_fast64_t'', LongLongInt, -9223372036854775807 - 1, 9223372036854775807),
     (''uint_fast64_t'', UnsignedLongLongInt, 0, 18446744073709551615)]"

definition stdint_greatest :: "(string \<times> ityp \<times> int \<times> int) list" where
  "stdint_greatest =
    [(''intmax_t'', LongLongInt, -9223372036854775807 - 1, 9223372036854775807),
     (''uintmax_t'', UnsignedLongLongInt, 0, 18446744073709551615),
     (''ptrdiff_t'', LongInt, -9223372036854775807 - 1, 9223372036854775807),
     (''size_t'', UnsignedLongInt, 0, 18446744073709551615),
     (''wchar_t'', PlainInt, -2147483647 - 1, 2147483647)]"

text \<open>
  float.h: the macros of the floating types, beside the precision and the exponent width the
  semantics rounds with (c-settings.k). A literal is the integer of its digits and the power of
  ten that it is multiplied with.
\<close>

record float_macros =
  MANT_DIG :: nat
  DECIMAL_DIG :: nat
  DIG :: nat
  MIN_EXP :: int
  MIN_10_EXP :: int
  MAX_EXP :: int
  MAX_10_EXP :: int
  MAX_VALUE :: "int \<times> int"
  EPSILON :: "int \<times> int"
  MIN_VALUE :: "int \<times> int"
  TRUE_MIN :: "int \<times> int"

definition float_h :: "(ftyp \<times> float_macros) list" where
  "float_h =
    [(Float, \<lparr>MANT_DIG = 53, DECIMAL_DIG = 15, DIG = 15, MIN_EXP = -1021, MIN_10_EXP = -307,
       MAX_EXP = 1024, MAX_10_EXP = 308, MAX_VALUE = (17976931348623157, 292), EPSILON = (22204460492503131, -32),
       MIN_VALUE = (22250738585072014, -324), TRUE_MIN = (22250738585072014, -324)\<rparr>),
     (Double, \<lparr>MANT_DIG = 53, DECIMAL_DIG = 15, DIG = 15, MIN_EXP = -1021, MIN_10_EXP = -307,
       MAX_EXP = 1024, MAX_10_EXP = 308, MAX_VALUE = (17976931348623157, 292), EPSILON = (22204460492503131, -32),
       MIN_VALUE = (22250738585072014, -324), TRUE_MIN = (22250738585072014, -324)\<rparr>),
     (LongDouble, \<lparr>MANT_DIG = 53, DECIMAL_DIG = 15, DIG = 15, MIN_EXP = -1021, MIN_10_EXP = -307,
       MAX_EXP = 1024, MAX_10_EXP = 308, MAX_VALUE = (17976931348623157, 292), EPSILON = (22204460492503131, -32),
       MIN_VALUE = (22250738585072014, -324), TRUE_MIN = (22250738585072014, -324)\<rparr>)]"

fun cfg_precision :: "ftyp \<Rightarrow> nat" where
  "cfg_precision Float = 24" | "cfg_precision Double = 53" | "cfg_precision LongDouble = 65"
| "cfg_precision OversizedFloat = 113"

fun cfg_exponent :: "ftyp \<Rightarrow> nat" where
  "cfg_exponent Float = 8" | "cfg_exponent Double = 11" | "cfg_exponent LongDouble = 15"
| "cfg_exponent OversizedFloat = 15"

text \<open>
  The significand and exponent macros of a binary format with precision \<open>p\<close> and \<open>e\<close>
  exponent bits.
\<close>

definition has_format :: "nat \<Rightarrow> nat \<Rightarrow> float_macros \<Rightarrow> bool" where
  "has_format p e ms \<longleftrightarrow> MANT_DIG ms = p \<and> MIN_EXP ms = 3 - 2 ^ (e - 1) \<and> MAX_EXP ms = 2 ^ (e - 1)"

text \<open>
  The entries that state something else than the configuration does: in limits.h those of
  \<open>long\<close> and \<open>unsigned long\<close>, which state a 32-bit range for types of 64 bits; in
  stdint.h none; in float.h those of \<open>float\<close> and \<open>long double\<close>, which describe
  \<open>double\<close>.
\<close>

lemma limits_h_cfg:
  "CHAR_BIT limits_h = int bitsPerByte \<and>
   [t. (t, lo, hi) \<leftarrow> ranges limits_h, (lo, hi) \<noteq> (imin t, imax t)] = [LongInt, UnsignedLongInt]"
  by (simp add: limits_h_def range_simps)

lemma stdint_h_cfg: "[n. (n, t, lo, hi) \<leftarrow> stdint_h @ stdint_greatest, (lo, hi) \<noteq> (imin t, imax t)] = []"
  by (simp add: stdint_h_def stdint_greatest_def range_simps)

lemma float_h_cfg:
  "[t. (t, ms) \<leftarrow> float_h, \<not> has_format (cfg_precision t) (cfg_exponent t) ms] = [Float, LongDouble]"
  by (simp add: float_h_def has_format_def)

section \<open>The contract of a byte swap\<close>

text \<open>What the three swaps share: the byte image of the result is the reversed byte image.\<close>

locale byte_swap =
  fixes swap :: "'a::len word \<Rightarrow> 'a word" and k :: nat
  assumes width: "LENGTH('a) = 8 * k"
    and reverses: "le_bytes k (unat (swap x)) = rev (le_bytes k (unat x))"
begin

lemma involutive: "swap (swap x) = x"
  by (rule le_bytes_inject [OF width]) (simp add: reverses)

lemma injective: "swap x = swap y \<longleftrightarrow> x = y"
  using involutive by metis

text \<open>Read with the other byte order, the image of the result is the argument.\<close>

lemma big_endian: "of_le_bytes (rev (le_bytes k (unat (swap x)))) = unat x"
proof -
  have "unat x < 2 ^ LENGTH('a)" by (rule unsigned_less)
  then have "unat x < 256 ^ k" by (simp add: width power_mult)
  then show ?thesis by (simp add: reverses of_le_bytes_le_bytes)
qed

end

interpretation bswap64: byte_swap kcc_bswap64 8
  by unfold_locales (simp_all add: bswap64_bytes)

interpretation bswap32: byte_swap kcc_bswap32 4
  by unfold_locales (simp_all add: bswap32_bytes)

interpretation bswap16: byte_swap kcc_bswap16 2
  by unfold_locales (simp_all add: bswap16_bytes)

section \<open>Properties\<close>

text \<open>
  C36: \<open>atoi\<close> (stdlib.c) returns the value of the leading decimal digits as long as that
  value is at most \<open>INT_MAX - 48\<close>; above, the sum with the character code overflows before
  the code of the digit zero is subtracted, also for values that an \<open>int\<close> can hold.
\<close>

theorem atoi_value:
  assumes "cstr m p xs"
  shows "atoi m p =
    (if digits_value 0 (takeWhile char_digit xs) \<le> 2 ^ 31 - 1 - 48
     then Inr (digits_value 0 (takeWhile char_digit xs)) else Inl SignedOverflow)"
  using atoi_cstr [OF assms] by (simp add: Let_def)

theorem atoi_value_witness:
  "atoi (two_objects [52, 50, 120, 0] []) (Ptr 0 0) = Inr 42 \<and>
   atoi (two_objects [50, 49, 52, 55, 52, 56, 51, 54, 52, 55, 0] []) (Ptr 0 0) = Inl SignedOverflow"
proof -
  have "cstr (two_objects ([52, 50, 120] @ 0 # []) []) (Ptr 0 0) [52, 50, 120]"
    by (rule two_objects_cstr) simp
  note a = atoi_value [OF this]
  have "cstr (two_objects ([50, 49, 52, 55, 52, 56, 51, 54, 52, 55] @ 0 # []) []) (Ptr 0 0)
      [50, 49, 52, 55, 52, 56, 51, 54, 52, 55]" by (rule two_objects_cstr) simp
  note b = atoi_value [OF this]
  from a b show ?thesis by (simp add: char_digit_def)
qed

text \<open>
  The byte swaps of builtins.c (\<open>__kcc_bswap64\<close>, \<open>__kcc_bswap32\<close>, computed in
  \<open>unsigned long\<close> and truncated, and \<open>__kcc_bswap16\<close>) reverse the bytes of their arguments, and
  each applied twice is the identity.
\<close>

lemma bswaps_reverse:
  "le_bytes 8 (unat (kcc_bswap64 x)) = rev (le_bytes 8 (unat x)) \<and> kcc_bswap64 (kcc_bswap64 x) = x \<and>
   le_bytes 4 (unat (kcc_bswap32 y)) = rev (le_bytes 4 (unat y)) \<and> kcc_bswap32 (kcc_bswap32 y) = y \<and>
   le_bytes 2 (unat (kcc_bswap16 z)) = rev (le_bytes 2 (unat z)) \<and> kcc_bswap16 (kcc_bswap16 z) = z"
  using bswap64.reverses bswap64.involutive bswap32.reverses bswap32.involutive
    bswap16.reverses bswap16.involutive by simp

end
