(* ===== verification/LibcMath.thy ===== *)
theory LibcMath
  imports Prelude
begin

text \<open>
  The floating point functions of the C library's
  src/profiles/x86-gcc-limited-libc/src/math.c, fabs and pow, on doubles as they are stored:
  the 64 bits of the IEEE format, 1 for the sign, 11 for the exponent, 52 for the fraction.
  exp and log, which the library takes from elsewhere, and the product of two doubles are
  arguments: pow only chooses what to give them.
\<close>

section \<open>Doubles\<close>

type_synonym double = "64 word"

definition pack :: "bool \<Rightarrow> nat \<Rightarrow> double" where
  "pack neg m = of_nat (m + (if neg then 2 ^ 63 else 0))"

definition d_neg :: "double \<Rightarrow> bool" where
  "d_neg x \<longleftrightarrow> 2 ^ 63 \<le> unat x"

definition d_mag :: "double \<Rightarrow> nat" where
  "d_mag x = unat x mod 2 ^ 63"

definition d_nan :: "double \<Rightarrow> bool" where
  "d_nan x \<longleftrightarrow> 2047 * 2 ^ 52 < d_mag x"

text \<open>
  Without NaN the doubles are ordered as their bits below the sign, with the sign: both zeros
  are equal. Every comparison with NaN is false, except that it is unequal.
\<close>

definition d_key :: "double \<Rightarrow> int" where
  "d_key x = (if d_neg x then - int (d_mag x) else int (d_mag x))"

definition d_eq :: "double \<Rightarrow> double \<Rightarrow> bool" where
  "d_eq x y \<longleftrightarrow> \<not> d_nan x \<and> \<not> d_nan y \<and> d_key x = d_key y"

definition d_less :: "double \<Rightarrow> double \<Rightarrow> bool" where
  "d_less x y \<longleftrightarrow> \<not> d_nan x \<and> \<not> d_nan y \<and> d_key x < d_key y"

definition d_ge :: "double \<Rightarrow> double \<Rightarrow> bool" where
  "d_ge x y \<longleftrightarrow> \<not> d_nan x \<and> \<not> d_nan y \<and> d_key y \<le> d_key x"

definition d_minus :: "double \<Rightarrow> double" where
  "d_minus x = pack (\<not> d_neg x) (d_mag x)"

text \<open>
  The conversions between double and int. To int: the fraction is dropped, and the conversion
  is undefined (\<open>None\<close>) for a value that int does not have. From int: exact, every int has
  fewer than 53 bits.
\<close>

definition d_trunc :: "double \<Rightarrow> int option" where
  "d_trunc x = (let e = d_mag x div 2 ^ 52; f = d_mag x mod 2 ^ 52; m = (if e = 0 then f else f + 2 ^ 52);
     q = max 1 e; t = (if 1075 \<le> q then m * 2 ^ (q - 1075) else m div 2 ^ (1075 - q)) in
   if e = 2047 then None else Some (if d_neg x then - int t else int t))"

definition double_to_int :: "double \<Rightarrow> int option" where
  "double_to_int x = (case d_trunc x of None \<Rightarrow> None
     | Some i \<Rightarrow> if - (2 ^ 31) \<le> i \<and> i < 2 ^ 31 then Some i else None)"

fun bits_of :: "nat \<Rightarrow> nat" where
  "bits_of n = (if n < 2 then 0 else Suc (bits_of (n div 2)))"

declare bits_of.simps [simp del]

definition int_to_double :: "int \<Rightarrow> double" where
  "int_to_double i = (if i = 0 then 0
     else let a = nat \<bar>i\<bar>; k = bits_of a in pack (i < 0) ((k + 1023) * 2 ^ 52 + (a * 2 ^ (52 - k) - 2 ^ 52)))"

section \<open>fabs and pow\<close>

definition fabs :: "double \<Rightarrow> double" where
  "fabs num = (if d_ge num (int_to_double 0) then num else d_minus num)"

text \<open>
  A division by 1.00 gives its operand. The remainder of an odd number by 2 is 1 or -1, so the
  condition \<open>(int)y % 2\<close> holds exactly for odd numbers.
\<close>

definition pow :: "(double \<Rightarrow> double) \<Rightarrow> (double \<Rightarrow> double) \<Rightarrow> (double \<Rightarrow> double \<Rightarrow> double) \<Rightarrow>
    double \<Rightarrow> double \<Rightarrow> double option" where
  "pow exp log mul x y = (let zero = int_to_double 0; one = int_to_double 1 in
     if d_eq x zero \<and> d_eq y zero then Some one
     else if d_eq x zero \<and> \<not> d_eq y zero then Some zero
     else if d_eq y zero \<and> \<not> d_eq x zero then Some one
     else if d_less x zero then
       (case double_to_int y of None \<Rightarrow> None
        | Some i \<Rightarrow>
            if d_eq y (int_to_double i) then
              if odd i then Some (d_minus (exp (mul y (log (d_minus x)))))
              else Some (exp (mul y (log (d_minus x))))
            else Some (exp (mul y (log x))))
     else Some (exp (mul y (log x))))"

section \<open>Packing\<close>

lemma d_mag_less: "d_mag x < 2 ^ 63"
  by (simp add: d_mag_def)

lemma unat_pack: "m < 2 ^ 63 \<Longrightarrow> unat (pack s m) = m + (if s then 2 ^ 63 else 0)"
proof -
  assume "m < 2 ^ 63"
  then have "m + (if s then 2 ^ 63 else 0) < 2 ^ 64" by simp
  then show ?thesis unfolding pack_def unat_of_nat by simp
qed

lemma d_neg_pack: "m < 2 ^ 63 \<Longrightarrow> d_neg (pack s m) = s"
  by (simp add: d_neg_def unat_pack)

lemma d_mag_pack: "m < 2 ^ 63 \<Longrightarrow> d_mag (pack s m) = m"
  by (simp add: d_mag_def unat_pack)

lemma pack_d: "pack (d_neg x) (d_mag x) = x"
proof -
  have "unat x < 2 ^ LENGTH(64)" by (rule unsigned_less)
  then have "unat x = d_mag x + (if d_neg x then 2 ^ 63 else 0)" by (auto simp: d_neg_def d_mag_def mod_if)
  then have "unat (pack (d_neg x) (d_mag x)) = unat x" by (simp add: unat_pack [OF d_mag_less])
  then show ?thesis by (rule unsigned_word_eqI)
qed

lemma d_minus_simps [simp]: "d_neg (d_minus x) = (\<not> d_neg x)" "d_mag (d_minus x) = d_mag x"
  by (simp_all add: d_minus_def d_neg_pack [OF d_mag_less] d_mag_pack [OF d_mag_less])

lemma d_minus_minus [simp]: "d_minus (d_minus x) = x"
  by (simp add: d_minus_def [of "d_minus x"] pack_d)

lemma d_key_minus [simp]: "d_key (d_minus x) = - d_key x" "d_nan (d_minus x) = d_nan x"
  by (simp_all add: d_key_def d_nan_def)

lemma d_zero [simp]: "int_to_double 0 = 0" "d_nan 0 \<longleftrightarrow> False" "d_key 0 = 0" "d_neg 0 \<longleftrightarrow> False" "d_mag 0 = 0"
  by (simp_all add: int_to_double_def d_nan_def d_key_def d_neg_def d_mag_def)

section \<open>Integers as doubles\<close>

lemma bits_of_bounds: "0 < n \<Longrightarrow> 2 ^ bits_of n \<le> n \<and> n < 2 ^ Suc (bits_of n)"
proof (induction n rule: bits_of.induct)
  case (1 n)
  show ?case
  proof (cases "n < 2")
    case True
    with "1.prems" show ?thesis by (simp add: bits_of.simps)
  next
    case False
    with "1.IH" have "2 ^ bits_of (n div 2) \<le> n div 2 \<and> n div 2 < 2 ^ Suc (bits_of (n div 2))" by simp
    with False show ?thesis by (auto simp: bits_of.simps [of n])
  qed
qed

lemma bits_of_int: "0 < n \<Longrightarrow> n \<le> 2 ^ 31 \<Longrightarrow> bits_of n \<le> 31"
proof -
  assume "0 < n" "n \<le> 2 ^ 31"
  then have "(2::nat) ^ bits_of n < 2 ^ 32" using bits_of_bounds [of n] by simp
  then have "bits_of n < 32" by (rule power_less_imp_less_exp [rotated]) simp
  then show ?thesis by simp
qed

text \<open>The exponent and fraction of a number of at most 32 bits, and that reading them gives it back.\<close>

lemma packed_int:
  fixes n k :: nat
  assumes k: "2 ^ k \<le> n" "n < 2 ^ Suc k" "k \<le> 31"
  defines "m \<equiv> (k + 1023) * 2 ^ 52 + (n * 2 ^ (52 - k) - 2 ^ 52)"
  shows "m div 2 ^ 52 = k + 1023" "m mod 2 ^ 52 = n * 2 ^ (52 - k) - 2 ^ 52"
    "2 ^ 52 \<le> n * 2 ^ (52 - k)" "m < 2 ^ 63" "m < 2047 * 2 ^ 52"
proof -
  have p: "(2::nat) ^ 52 = 2 ^ k * 2 ^ (52 - k)" using k(3) by (simp flip: power_add)
  show ge: "2 ^ 52 \<le> n * 2 ^ (52 - k)" unfolding p using k(1) by simp
  have "n * 2 ^ (52 - k) < 2 ^ Suc k * 2 ^ (52 - k)" using k(2) by simp
  also have "\<dots> = 2 * 2 ^ 52" unfolding p by simp
  finally have f: "n * 2 ^ (52 - k) - 2 ^ 52 < 2 ^ 52" using ge by linarith
  show "m div 2 ^ 52 = k + 1023" unfolding m_def using f by (subst div_mult_self3) simp_all
  show "m mod 2 ^ 52 = n * 2 ^ (52 - k) - 2 ^ 52" unfolding m_def using f by (subst mod_mult_self3) simp_all
  have "m < (k + 1024) * 2 ^ 52" unfolding m_def using f by simp
  also have "\<dots> \<le> 1055 * 2 ^ 52" using k(3) by simp
  finally show "m < 2 ^ 63" "m < 2047 * 2 ^ 52" by simp_all
qed

lemma int_to_int:
  assumes "- (2 ^ 31) \<le> i" "i < 2 ^ 31"
  shows "double_to_int (int_to_double i) = Some i" "\<not> d_nan (int_to_double i)" "i \<noteq> 0 \<Longrightarrow> d_key (int_to_double i) \<noteq> 0"
    "d_neg (int_to_double i) \<longleftrightarrow> i < 0"
proof -
  let ?n = "nat \<bar>i\<bar>" and ?d = "int_to_double i"
  have "double_to_int ?d = Some i \<and> \<not> d_nan ?d \<and> d_key ?d \<noteq> 0 \<and> (d_neg ?d \<longleftrightarrow> i < 0)" if "i \<noteq> 0"
  proof -
    define k where "k = bits_of ?n"
    have n: "0 < ?n" "?n \<le> 2 ^ 31" using that assms by auto
    then have k: "2 ^ k \<le> ?n" "?n < 2 ^ Suc k" "k \<le> 31"
      using bits_of_bounds [of ?n] bits_of_int [of ?n] by (auto simp: k_def)
    note m = packed_int [OF k]
    let ?m = "(k + 1023) * 2 ^ 52 + (?n * 2 ^ (52 - k) - 2 ^ 52)"
    have d: "int_to_double i = pack (i < 0) ?m" using that by (simp add: int_to_double_def k_def Let_def)
    have neg: "d_neg ?d \<longleftrightarrow> i < 0" and mag: "d_mag ?d = ?m" unfolding d using m(4) by (simp_all only: d_neg_pack d_mag_pack)
    have t: "d_trunc ?d = Some i"
      unfolding d_trunc_def mag neg m(1,2) Let_def using k(3) m(3) by auto
    moreover have "d_key ?d \<noteq> 0" unfolding d_key_def mag neg by simp
    moreover have "\<not> d_nan ?d" unfolding d_nan_def mag using m(5) by linarith
    ultimately show ?thesis using assms neg by (simp add: double_to_int_def)
  qed
  moreover have "double_to_int 0 = Some 0" by (simp add: double_to_int_def d_trunc_def)
  ultimately show "double_to_int ?d = Some i" "\<not> d_nan ?d" "i \<noteq> 0 \<Longrightarrow> d_key ?d \<noteq> 0"
    "d_neg ?d \<longleftrightarrow> i < 0"
    by (cases "i = 0"; simp)+
qed

section \<open>Properties of fabs and pow\<close>

lemma fabs_sign:
  "fabs x = (if d_nan x then d_minus x else if d_key x = 0 then x else pack False (d_mag x))"
proof (cases "d_neg x")
  case True
  then have "d_key x = 0 \<longleftrightarrow> d_mag x = 0" "0 \<le> d_key x \<longleftrightarrow> d_mag x = 0" by (simp_all add: d_key_def)
  with True show ?thesis by (simp add: fabs_def d_ge_def d_minus_def)
next
  case False
  then have "0 \<le> d_key x" by (simp add: d_key_def)
  with False pack_d [of x] show ?thesis by (simp add: fabs_def d_ge_def)
qed

lemma d_key_nan: "d_key x = 0 \<Longrightarrow> \<not> d_nan x"
  by (auto simp: d_key_def d_nan_def split: if_splits)

lemma d_eq_zero: "d_eq x 0 \<longleftrightarrow> d_key x = 0"
  using d_key_nan [of x] by (auto simp: d_eq_def)

lemma pow_integer:
  assumes "d_less x 0" and "i \<noteq> 0" and "- (2 ^ 31) \<le> i" and "i < 2 ^ 31"
  shows "pow exp log mul x (int_to_double i) =
    (let r = exp (mul (int_to_double i) (log (d_minus x))) in Some (if odd i then d_minus r else r))"
proof -
  note i = int_to_int [OF assms(3,4)]
  have "d_key x \<noteq> 0" using assms(1) by (simp add: d_less_def)
  with assms i show ?thesis by (simp add: pow_def Let_def d_eq_zero) (simp add: d_eq_def)
qed

text \<open>
  C37: fabs clears the sign of a double, except for NaN, whose sign it flips, and for negative
  zero, which it returns unchanged. pow with the exponent zero is one whatever the base, and
  with the base zero and another exponent it is zero. For a negative base and an integer
  exponent in the range of int, pow takes the logarithm of the opposite of the base and negates
  the result exactly when the exponent is odd; an exponent that int cannot hold has no result.
\<close>
theorem fabs_pow_cases:
  "fabs x = (if d_nan x then d_minus x else if d_key x = 0 then x else pack False (d_mag x)) \<and>
   (d_key y = 0 \<longrightarrow> pow exp log mul x y = Some (int_to_double 1)) \<and>
   (d_key x = 0 \<longrightarrow> d_key y \<noteq> 0 \<longrightarrow> pow exp log mul x y = Some (int_to_double 0)) \<and>
   (d_less x 0 \<longrightarrow> - (2 ^ 31) \<le> i \<longrightarrow> i < 2 ^ 31 \<longrightarrow> i \<noteq> 0 \<longrightarrow>
     pow exp log mul x (int_to_double i) =
       (let r = exp (mul (int_to_double i) (log (d_minus x))) in Some (if odd i then d_minus r else r))) \<and>
   (d_less x 0 \<longrightarrow> d_key y \<noteq> 0 \<longrightarrow> double_to_int y = None \<longrightarrow> pow exp log mul x y = None)"
  by (auto simp: fabs_sign pow_integer)
    (auto simp: pow_def Let_def d_eq_zero d_less_def)

theorem fabs_pow_cases_witness:
  "fabs (pack True 0) = pack True 0 \<and>
   pow (\<lambda>x. x) (\<lambda>x. x) (\<lambda>y z. z) (int_to_double (- 8)) (int_to_double 3) = Some (int_to_double (- 8)) \<and>
   pow (\<lambda>x. x) (\<lambda>x. x) (\<lambda>y z. z) (int_to_double (- 8)) (pack False (1055 * 2 ^ 52)) = None"
proof -
  let ?x = "int_to_double (- 8)" and ?y = "pack False (1055 * 2 ^ 52)"
  have z: "d_neg (pack True 0)" "d_mag (pack True 0) = 0" by (simp_all add: d_neg_pack d_mag_pack)
  have x: "d_less ?x 0" using int_to_int [of "- 8"] by (auto simp: d_less_def d_key_def)
  have "d_neg ?y = False" by (rule d_neg_pack) simp
  moreover have "d_mag ?y = 1055 * 2 ^ 52" by (rule d_mag_pack) simp
  ultimately have y: "d_key ?y \<noteq> 0" "double_to_int ?y = None" by (simp_all add: d_key_def double_to_int_def d_trunc_def)
  have zero: "\<not> d_nan (pack True 0)" "d_key (pack True 0) = 0" by (simp_all add: d_nan_def d_key_def z)
  note p = fabs_pow_cases [of "pack True 0" 0 "\<lambda>x. x" "\<lambda>x. x" "\<lambda>y z. z" 1]
    fabs_pow_cases [of ?x ?y "\<lambda>x. x" "\<lambda>x. x" "\<lambda>y z. z" 3]
  from p(1) zero have "fabs (pack True 0) = pack True 0" by simp
  moreover have "pow (\<lambda>x. x) (\<lambda>x. x) (\<lambda>y z. z) ?x (int_to_double 3) = Some ?x" using p(2) x by (simp add: Let_def)
  moreover have "pow (\<lambda>x. x) (\<lambda>x. x) (\<lambda>y z. z) ?x ?y = None" using p(2) x y by blast
  ultimately show ?thesis by blast
qed

end
