(* ===== verification/NativeServer.thy ===== *)
theory NativeServer
  imports Prelude
begin

text \<open>
  The native code server (src/native-server): a process that reads requests from one pipe,
  runs native code on the memory it is sent, and writes replies to another. The server of
  server.c is written against the operations declared in platform.h, which every deployment
  implements for itself; src/profiles/x86-gcc-limited-libc/native/platform.c is the
  implementation on stdio. Here the operations of platform.h are a record of functions, the
  server is a group of definitions over such a record, and platform.c is one value of it.

  The memory of the native process maps an address to a byte and to whether the page may be
  written; an access elsewhere is a fault. The static buffers and the local variables of the
  server are kept apart from that memory. A local variable is a list of bytes in
  little-endian order, each \<open>None\<close> until it is written, and using a variable with such a
  byte is an error. What is not in the sources is a parameter: the trampolines with the code
  they call, \<open>calloc\<close>, and the table of the generated file symbols.c.
\<close>

section \<open>Native memory\<close>

datatype nerr =
    Aborted string
  | Fault u64
  | IndeterminateValue
  | BufferOverrun

type_synonym nmem = "u64 \<Rightarrow> (u8 \<times> bool) option"

definition nm_load :: "nmem \<Rightarrow> u64 \<Rightarrow> (nerr, u8) res" where
  "nm_load nm a = (case nm a of None \<Rightarrow> Inl (Fault a) | Some (b, wr) \<Rightarrow> Inr b)"

definition nm_store :: "nmem \<Rightarrow> u64 \<Rightarrow> u8 \<Rightarrow> (nerr, nmem) res" where
  "nm_store nm a v = (case nm a of None \<Rightarrow> Inl (Fault a)
     | Some (b, wr) \<Rightarrow> if wr then Inr (nm(a \<mapsto> (v, wr))) else Inl (Fault a))"

fun nm_read :: "nmem \<Rightarrow> u64 \<Rightarrow> nat \<Rightarrow> (nerr, u8 list) res" where
  "nm_read nm a 0 = Inr []"
| "nm_read nm a (Suc n) =
     bindr (nm_load nm a) (\<lambda>b. bindr (nm_read nm (a + 1) n) (\<lambda>bs. Inr (b # bs)))"

fun nm_write :: "nmem \<Rightarrow> u64 \<Rightarrow> u8 list \<Rightarrow> (nerr, nmem) res" where
  "nm_write nm a [] = Inr nm"
| "nm_write nm a (v # vs) = bindr (nm_store nm a v) (\<lambda>nm'. nm_write nm' (a + 1) vs)"

section \<open>The platform interface (platform.h)\<close>

text \<open>
  The functions of platform.h. \<open>__error\<close> is taken as not returning: the header does not promise
  that, but the code after every call of it relies on it, and the implementation in platform.c
  aborts. The theorems on the server are about that implementation.
\<close>

record 's platform =
  init_messages :: "string \<Rightarrow> string \<Rightarrow> 's \<Rightarrow> (nerr, 's) res"
  send_message :: "'s \<Rightarrow> u8 list \<Rightarrow> (nerr, 's) res"
  recv_message :: "'s \<Rightarrow> nat \<Rightarrow> (nerr, u8 list \<times> 's) res"
  deinit_messages :: "'s \<Rightarrow> (nerr, 's) res"
  flush_message :: "'s \<Rightarrow> (nerr, 's) res"
  error_handler :: "string \<Rightarrow> nerr"
  alloc_memory :: "nmem \<Rightarrow> u64 \<Rightarrow> u64 \<times> nmem"

section \<open>The state of the server (server.c, server.h)\<close>

record native_mem_t =
  address :: u64
  size_of :: u64

record 's server =
  plat :: 's
  nmem :: nmem
  native_memory :: "native_mem_t list"
  dirty_buffer :: "u8 list"

definition NATIVE_MEMORY_SIZE :: nat where
  "NATIVE_MEMORY_SIZE = 8192"

definition dirty_size :: nat where
  "dirty_size = 8192"

type_synonym var = "u8 option list"

text \<open>Bytes received into a buffer: the bytes that arrived overwrite a prefix of it.\<close>

definition fill :: "u8 option list \<Rightarrow> u8 list \<Rightarrow> u8 option list" where
  "fill old bs = map Some bs @ drop (length bs) old"

definition uninit :: "nat \<Rightarrow> var" where
  "uninit k = replicate k None"

definition value_of :: "var \<Rightarrow> (nerr, nat) res" where
  "value_of v = (if None \<in> set v then Inl IndeterminateValue else Inr (of_le_bytes (map the v)))"

text \<open>
  What arrives beyond the end of the variable or of the buffer that was passed is written past
  it: such a call is an overrun of the buffer, whatever the platform does.
\<close>

definition recv_var :: "'s platform \<Rightarrow> var \<Rightarrow> 's server \<Rightarrow> (nerr, var \<times> 's server) res" where
  "recv_var P old w = bindr (recv_message P (plat w) (length old)) (\<lambda>(bs, s').
     if length bs \<le> length old then Inr (fill old bs, w\<lparr>plat := s'\<rparr>) else Inl BufferOverrun)"

definition recv_dirty :: "'s platform \<Rightarrow> nat \<Rightarrow> 's server \<Rightarrow> (nerr, 's server) res" where
  "recv_dirty P n w = bindr (recv_message P (plat w) n) (\<lambda>(bs, s').
     if length bs \<le> length (dirty_buffer w)
     then Inr (w\<lparr>plat := s', dirty_buffer := bs @ drop (length bs) (dirty_buffer w)\<rparr>)
     else Inl BufferOverrun)"

definition recv_native :: "'s platform \<Rightarrow> u64 \<Rightarrow> nat \<Rightarrow> 's server \<Rightarrow> (nerr, 's server) res" where
  "recv_native P a n w = bindr (recv_message P (plat w) n) (\<lambda>(bs, s').
     bindr (nm_write (nmem w) a bs) (\<lambda>nm'. Inr (w\<lparr>plat := s', nmem := nm'\<rparr>)))"

definition send_bytes :: "'s platform \<Rightarrow> u8 list \<Rightarrow> 's server \<Rightarrow> (nerr, 's server) res" where
  "send_bytes P bs w = bindr (send_message P (plat w) bs) (\<lambda>s'. Inr (w\<lparr>plat := s'\<rparr>))"

definition send_native :: "'s platform \<Rightarrow> u64 \<Rightarrow> nat \<Rightarrow> 's server \<Rightarrow> (nerr, 's server) res" where
  "send_native P a n w = bindr (nm_read (nmem w) a n) (\<lambda>bs. send_bytes P bs w)"

section \<open>Handlers (server.c)\<close>

text \<open>
  \<open>len\<close> is a \<open>short\<close>: the callers pass \<open>sizeof(dirty_buffer)\<close> or a smaller
  \<open>uint32_t\<close>, converted as the call converts it.
\<close>

definition to_short :: "nat \<Rightarrow> int" where
  "to_short n = sint (of_nat n :: u16)"

function write_dirty_loop :: "u8 list \<Rightarrow> nmem \<Rightarrow> u64 \<Rightarrow> int \<Rightarrow> nat \<Rightarrow> (nerr, nmem) res" where
  "write_dirty_loop buf nm ptr len i =
     (if int i < len then
        if i < length buf then
          bindr (nm_load nm ptr) (\<lambda>b.
          bindr (if b \<noteq> buf ! i then nm_store nm ptr (buf ! i) else Inr nm) (\<lambda>nm'.
          write_dirty_loop buf nm' (ptr + 1) len (i + 1)))
        else Inl BufferOverrun
      else Inr nm)"
  by pat_completeness auto
termination
  by (relation "measure (\<lambda>(buf, nm, ptr, len, i). nat (len - int i))") auto

definition write_dirty :: "u64 \<Rightarrow> int \<Rightarrow> 's server \<Rightarrow> (nerr, 's server) res" where
  "write_dirty ptr len w =
     bindr (write_dirty_loop (dirty_buffer w) (nmem w) ptr len 0) (\<lambda>nm'. Inr (w\<lparr>nmem := nm'\<rparr>))"

function recv_chunks :: "'s platform \<Rightarrow> u64 \<Rightarrow> nat \<Rightarrow> 's server \<Rightarrow> (nerr, 's server) res" where
  "recv_chunks P ptr remaining w =
     (if remaining > dirty_size then
        bindr (recv_dirty P dirty_size w) (\<lambda>w1.
        bindr (write_dirty ptr (to_short dirty_size) w1) (\<lambda>w2.
        recv_chunks P (ptr + of_nat dirty_size) (remaining - dirty_size) w2))
      else
        bindr (recv_dirty P remaining w) (\<lambda>w1. write_dirty ptr (to_short remaining) w1))"
  by pat_completeness auto
termination
  by (relation "measure (\<lambda>(P, ptr, remaining, w). remaining)") (auto simp: dirty_size_def)

text \<open>
  One pass of the receiving loop of \<open>invoke\<close>. The variables \<open>address\<close> and
  \<open>len\<close> live across passes; \<open>is_dirty\<close> is declared inside. The table
  \<open>native_memory\<close> has a fixed size, and an index past its end is an overrun.
\<close>

definition set_native_memory :: "nat \<Rightarrow> native_mem_t \<Rightarrow> 's server \<Rightarrow> 's server" where
  "set_native_memory i e w = w\<lparr>native_memory := (native_memory w)[i := e]\<rparr>"

definition recv_entry ::
  "'s platform \<Rightarrow> nat \<Rightarrow> var \<times> var \<times> 's server \<Rightarrow> (nerr, var \<times> var \<times> 's server) res" where
  "recv_entry P i = (\<lambda>(adr, len, w).
     bindr (recv_var P adr w) (\<lambda>(adr', w1).
     bindr (value_of adr') (\<lambda>a.
     if i \<ge> length (native_memory w1) then Inl BufferOverrun else
     bindr (recv_var P (uninit 1) w1) (\<lambda>(is_dirty, w2).
     bindr (recv_var P len w2) (\<lambda>(len', w3).
     bindr (value_of len') (\<lambda>n.
     bindr (value_of is_dirty) (\<lambda>d.
     let w4 = set_native_memory i \<lparr>address = of_nat a, size_of = of_nat n\<rparr> w3 in
     bindr (if d \<noteq> 0 then recv_chunks P (of_nat a) n w4 else recv_native P (of_nat a) n w4)
       (\<lambda>w5. Inr (adr', len', w5)))))))))"

fun recv_entries ::
  "'s platform \<Rightarrow> nat \<Rightarrow> nat \<Rightarrow> var \<times> var \<times> 's server \<Rightarrow> (nerr, var \<times> var \<times> 's server) res" where
  "recv_entries P i 0 st = Inr st"
| "recv_entries P i (Suc k) st = bindr (recv_entry P i st) (\<lambda>st'. recv_entries P (Suc i) k st')"

definition send_entry :: "'s platform \<Rightarrow> native_mem_t \<Rightarrow> 's server \<Rightarrow> (nerr, 's server) res" where
  "send_entry P e w =
     (let len = ucast (size_of e) :: u32 in
      bindr (send_bytes P (le_bytes 4 (unat len)) w) (\<lambda>w1.
      bindr (send_native P (address e) (unat len) w1) (\<lambda>w2.
      send_bytes P (le_bytes 8 (unat (address e))) w2)))"

fun send_entries :: "'s platform \<Rightarrow> nat \<Rightarrow> nat \<Rightarrow> 's server \<Rightarrow> (nerr, 's server) res" where
  "send_entries P i 0 w = Inr w"
| "send_entries P i (Suc k) w =
     (if i \<ge> length (native_memory w) then Inl BufferOverrun else
      bindr (send_entry P (native_memory w ! i) w) (\<lambda>w'. send_entries P (Suc i) k w'))"

text \<open>
  The code behind a trampoline address, called with the function and the place of its
  result, acts on the native memory.
\<close>

type_synonym native_code = "u64 \<Rightarrow> u64 \<Rightarrow> u64 \<Rightarrow> nmem \<Rightarrow> (nerr, nmem) res"

definition invoke :: "'s platform \<Rightarrow> native_code \<Rightarrow> 's server \<Rightarrow> (nerr, 's server) res" where
  "invoke P code w =
     bindr (recv_var P (uninit 8) w) (\<lambda>(adr1, w1).
     bindr (value_of adr1) (\<lambda>trampoline.
     bindr (recv_var P adr1 w1) (\<lambda>(adr2, w2).
     bindr (value_of adr2) (\<lambda>fptr.
     bindr (recv_var P adr2 w2) (\<lambda>(adr3, w3).
     bindr (value_of adr3) (\<lambda>retval.
     bindr (recv_var P (uninit 4) w3) (\<lambda>(len, w4).
     bindr (value_of len) (\<lambda>n.
     if n > NATIVE_MEMORY_SIZE
     then Inl (error_handler P ''buffer too small to contain native memory'')
     else
       bindr (recv_entries P 0 n (adr3, len, w4)) (\<lambda>(adr4, len4, w5).
       bindr (code (of_nat trampoline) (of_nat fptr) (of_nat retval) (nmem w5)) (\<lambda>nm'.
       bindr (send_bytes P (le_bytes 4 n) (w5\<lparr>nmem := nm'\<rparr>)) (\<lambda>w6.
       send_entries P 0 n w6)))))))))))"

type_synonym symbol_t = "u8 list \<times> u64"

text \<open>
  The length of a name is an \<open>int32_t\<close>, which the call that sends the name extends to
  \<open>size_t\<close>.
\<close>

fun send_symbols :: "'s platform \<Rightarrow> symbol_t list \<Rightarrow> 's server \<Rightarrow> (nerr, 's server) res" where
  "send_symbols P [] w = Inr w"
| "send_symbols P ((name, addr) # syms) w =
     (let len = of_nat (length name) :: u32; n = unat (scast len :: u64) in
      bindr (send_bytes P (le_bytes 4 (unat len)) w) (\<lambda>w1.
      bindr (if n \<le> length name then send_bytes P (take n name) w1 else Inl BufferOverrun) (\<lambda>w2.
      bindr (send_bytes P (le_bytes 8 (unat addr)) w2) (\<lambda>w3.
      send_symbols P syms w3))))"

definition get_symbol_table :: "'s platform \<Rightarrow> symbol_t list \<Rightarrow> 's server \<Rightarrow> (nerr, 's server) res" where
  "get_symbol_table P symbols w =
     bindr (send_bytes P (le_bytes 4 (unat (of_nat (length symbols) :: u32))) w)
       (\<lambda>w1. send_symbols P symbols w1)"

definition alloc :: "'s platform \<Rightarrow> 's server \<Rightarrow> (nerr, 's server) res" where
  "alloc P w =
     bindr (recv_var P (uninit 8) w) (\<lambda>(size_param, w1).
     bindr (value_of size_param) (\<lambda>size.
     case alloc_memory P (nmem w1) (of_nat size) of
       (ptr, nm') \<Rightarrow> send_bytes P (le_bytes 8 (unat ptr)) (w1\<lparr>nmem := nm'\<rparr>)))"

text \<open>The \<open>int32_t\<close> size is sign-extended to \<open>size_t\<close>.\<close>

definition sync_read :: "'s platform \<Rightarrow> 's server \<Rightarrow> (nerr, 's server) res" where
  "sync_read P w =
     bindr (recv_var P (uninit 8) w) (\<lambda>(adr, w1).
     bindr (recv_var P (uninit 4) w1) (\<lambda>(size_param, w2).
     bindr (value_of size_param) (\<lambda>sz.
     bindr (value_of adr) (\<lambda>a.
     send_native P (of_nat a) (unat (scast (of_nat sz :: u32) :: u64)) w2))))"

section \<open>The command loop (server.c, main.c)\<close>

datatype cmd_t = INVOKE | GET_SYMBOL_TABLE | ALLOC | SYNC_READ | EXIT

fun cmd_of :: "nat \<Rightarrow> cmd_t option" where
  "cmd_of opcode =
     (if opcode = 0 then Some INVOKE
      else if opcode = 1 then Some GET_SYMBOL_TABLE
      else if opcode = 2 then Some ALLOC
      else if opcode = 3 then Some SYNC_READ
      else if opcode = 4 then Some EXIT
      else None)"

text \<open>One pass of the loop: the flag says whether the pass handled \<open>_EXIT\<close>.\<close>

definition server_pass ::
  "'s platform \<Rightarrow> native_code \<Rightarrow> symbol_t list \<Rightarrow> 's server \<Rightarrow> (nerr, bool \<times> 's server) res" where
  "server_pass P code symbols w =
     bindr (recv_var P (uninit 1) w) (\<lambda>(opcode, w1).
     bindr (value_of opcode) (\<lambda>c.
     bindr (case cmd_of c of
         Some INVOKE \<Rightarrow> bindr (invoke P code w1) (\<lambda>w2. Inr (False, w2))
       | Some GET_SYMBOL_TABLE \<Rightarrow> bindr (get_symbol_table P symbols w1) (\<lambda>w2. Inr (False, w2))
       | Some ALLOC \<Rightarrow> bindr (alloc P w1) (\<lambda>w2. Inr (False, w2))
       | Some SYNC_READ \<Rightarrow> bindr (sync_read P w1) (\<lambda>w2. Inr (False, w2))
       | Some EXIT \<Rightarrow> bindr (send_bytes P [0] w1) (\<lambda>w2. Inr (True, w2))
       | None \<Rightarrow> Inl (error_handler P ''undefined command'')) (\<lambda>(exited, w2).
     bindr (flush_message P (plat w2)) (\<lambda>s'. Inr (exited, w2\<lparr>plat := s'\<rparr>)))))"

text \<open>The loop with a bound on its passes; \<open>None\<close> when the bound is reached.\<close>

fun server_loop ::
  "nat \<Rightarrow> 's platform \<Rightarrow> native_code \<Rightarrow> symbol_t list \<Rightarrow> 's server \<Rightarrow> (nerr, 's server) res option" where
  "server_loop 0 P code symbols w = None"
| "server_loop (Suc k) P code symbols w =
     (case server_pass P code symbols w of
        Inl e \<Rightarrow> Some (Inl e)
      | Inr (exited, w') \<Rightarrow>
          if exited then Some (Inr w') else server_loop k P code symbols w')"

definition server ::
  "nat \<Rightarrow> 's platform \<Rightarrow> native_code \<Rightarrow> symbol_t list \<Rightarrow> string \<Rightarrow> string \<Rightarrow> 's server
     \<Rightarrow> (nerr, 's server) res option" where
  "server k P code symbols read_path write_path w =
     (case init_messages P read_path write_path (plat w) of
        Inl e \<Rightarrow> Some (Inl e)
      | Inr s \<Rightarrow>
          (case server_loop k P code symbols (w\<lparr>plat := s\<rparr>) of
             None \<Rightarrow> None
           | Some (Inl e) \<Rightarrow> Some (Inl e)
           | Some (Inr w') \<Rightarrow>
               Some (bindr (deinit_messages P (plat w')) (\<lambda>s'. Inr (w'\<lparr>plat := s'\<rparr>)))))"

text \<open>
  \<open>main\<close>: the exit status and, when the usage is wrong, the line it prints. Without a
  program name, \<open>printf\<close> is given a null pointer.
\<close>

definition main ::
  "nat \<Rightarrow> 's platform \<Rightarrow> native_code \<Rightarrow> symbol_t list \<Rightarrow> string list \<Rightarrow> 's server
     \<Rightarrow> (nerr, int \<times> string \<times> 's server) res option" where
  "main k P code symbols argv w =
     (if argv = [] then Some (Inl IndeterminateValue)
      else if length argv \<noteq> 3
      then Some (Inr (1, ''usage: '' @ (argv ! 0) @ '' read_pipe write_pipe'' @ [CHR 0x0A], w))
      else (case server k P code symbols (argv ! 1) (argv ! 2) w of
              None \<Rightarrow> None
            | Some (Inl e) \<Rightarrow> Some (Inl e)
            | Some (Inr w') \<Rightarrow> Some (Inr (0, [], w'))))"

end
