(* ===== verification/Platform.thy ===== *)
theory Platform
  imports NativeServer
begin

text \<open>
  The platform layer on stdio, src/profiles/x86-gcc-limited-libc/native/platform.c, as a
  value of the record of operations of platform.h, and the contract that platform.h states
  for such operations, as a locale. The interpretation at the end shows that stdio streams
  keep the contract while the peer has written enough bytes and no stream reports an error.

  A stream of the C library is its bytes and what the environment will make it do: where
  reading stops and whether that stop is an error, how many bytes a write may still add
  before the stream reports an error, and whether flushing and closing succeed.
\<close>

record rfile =
  rdata :: "u8 list"
  rfails :: bool
  rcloses :: bool

record wfile =
  wdata :: "u8 list"
  wflushed :: nat
  wroom :: "nat option"
  wflushes :: bool
  wcloses :: bool

text \<open>\<open>fread\<close> with elements of one byte: the bytes read, and whether the error
  indicator is set. At the end of a healthy stream fewer bytes than asked for are read and
  the error indicator stays clear.\<close>

definition fread :: "nat \<Rightarrow> rfile \<Rightarrow> u8 list \<times> bool \<times> rfile" where
  "fread n f = (take n (rdata f), rfails f \<and> length (rdata f) < n, f\<lparr>rdata := drop n (rdata f)\<rparr>)"

definition fwrite :: "u8 list \<Rightarrow> wfile \<Rightarrow> bool \<times> wfile" where
  "fwrite bs f = (case wroom f of
     None \<Rightarrow> (False, f\<lparr>wdata := wdata f @ bs\<rparr>)
   | Some k \<Rightarrow> (length bs > k, f\<lparr>wdata := wdata f @ take k bs, wroom := Some (k - length bs)\<rparr>))"

definition fflush :: "wfile \<Rightarrow> bool \<times> wfile" where
  "fflush f = (if wflushes f then (True, f\<lparr>wflushed := length (wdata f)\<rparr>) else (False, f))"

text \<open>The static variables of platform.c, and what the file system would open.\<close>

record files =
  open_w :: "string \<Rightarrow> wfile option"
  open_r :: "string \<Rightarrow> rfile option"
  write_file :: "wfile option"
  read_file :: "rfile option"

definition c_init_messages :: "string \<Rightarrow> string \<Rightarrow> files \<Rightarrow> (nerr, files) res" where
  "c_init_messages read_path write_path s =
     (case open_w s write_path of
        None \<Rightarrow> Inl (Aborted ''opening write pipe failed'')
      | Some fw \<Rightarrow>
          (case open_r s read_path of
             None \<Rightarrow> Inl (Aborted ''opening read pipe failed'')
           | Some fr \<Rightarrow> Inr (s\<lparr>write_file := Some fw, read_file := Some fr\<rparr>)))"

definition c_send_message :: "files \<Rightarrow> u8 list \<Rightarrow> (nerr, files) res" where
  "c_send_message s bs =
     (case write_file s of
        None \<Rightarrow> Inl IndeterminateValue
      | Some fw \<Rightarrow>
          (case fwrite bs fw of (err, fw') \<Rightarrow>
             if err then Inl (Aborted ''writing bytes to pipe failed'')
             else Inr (s\<lparr>write_file := Some fw'\<rparr>)))"

definition c_recv_message :: "files \<Rightarrow> nat \<Rightarrow> (nerr, u8 list \<times> files) res" where
  "c_recv_message s n =
     (case read_file s of
        None \<Rightarrow> Inl IndeterminateValue
      | Some fr \<Rightarrow>
          (case fread n fr of (bs, err, fr') \<Rightarrow>
             if err then Inl (Aborted ''reading bytes from pipe failed'')
             else Inr (bs, s\<lparr>read_file := Some fr'\<rparr>)))"

definition c_deinit_messages :: "files \<Rightarrow> (nerr, files) res" where
  "c_deinit_messages s =
     (case write_file s of
        None \<Rightarrow> Inl IndeterminateValue
      | Some fw \<Rightarrow>
          if \<not> wcloses fw then Inl (Aborted ''closing write pipe failed'')
          else (case read_file s of
             None \<Rightarrow> Inl IndeterminateValue
           | Some fr \<Rightarrow>
               if \<not> rcloses fr then Inl (Aborted ''closing read pipe failed'') else Inr s))"

definition c_flush_message :: "files \<Rightarrow> (nerr, files) res" where
  "c_flush_message s =
     (case write_file s of
        None \<Rightarrow> Inl IndeterminateValue
      | Some fw \<Rightarrow>
          (case fflush fw of (done, fw') \<Rightarrow>
             if done then Inr (s\<lparr>write_file := Some fw'\<rparr>)
             else Inl (Aborted ''flushing write pipe failed'')))"

definition c_error :: "string \<Rightarrow> nerr" where
  "c_error msg = Aborted msg"

definition c_alloc :: "(nmem \<Rightarrow> u64 \<Rightarrow> u64 \<Rightarrow> u64 \<times> nmem) \<Rightarrow> nmem \<Rightarrow> u64 \<Rightarrow> u64 \<times> nmem" where
  "c_alloc calloc nm n = calloc nm 1 n"

definition stdio_platform :: "(nmem \<Rightarrow> u64 \<Rightarrow> u64 \<Rightarrow> u64 \<times> nmem) \<Rightarrow> files platform" where
  "stdio_platform calloc =
     \<lparr>init_messages = c_init_messages, send_message = c_send_message,
      recv_message = c_recv_message, deinit_messages = c_deinit_messages,
      flush_message = c_flush_message, error_handler = c_error,
      alloc_memory = c_alloc calloc\<rparr>"

section \<open>The contract of platform.h\<close>

text \<open>
  \<open>link s inp out\<close>: the peer has still \<open>inp\<close> to be received, and \<open>out\<close> is all
  that was sent so far.
\<close>

locale platform_contract =
  fixes P :: "'s platform" and link :: "'s \<Rightarrow> u8 list \<Rightarrow> u8 list \<Rightarrow> bool"
  assumes recv_exact:
      "link s (bs @ rest) out \<Longrightarrow>
       \<exists>s'. recv_message P s (length bs) = Inr (bs, s') \<and> link s' rest out"
    and send_exact:
      "link s inp out \<Longrightarrow> \<exists>s'. send_message P s bs = Inr s' \<and> link s' inp (out @ bs)"
    and flush_keeps:
      "link s inp out \<Longrightarrow> \<exists>s'. flush_message P s = Inr s' \<and> link s' inp out"
    and deinit_keeps:
      "link s inp out \<Longrightarrow> \<exists>s'. deinit_messages P s = Inr s' \<and> link s' inp out"

text \<open>The stdio streams as such a link.\<close>

definition stdio_link :: "files \<Rightarrow> u8 list \<Rightarrow> u8 list \<Rightarrow> bool" where
  "stdio_link s inp out \<longleftrightarrow>
     (\<exists>fr fw. read_file s = Some fr \<and> write_file s = Some fw \<and>
        rdata fr = inp \<and> rcloses fr \<and>
        wdata fw = out \<and> wroom fw = None \<and> wflushes fw \<and> wcloses fw)"

interpretation stdio: platform_contract "stdio_platform calloc" stdio_link
proof unfold_locales
  fix s :: files and bs rest inp out :: "u8 list"
  show "stdio_link s (bs @ rest) out \<Longrightarrow>
    \<exists>s'. recv_message (stdio_platform calloc) s (length bs) = Inr (bs, s') \<and> stdio_link s' rest out"
    by (auto simp: stdio_link_def stdio_platform_def c_recv_message_def fread_def)
  show "stdio_link s inp out \<Longrightarrow>
    \<exists>s'. send_message (stdio_platform calloc) s bs = Inr s' \<and> stdio_link s' inp (out @ bs)"
    by (auto simp: stdio_link_def stdio_platform_def c_send_message_def fwrite_def)
  show "stdio_link s inp out \<Longrightarrow>
    \<exists>s'. flush_message (stdio_platform calloc) s = Inr s' \<and> stdio_link s' inp out"
    by (auto simp: stdio_link_def stdio_platform_def c_flush_message_def fflush_def)
  show "stdio_link s inp out \<Longrightarrow>
    \<exists>s'. deinit_messages (stdio_platform calloc) s = Inr s' \<and> stdio_link s' inp out"
    by (auto simp: stdio_link_def stdio_platform_def c_deinit_messages_def)
qed

text \<open>
  Short reads: at the end of the input nothing is reported, the operation returns fewer bytes
  than it was asked for.
\<close>

lemma stdio_recv_short:
  assumes "read_file s = Some fr" and "\<not> rfails fr" and "length (rdata fr) < n"
  shows "\<exists>s'. recv_message (stdio_platform calloc) s n = Inr (rdata fr, s')"
  using assms by (auto simp: stdio_platform_def c_recv_message_def fread_def)

end
