(* ===== verification/ServerSpec.thy ===== *)
theory ServerSpec
  imports Platform
begin

text \<open>
  What the native code server promises: requests and replies as values, their encoding as
  bytes of the pipes, and the effect of a request on the native memory. The lemmas show, for
  every platform that keeps the contract of platform.h, that the handlers of server.c read
  exactly the encoding of a request and send exactly its reply.
\<close>

section \<open>Requests and replies\<close>

record entry =
  e_addr :: u64
  e_dirty :: u8
  e_data :: "u8 list"

datatype request =
    Invoke u64 u64 u64 "entry list"
  | GetSymbolTable
  | Alloc u64
  | SyncRead u64 u32

definition enc64 :: "u64 \<Rightarrow> u8 list" where
  "enc64 a = le_bytes 8 (unat a)"

definition enc32 :: "nat \<Rightarrow> u8 list" where
  "enc32 n = le_bytes 4 n"

definition enc_entry :: "entry \<Rightarrow> u8 list" where
  "enc_entry e = enc64 (e_addr e) @ [e_dirty e] @ enc32 (length (e_data e)) @ e_data e"

fun enc_request :: "request \<Rightarrow> u8 list" where
  "enc_request (Invoke t f r es) =
     0 # enc64 t @ enc64 f @ enc64 r @ enc32 (length es) @ concat (map enc_entry es)"
| "enc_request GetSymbolTable = [1]"
| "enc_request (Alloc n) = 2 # enc64 n"
| "enc_request (SyncRead a n) = 3 # enc64 a @ enc32 (unat n)"

text \<open>The encoding holds a request whose lengths fit their fields and the server's table.\<close>

fun wf_request :: "request \<Rightarrow> bool" where
  "wf_request (Invoke t f r es) \<longleftrightarrow>
     length es \<le> NATIVE_MEMORY_SIZE \<and> (\<forall>e\<in>set es. length (e_data e) < 2 ^ 32)"
| "wf_request _ \<longleftrightarrow> True"

text \<open>
  A dirty entry is written where it differs only, so that memory which the process may not
  write is accepted as long as its contents are those that are there.
\<close>

fun nm_update :: "nmem \<Rightarrow> u64 \<Rightarrow> u8 list \<Rightarrow> (nerr, nmem) res" where
  "nm_update nm a [] = Inr nm"
| "nm_update nm a (v # vs) =
     bindr (nm_load nm a) (\<lambda>b.
     bindr (if b \<noteq> v then nm_store nm a v else Inr nm) (\<lambda>nm'. nm_update nm' (a + 1) vs))"

definition put_entry :: "entry \<Rightarrow> nmem \<Rightarrow> (nerr, nmem) res" where
  "put_entry e nm = (if e_dirty e \<noteq> 0 then nm_update nm (e_addr e) (e_data e)
                     else nm_write nm (e_addr e) (e_data e))"

fun put_entries :: "entry list \<Rightarrow> nmem \<Rightarrow> (nerr, nmem) res" where
  "put_entries [] nm = Inr nm"
| "put_entries (e # es) nm = bindr (put_entry e nm) (put_entries es)"

fun get_entries :: "entry list \<Rightarrow> nmem \<Rightarrow> (nerr, u8 list) res" where
  "get_entries [] nm = Inr []"
| "get_entries (e # es) nm =
     bindr (nm_read nm (e_addr e) (length (e_data e))) (\<lambda>bs.
     bindr (get_entries es nm) (\<lambda>out.
     Inr (enc32 (length (e_data e)) @ bs @ enc64 (e_addr e) @ out)))"

definition enc_symbol :: "symbol_t \<Rightarrow> u8 list" where
  "enc_symbol = (\<lambda>(name, addr). enc32 (length name) @ name @ enc64 addr)"

fun reply ::
  "(nmem \<Rightarrow> u64 \<Rightarrow> u64 \<times> nmem) \<Rightarrow> native_code \<Rightarrow> symbol_t list \<Rightarrow> request \<Rightarrow> nmem
     \<Rightarrow> (nerr, u8 list \<times> nmem) res" where
  "reply al code syms (Invoke t f r es) nm =
     bindr (put_entries es nm) (\<lambda>nm1.
     bindr (code t f r nm1) (\<lambda>nm2.
     bindr (get_entries es nm2) (\<lambda>out. Inr (enc32 (length es) @ out, nm2))))"
| "reply al code syms GetSymbolTable nm =
     Inr (enc32 (length syms) @ concat (map enc_symbol syms), nm)"
| "reply al code syms (Alloc n) nm = (case al nm n of (p, nm') \<Rightarrow> Inr (enc64 p, nm'))"
| "reply al code syms (SyncRead a n) nm =
     bindr (nm_read nm a (unat (scast n :: u64))) (\<lambda>bs. Inr (bs, nm))"

fun replies ::
  "(nmem \<Rightarrow> u64 \<Rightarrow> u64 \<times> nmem) \<Rightarrow> native_code \<Rightarrow> symbol_t list \<Rightarrow> request list \<Rightarrow> nmem
     \<Rightarrow> (nerr, u8 list \<times> nmem) res" where
  "replies al code syms [] nm = Inr ([], nm)"
| "replies al code syms (q # qs) nm =
     bindr (reply al code syms q nm) (\<lambda>(out, nm1).
     bindr (replies al code syms qs nm1) (\<lambda>(outs, nm2). Inr (out @ outs, nm2)))"

definition wf_symbols :: "symbol_t list \<Rightarrow> bool" where
  "wf_symbols syms \<longleftrightarrow> length syms < 2 ^ 31 \<and> (\<forall>(name, addr)\<in>set syms. length name < 2 ^ 31)"

section \<open>Where a server stands\<close>

definition serving ::
  "('s \<Rightarrow> u8 list \<Rightarrow> u8 list \<Rightarrow> bool) \<Rightarrow> 's server \<Rightarrow> u8 list \<Rightarrow> u8 list \<Rightarrow> nmem \<Rightarrow> native_mem_t list \<Rightarrow> bool"
where
  "serving link w inp out nm tbl \<longleftrightarrow>
     link (plat w) inp out \<and> nmem w = nm \<and> native_memory w = tbl \<and>
     length (dirty_buffer w) = dirty_size"

lemma length_enc64 [simp]: "length (enc64 a) = 8"
  by (simp add: enc64_def)

lemma length_enc32 [simp]: "length (enc32 n) = 4"
  by (simp add: enc32_def)

lemma of_enc64 [simp]: "of_nat (of_le_bytes (enc64 a)) = a"
proof -
  have "unat a mod 256 ^ 8 = unat a" using unat_u64_less [of a] by simp
  then show ?thesis by (simp add: enc64_def of_le_bytes_le_bytes)
qed

lemma of_enc32 [simp]: "n < 2 ^ 32 \<Longrightarrow> of_le_bytes (enc32 n) = n"
  by (simp add: enc32_def of_le_bytes_le_bytes)

lemma value_of_Some [simp]: "value_of (map Some bs) = Inr (of_le_bytes bs)"
  by (auto simp: value_of_def o_def)

lemma length_uninit [simp]: "length (uninit k) = k"
  by (simp add: uninit_def)

lemma nm_update_append:
  "nm_update nm a (xs @ ys) =
   bindr (nm_update nm a xs) (\<lambda>nm'. nm_update nm' (a + of_nat (length xs)) ys)"
proof (induction xs arbitrary: nm a)
  case Nil
  then show ?case by simp
next
  case (Cons x xs)
  then show ?case by (simp add: bindr_assoc add.assoc [symmetric] add.commute)
qed

declare write_dirty_loop.simps [simp del] recv_chunks.simps [simp del]

lemma write_dirty_loop_update:
  "i + length bs \<le> length buf \<Longrightarrow> take (length bs) (drop i buf) = bs \<Longrightarrow>
   write_dirty_loop buf nm a (int (i + length bs)) i = nm_update nm a bs"
proof (induction bs arbitrary: i nm a)
  case Nil
  then show ?case by (simp add: write_dirty_loop.simps)
next
  case (Cons b bs)
  have i: "i < length buf" using Cons.prems(1) by simp
  then have "buf ! i = b" and "take (length bs) (drop (Suc i) buf) = bs"
    using Cons.prems(2) by (simp_all add: Cons_nth_drop_Suc [symmetric])
  with Cons.IH [of "Suc i"] Cons.prems(1) i show ?case
    by (subst write_dirty_loop.simps) (simp add: add.assoc cong: if_cong)
qed

lemma to_short_id: "n \<le> dirty_size \<Longrightarrow> to_short n = int n"
  unfolding to_short_def dirty_size_def
  by (simp add: signed_of_nat signed_take_bit_int_eq_self)

lemma write_dirty_update:
  assumes "length bs \<le> dirty_size" and "length (dirty_buffer w) = dirty_size"
    and "take (length bs) (dirty_buffer w) = bs"
  shows "write_dirty a (to_short (length bs)) w =
    bindr (nm_update (nmem w) a bs) (\<lambda>nm'. Inr (w\<lparr>nmem := nm'\<rparr>))"
  using write_dirty_loop_update [of 0 bs "dirty_buffer w" "nmem w" a] assms
  by (simp add: write_dirty_def to_short_id)

section \<open>Handlers under the contract\<close>

context platform_contract
begin

lemma recv_message_runs:
  "link s (bs @ rest) out \<Longrightarrow> n = length bs \<Longrightarrow>
   runs (recv_message P s n) (\<lambda>(cs, s'). cs = bs \<and> link s' rest out)"
  using recv_exact [of s bs rest out] by (auto simp: runs_def)

lemma recv_var_runs:
  assumes "serving link w (bs @ rest) out nm tbl" and "length old = length bs"
  shows "runs (recv_var P old w) (\<lambda>(v, w'). v = map Some bs \<and> serving link w' rest out nm tbl)"
  unfolding recv_var_def
  by (rule runs_bindr [OF recv_message_runs [of _ bs rest out]])
     (use assms in \<open>auto simp: serving_def fill_def\<close>)

lemma recv_var_bindr:
  assumes "serving link w (bs @ rest) out nm tbl" and "length old = length bs"
    and "\<And>w'. serving link w' rest out nm tbl \<Longrightarrow> runs (f (map Some bs, w')) Q"
  shows "runs (bindr (recv_var P old w) f) Q"
  by (rule runs_bindr [OF recv_var_runs [OF assms(1,2)]]) (use assms(3) in auto)

lemma send_bytes_runs:
  assumes "serving link w inp out nm tbl"
  shows "runs (send_bytes P bs w) (\<lambda>w'. serving link w' inp (out @ bs) nm tbl)"
  using send_exact [of "plat w" inp out bs] assms
  by (auto simp: send_bytes_def serving_def)

lemma send_native_runs:
  assumes "serving link w inp out nm tbl" and "nm_read nm a n = Inr bs"
  shows "runs (send_native P a n w) (\<lambda>w'. serving link w' inp (out @ bs) nm tbl)"
  using send_bytes_runs [OF assms(1), of bs] assms by (simp add: send_native_def serving_def)

lemma recv_native_runs:
  assumes "serving link w (bs @ rest) out nm tbl" and "nm_write nm a bs = Inr nm'"
  shows "runs (recv_native P a (length bs) w) (\<lambda>w'. serving link w' rest out nm' tbl)"
  unfolding recv_native_def
  by (rule runs_bindr [OF recv_message_runs [of _ bs rest out]])
     (use assms in \<open>auto simp: serving_def\<close>)

lemma recv_dirty_runs:
  assumes "serving link w (bs @ rest) out nm tbl" and "length bs \<le> dirty_size"
  shows "runs (recv_dirty P (length bs) w)
    (\<lambda>w'. serving link w' rest out nm tbl \<and> take (length bs) (dirty_buffer w') = bs)"
  unfolding recv_dirty_def
  by (rule runs_bindr [OF recv_message_runs [of _ bs rest out]])
     (use assms in \<open>auto simp: serving_def\<close>)

lemma chunk_runs:
  assumes "serving link w (bs @ rest) out nm tbl" and "length bs \<le> dirty_size"
    and "nm_update nm a bs = Inr nm'"
  shows "runs (bindr (recv_dirty P (length bs) w) (\<lambda>w1. write_dirty a (to_short (length bs)) w1))
    (\<lambda>w'. serving link w' rest out nm' tbl)"
  by (rule runs_bindr [OF recv_dirty_runs [OF assms(1,2)]])
     (use assms in \<open>auto simp: write_dirty_update serving_def\<close>)

lemma recv_chunks_runs:
  assumes "serving link w (bs @ rest) out nm tbl" and "nm_update nm a bs = Inr nm'"
  shows "runs (recv_chunks P a (length bs) w) (\<lambda>w'. serving link w' rest out nm' tbl)"
  using assms
proof (induction bs arbitrary: w nm a rule: length_induct)
  case (1 bs)
  show ?case
  proof (cases "length bs > dirty_size")
    case False
    with chunk_runs [OF "1.prems"(1) _ "1.prems"(2)] show ?thesis
      by (simp add: recv_chunks.simps [of P a])
  next
    case True
    define xs ys where "xs = take dirty_size bs" and "ys = drop dirty_size bs"
    then have bs: "bs = xs @ ys" and xs: "length xs = dirty_size"
      and ys: "length ys = length bs - dirty_size" using True by simp_all
    have shorter: "length ys < length bs" using True ys by (simp add: dirty_size_def)
    from "1.prems"(2) obtain nm1 where u1: "nm_update nm a xs = Inr nm1"
      and u2: "nm_update nm1 (a + of_nat dirty_size) ys = Inr nm'"
      by (auto simp: bs nm_update_append bindr_eq_Inr xs)
    have "serving link w (xs @ ys @ rest) out nm tbl" using "1.prems"(1) bs by simp
    from chunk_runs [OF this _ u1] xs
    have "runs (bindr (recv_dirty P dirty_size w) (\<lambda>w1. write_dirty a (to_short dirty_size) w1))
        (\<lambda>w2. serving link w2 (ys @ rest) out nm1 tbl)" by simp
    then have "runs (bindr (bindr (recv_dirty P dirty_size w)
          (\<lambda>w1. write_dirty a (to_short dirty_size) w1))
        (\<lambda>w2. recv_chunks P (a + of_nat dirty_size) (length ys) w2))
      (\<lambda>w'. serving link w' rest out nm' tbl)"
      by (rule runs_bindr) (rule "1.IH" [rule_format, OF shorter _ u2])
    with True ys show ?thesis by (simp add: recv_chunks.simps [of P a "length bs"] bindr_assoc)
  qed
qed

end

lemma unat_scast_u32: "n < 2 ^ 31 \<Longrightarrow> unat (scast (of_nat n :: u32) :: u64) = n"
proof -
  assume n: "n < 2 ^ 31"
  then have "sint (of_nat n :: u32) = int n"
    by (simp add: signed_of_nat signed_take_bit_int_eq_self)
  then have "(scast (of_nat n :: u32) :: u64) = of_nat n" by (simp add: scast_eq)
  with n show ?thesis by (simp add: unat_of_nat)
qed

definition entry_of :: "entry \<Rightarrow> native_mem_t" where
  "entry_of e = \<lparr>address = e_addr e, size_of = of_nat (length (e_data e))\<rparr>"

lemma serving_set_native_memory:
  "serving link w inp out nm tbl \<Longrightarrow>
   serving link (set_native_memory i x w) inp out nm (tbl[i := x])"
  by (auto simp: serving_def set_native_memory_def)

lemma value_of_byte [simp]: "value_of [Some b] = Inr (unat b)"
  using value_of_Some [of "[b]"] by simp

context platform_contract
begin

lemma recv_entry_runs:
  assumes "serving link w (enc_entry e @ rest) out nm tbl" and "length (e_data e) < 2 ^ 32"
    and "length adr = 8" and "length len = 4" and "put_entry e nm = Inr nm'" and "i < length tbl"
  shows "runs (recv_entry P i (adr, len, w)) (\<lambda>(adr', len', w').
    length adr' = 8 \<and> length len' = 4 \<and> serving link w' rest out nm' (tbl[i := entry_of e]))"
proof -
  let ?Q = "\<lambda>(adr', len', w'). length adr' = 8 \<and> length len' = 4 \<and>
    serving link w' rest out nm' (tbl[i := entry_of e])"
  have data: "runs (if unat (e_dirty e) \<noteq> 0
        then recv_chunks P (e_addr e) (length (e_data e)) (set_native_memory i (entry_of e) w3)
        else recv_native P (e_addr e) (length (e_data e)) (set_native_memory i (entry_of e) w3))
      (\<lambda>w'. serving link w' rest out nm' (tbl[i := entry_of e]))"
    if "serving link w3 (e_data e @ rest) out nm tbl" for w3
    using assms(5) recv_chunks_runs [OF serving_set_native_memory [OF that]]
      recv_native_runs [OF serving_set_native_memory [OF that]]
    by (auto simp: put_entry_def unat_eq_zero split: if_splits)
  have last: "runs (bindr (recv_var P len w2) (\<lambda>(len', w3).
     bindr (value_of len') (\<lambda>n.
     bindr (value_of (map Some [e_dirty e])) (\<lambda>d.
     let w4 = set_native_memory i \<lparr>address = e_addr e, size_of = of_nat n\<rparr> w3 in
     bindr (if d \<noteq> 0 then recv_chunks P (e_addr e) n w4 else recv_native P (e_addr e) n w4)
       (\<lambda>w5. Inr (map Some (enc64 (e_addr e)), len', w5)))))) ?Q"
    if "serving link w2 (enc32 (length (e_data e)) @ e_data e @ rest) out nm tbl" for w2
    using that
  proof (rule recv_var_bindr)
    fix w3
    assume "serving link w3 (e_data e @ rest) out nm tbl"
    then have "runs (bindr (if unat (e_dirty e) \<noteq> 0
        then recv_chunks P (e_addr e) (length (e_data e)) (set_native_memory i (entry_of e) w3)
        else recv_native P (e_addr e) (length (e_data e)) (set_native_memory i (entry_of e) w3))
        (\<lambda>w5. Inr (map Some (enc64 (e_addr e)), map Some (enc32 (length (e_data e))), w5))) ?Q"
      by (rule runs_bindr [OF data]) simp
    then show "runs (case (map Some (enc32 (length (e_data e))), w3) of (len', w3) \<Rightarrow>
       bindr (value_of len') (\<lambda>n.
       bindr (value_of (map Some [e_dirty e])) (\<lambda>d.
       let w4 = set_native_memory i \<lparr>address = e_addr e, size_of = of_nat n\<rparr> w3 in
       bindr (if d \<noteq> 0 then recv_chunks P (e_addr e) n w4 else recv_native P (e_addr e) n w4)
         (\<lambda>w5. Inr (map Some (enc64 (e_addr e)), len', w5))))) ?Q"
      using assms(2) by (cases "e_dirty e = 0") (simp_all add: Let_def entry_of_def)
  qed (simp add: assms(4))
  have "serving link w (enc64 (e_addr e) @ ([e_dirty e] @ enc32 (length (e_data e)) @ e_data e @ rest)) out nm tbl"
    using assms(1) by (simp add: enc_entry_def)
  then show ?thesis
    unfolding recv_entry_def prod.case
  proof (rule recv_var_bindr, goal_cases)
    case (2 w1)
    from 2 assms(6) have room: "(i \<ge> length (native_memory w1)) = False" by (simp add: serving_def)
    show ?case
      unfolding prod.case value_of_Some bindr_Inr of_enc64 room if_False
    proof (rule recv_var_bindr [OF 2], goal_cases)
      case (2 w2)
      from last [OF this] show ?case unfolding prod.case .
    qed simp
  qed (simp add: assms(3))
qed

end

text \<open>The table of native memory after entries \<open>es\<close> were received from index \<open>i\<close> on.\<close>

fun fill_table :: "nat \<Rightarrow> entry list \<Rightarrow> native_mem_t list \<Rightarrow> native_mem_t list" where
  "fill_table i [] tbl = tbl"
| "fill_table i (e # es) tbl = fill_table (Suc i) es (tbl[i := entry_of e])"

lemma length_fill_table [simp]: "length (fill_table i es tbl) = length tbl"
  by (induction es arbitrary: i tbl) simp_all

lemma fill_table_before: "j < i \<Longrightarrow> fill_table i es tbl ! j = tbl ! j"
  by (induction es arbitrary: i tbl) simp_all

lemma fill_table_nth:
  "k < length es \<Longrightarrow> i + length es \<le> length tbl \<Longrightarrow> fill_table i es tbl ! (i + k) = entry_of (es ! k)"
proof (induction es arbitrary: i tbl k)
  case Nil
  then show ?case by simp
next
  case (Cons e es)
  show ?case
  proof (cases k)
    case 0
    with Cons.prems show ?thesis by (simp add: fill_table_before)
  next
    case (Suc k')
    with Cons.prems Cons.IH [of k' "Suc i" "tbl[i := entry_of e]"] show ?thesis by simp
  qed
qed

context platform_contract
begin

lemma recv_entries_runs:
  assumes "serving link w (concat (map enc_entry es) @ rest) out nm tbl"
    and "\<forall>e\<in>set es. length (e_data e) < 2 ^ 32"
    and "length adr = 8" and "length len = 4" and "put_entries es nm = Inr nm'"
    and "i + length es \<le> length tbl"
  shows "runs (recv_entries P i (length es) (adr, len, w))
    (\<lambda>(adr', len', w'). serving link w' rest out nm' (fill_table i es tbl))"
  using assms
proof (induction es arbitrary: i w nm tbl adr len)
  case Nil
  then show ?case by simp
next
  case (Cons e es)
  from Cons.prems(5) obtain nm1 where put: "put_entry e nm = Inr nm1" "put_entries es nm1 = Inr nm'"
    by (auto simp: bindr_eq_Inr)
  have sv: "serving link w (enc_entry e @ concat (map enc_entry es) @ rest) out nm tbl"
    and size: "length (e_data e) < 2 ^ 32" "\<forall>e\<in>set es. length (e_data e) < 2 ^ 32"
    and room: "i < length tbl" "Suc i + length es \<le> length (tbl[i := entry_of e])"
    using Cons.prems by simp_all
  have "runs (bindr (recv_entry P i (adr, len, w)) (\<lambda>st'. recv_entries P (Suc i) (length es) st'))
    (\<lambda>(adr', len', w'). serving link w' rest out nm' (fill_table (Suc i) es (tbl[i := entry_of e])))"
    by (rule runs_bindr [OF recv_entry_runs [OF sv size(1) Cons.prems(3,4) put(1) room(1)]])
       (use Cons.IH [OF _ size(2) _ _ put(2) room(2)] in fast)
  then show ?case by simp
qed

lemma send_entry_runs:
  assumes "serving link w inp out nm tbl" and "length (e_data e) < 2 ^ 32"
    and "nm_read nm (e_addr e) (length (e_data e)) = Inr bs"
  shows "runs (send_entry P (entry_of e) w) (\<lambda>w'. serving link w' inp
    (out @ enc32 (length (e_data e)) @ bs @ enc64 (e_addr e)) nm tbl)"
proof -
  have len: "unat (ucast (size_of (entry_of e)) :: u32) = length (e_data e)"
    using assms(2) by (simp add: entry_of_def unat_of_nat unsigned_ucast_eq take_bit_eq_mod)
  show ?thesis
    unfolding send_entry_def Let_def len enc32_def [symmetric] enc64_def [symmetric]
    apply (rule runs_bindr [OF send_bytes_runs [OF assms(1)]])
    apply (erule runs_bindr [OF send_native_runs])
     apply (simp add: entry_of_def assms(3))
    apply (drule send_bytes_runs, erule runs_mono)
    apply (simp add: entry_of_def)
    done
qed

end

context platform_contract
begin

lemma send_entries_runs:
  assumes "serving link w inp out nm tbl"
    and "\<forall>e\<in>set es. length (e_data e) < 2 ^ 32"
    and "\<forall>k<length es. tbl ! (i + k) = entry_of (es ! k)"
    and "get_entries es nm = Inr bs" and "i + length es \<le> length tbl"
  shows "runs (send_entries P i (length es) w) (\<lambda>w'. serving link w' inp (out @ bs) nm tbl)"
  using assms
proof (induction es arbitrary: i w out bs)
  case Nil
  then show ?case by simp
next
  case (Cons e es)
  from Cons.prems(4) obtain cs ds where
    get: "nm_read nm (e_addr e) (length (e_data e)) = Inr cs" "get_entries es nm = Inr ds"
    and bs: "bs = enc32 (length (e_data e)) @ cs @ enc64 (e_addr e) @ ds"
    by (auto simp: bindr_eq_Inr)
  have tbl: "\<forall>k<length es. tbl ! (Suc i + k) = entry_of (es ! k)" and first: "tbl ! i = entry_of e"
    using Cons.prems(3) by fastforce+
  have size: "length (e_data e) < 2 ^ 32" "\<forall>e\<in>set es. length (e_data e) < 2 ^ 32"
    using Cons.prems(2) by simp_all
  have room: "Suc i + length es \<le> length tbl" using Cons.prems(5) by simp
  have "native_memory w ! i = entry_of e" "i < length (native_memory w)"
    using Cons.prems(1,5) first by (simp_all add: serving_def)
  moreover have "runs (bindr (send_entry P (entry_of e) w) (\<lambda>w'. send_entries P (Suc i) (length es) w'))
      (\<lambda>w'. serving link w' inp (out @ bs) nm tbl)"
    apply (rule runs_bindr [OF send_entry_runs [OF Cons.prems(1) size(1) get(1)]])
    apply (drule Cons.IH [OF _ size(2) tbl get(2) room])
    apply (simp add: bs)
    done
  ultimately show ?case by simp
qed

lemma send_symbols_runs:
  assumes "serving link w inp out nm tbl" and "\<forall>(name, addr)\<in>set syms. length name < 2 ^ 31"
  shows "runs (send_symbols P syms w)
    (\<lambda>w'. serving link w' inp (out @ concat (map enc_symbol syms)) nm tbl)"
  using assms
proof (induction syms arbitrary: w out)
  case Nil
  then show ?case by simp
next
  case (Cons s syms)
  obtain name addr where s: "s = (name, addr)" by fastforce
  have len: "unat (of_nat (length name) :: u32) = length name"
    using Cons.prems(2) s by (simp add: unat_of_nat)
  have ext: "unat (scast (of_nat (length name) :: u32) :: u64) = length name"
    using Cons.prems(2) s by (simp add: unat_scast_u32)
  have rest: "\<forall>(name, addr)\<in>set syms. length name < 2 ^ 31" using Cons.prems(2) by simp
  show ?case
    unfolding s send_symbols.simps Let_def ext len enc32_def [symmetric] enc64_def [symmetric]
    apply (simp only: order_refl if_True)
    apply (rule runs_bindr [OF send_bytes_runs [OF Cons.prems(1)]])
    apply (drule send_bytes_runs, erule runs_bindr)
    apply (drule send_bytes_runs, erule runs_bindr)
    apply (drule Cons.IH [OF _ rest], erule runs_mono)
    apply (simp add: enc_symbol_def)
    done
qed

lemma get_symbol_table_runs:
  assumes "serving link w inp out nm tbl" and "wf_symbols syms"
  shows "runs (get_symbol_table P syms w)
    (\<lambda>w'. serving link w' inp (out @ enc32 (length syms) @ concat (map enc_symbol syms)) nm tbl)"
proof -
  have "unat (of_nat (length syms) :: u32) = length syms"
    using assms(2) by (simp add: wf_symbols_def unat_of_nat)
  then show ?thesis
    unfolding get_symbol_table_def enc32_def [symmetric]
    apply simp
    apply (rule runs_bindr [OF send_bytes_runs [OF assms(1)]])
    apply (drule send_symbols_runs [of _ _ _ _ _ syms])
    using assms(2) apply (simp add: wf_symbols_def)
    apply simp
    done
qed

lemma alloc_runs:
  assumes "serving link w (enc64 n @ rest) out nm tbl" and "alloc_memory P nm n = (p, nm')"
  shows "runs (alloc P w) (\<lambda>w'. serving link w' rest (out @ enc64 p) nm' tbl)"
  unfolding alloc_def enc64_def [symmetric]
proof (rule recv_var_bindr [OF assms(1)], goal_cases)
  case (2 w1)
  then have "alloc_memory P (nmem w1) n = (p, nm')" and
    "serving link (w1\<lparr>nmem := nm'\<rparr>) rest out nm' tbl"
    using assms(2) by (simp_all add: serving_def)
  with send_bytes_runs show ?case by simp
qed simp

lemma sync_read_runs:
  fixes n :: u32
  assumes "serving link w (enc64 a @ enc32 (unat n) @ rest) out nm tbl"
    and "nm_read nm a (unat (scast n :: u64)) = Inr bs"
  shows "runs (sync_read P w) (\<lambda>w'. serving link w' rest (out @ bs) nm tbl)"
  unfolding sync_read_def
proof (rule recv_var_bindr [OF assms(1)], goal_cases)
  case (2 w1)
  show ?case
    unfolding prod.case
  proof (rule recv_var_bindr [OF 2], goal_cases)
    case (2 w2)
    have "unat n < 2 ^ 32" using unat_u32_less [of n] by simp
    with send_native_runs [OF 2 assms(2)] show ?case by simp
  qed simp
qed simp

lemma invoke_runs:
  assumes "serving link w (enc64 t @ enc64 f @ enc64 r @ enc32 (length es) @
      concat (map enc_entry es) @ rest) out nm tbl"
    and "length es \<le> NATIVE_MEMORY_SIZE" and "length tbl = NATIVE_MEMORY_SIZE"
    and "\<forall>e\<in>set es. length (e_data e) < 2 ^ 32"
    and "put_entries es nm = Inr nm1" and "code t f r nm1 = Inr nm2" and "get_entries es nm2 = Inr bs"
  shows "runs (invoke P code w)
    (\<lambda>w'. serving link w' rest (out @ enc32 (length es) @ bs) nm2 (fill_table 0 es tbl))"
proof -
  have n: "length es < 2 ^ 32" using assms(2) by (simp add: NATIVE_MEMORY_SIZE_def)
  have table: "\<forall>k<length es. fill_table 0 es tbl ! (0 + k) = entry_of (es ! k)"
    and room: "0 + length es \<le> length tbl" "0 + length es \<le> length (fill_table 0 es tbl)"
    using assms(2,3) fill_table_nth [of _ es 0 tbl] by simp_all
  have finish: "runs (bindr (recv_entries P 0 (length es) (map Some (enc64 r), map Some (enc32 (length es)), w4))
      (\<lambda>(adr4, len4, w5).
       bindr (code t f r (nmem w5)) (\<lambda>nm'.
       bindr (send_bytes P (le_bytes 4 (length es)) (w5\<lparr>nmem := nm'\<rparr>)) (\<lambda>w6.
       send_entries P 0 (length es) w6))))
     (\<lambda>w'. serving link w' rest (out @ enc32 (length es) @ bs) nm2 (fill_table 0 es tbl))"
    if "serving link w4 (concat (map enc_entry es) @ rest) out nm tbl" for w4
  proof (rule runs_bindr [OF recv_entries_runs [OF that assms(4) _ _ assms(5) room(1)]], goal_cases)
    case (3 st)
    obtain adr4 len4 w5 where st: "st = (adr4, len4, w5)" by (cases st)
    with 3 have "nmem w5 = nm1" and
      "serving link (w5\<lparr>nmem := nm2\<rparr>) rest out nm2 (fill_table 0 es tbl)"
      by (simp_all add: serving_def)
    then show ?case
      using assms(6) unfolding st prod.case enc32_def [symmetric]
      apply simp
      apply (drule send_bytes_runs, erule runs_bindr)
      apply (drule send_entries_runs [OF _ assms(4) table assms(7) room(2)])
      apply simp
      done
  qed simp_all
  show ?thesis
    unfolding invoke_def
    apply (rule recv_var_bindr [OF assms(1)], simp)
    unfolding prod.case value_of_Some bindr_Inr of_enc64
    apply (erule recv_var_bindr, simp)
    unfolding prod.case value_of_Some bindr_Inr of_enc64
    apply (erule recv_var_bindr, simp)
    unfolding prod.case value_of_Some bindr_Inr of_enc64
    apply (erule recv_var_bindr, simp)
    unfolding prod.case value_of_Some bindr_Inr of_enc32 [OF n]
    using assms(2) finish by simp
qed

end

section \<open>The command loop under the contract\<close>

context platform_contract
begin

lemma server_pass_runs:
  assumes "serving link w (enc_request q @ rest) out nm tbl" and "wf_request q"
    and "wf_symbols syms" and "length tbl = NATIVE_MEMORY_SIZE"
    and "reply (alloc_memory P) code syms q nm = Inr (bs, nm')"
  shows "runs (server_pass P code syms w) (\<lambda>(exited, w'). \<not> exited \<and>
    (\<exists>tbl'. length tbl' = NATIVE_MEMORY_SIZE \<and> serving link w' rest (out @ bs) nm' tbl'))"
proof -
  obtain opc body where enc: "enc_request q = [opc] @ body" by (cases q) simp_all
  let ?R = "\<lambda>(exited, w'). \<not> exited \<and> (\<exists>tbl'. length tbl' = NATIVE_MEMORY_SIZE \<and>
      serving link w' rest (out @ bs) nm' tbl')"
  have handler: "runs (case cmd_of (unat opc) of
         Some INVOKE \<Rightarrow> bindr (invoke P code w1) (\<lambda>w2. Inr (False, w2))
       | Some GET_SYMBOL_TABLE \<Rightarrow> bindr (get_symbol_table P syms w1) (\<lambda>w2. Inr (False, w2))
       | Some ALLOC \<Rightarrow> bindr (alloc P w1) (\<lambda>w2. Inr (False, w2))
       | Some SYNC_READ \<Rightarrow> bindr (sync_read P w1) (\<lambda>w2. Inr (False, w2))
       | Some EXIT \<Rightarrow> bindr (send_bytes P [0] w1) (\<lambda>w2. Inr (True, w2))
       | None \<Rightarrow> Inl (error_handler P ''undefined command'')) ?R"
    if w1: "serving link w1 (body @ rest) out nm tbl" for w1
  proof (cases q)
    case (Invoke t f r es)
    with assms(2,5) obtain nm1 bs' where "put_entries es nm = Inr nm1" "code t f r nm1 = Inr nm'"
      "get_entries es nm' = Inr bs'" "bs = enc32 (length es) @ bs'" by (auto simp: bindr_eq_Inr)
    with invoke_runs [of w1 t f r es rest out nm tbl nm1 code nm' bs'] w1 assms(2,4) Invoke enc
    show ?thesis by (auto elim!: runs_mono intro!: exI [of _ "fill_table 0 es tbl"])
  next
    case GetSymbolTable
    with get_symbol_table_runs [OF w1 assms(3)] assms(4,5) enc show ?thesis
      by (auto elim!: runs_mono)
  next
    case (Alloc n)
    with alloc_runs [of w1 n rest out nm tbl] w1 assms(4,5) enc show ?thesis
      by (auto elim!: runs_mono split: prod.splits)
  next
    case (SyncRead a n)
    with sync_read_runs [of w1 a n rest out nm tbl bs] w1 assms(4,5) enc show ?thesis
      by (auto elim!: runs_mono simp: bindr_eq_Inr)
  qed
  have sv: "serving link w ([opc] @ body @ rest) out nm tbl" using assms(1) enc by simp
  show ?thesis
    unfolding server_pass_def
  proof (rule recv_var_bindr [OF sv], goal_cases)
    case (2 w1)
    have flush: "runs (case x of (ex, w2) \<Rightarrow>
        bindr (flush_message P (plat w2)) (\<lambda>s'. Inr (ex, w2\<lparr>plat := s'\<rparr>))) ?R" if "?R x" for x
      using that flush_keeps [of "plat (snd x)" rest "out @ bs"]
      by (cases x) (fastforce simp: serving_def)
    have "runs (bindr (case cmd_of (unat opc) of
         Some INVOKE \<Rightarrow> bindr (invoke P code w1) (\<lambda>w2. Inr (False, w2))
       | Some GET_SYMBOL_TABLE \<Rightarrow> bindr (get_symbol_table P syms w1) (\<lambda>w2. Inr (False, w2))
       | Some ALLOC \<Rightarrow> bindr (alloc P w1) (\<lambda>w2. Inr (False, w2))
       | Some SYNC_READ \<Rightarrow> bindr (sync_read P w1) (\<lambda>w2. Inr (False, w2))
       | Some EXIT \<Rightarrow> bindr (send_bytes P [0] w1) (\<lambda>w2. Inr (True, w2))
       | None \<Rightarrow> Inl (error_handler P ''undefined command''))
        (\<lambda>(ex, w2). bindr (flush_message P (plat w2)) (\<lambda>s'. Inr (ex, w2\<lparr>plat := s'\<rparr>)))) ?R"
      by (rule runs_bindr [OF handler [OF 2]]) (rule flush)
    then show ?case unfolding prod.case by (simp del: cmd_of.simps)
  qed simp
qed

lemma server_exit_runs:
  assumes "serving link w (4 # rest) out nm tbl"
  shows "runs (server_pass P code syms w)
    (\<lambda>(exited, w'). exited \<and> serving link w' rest (out @ [0]) nm tbl)"
proof -
  have sv: "serving link w ([4] @ rest) out nm tbl" using assms by simp
  show ?thesis
    unfolding server_pass_def
  proof (rule recv_var_bindr [OF sv], goal_cases)
    case (2 w1)
    from runsD [OF send_bytes_runs [OF this, of "[0]"]] obtain w2
      where w2: "send_bytes P [0] w1 = Inr w2" "serving link w2 rest (out @ [0]) nm tbl" by blast
    with flush_keeps [of "plat w2" rest "out @ [0]"] show ?case by (fastforce simp: serving_def)
  qed simp
qed

lemma server_loop_runs:
  assumes "serving link w (concat (map enc_request qs) @ 4 # rest) out nm tbl"
    and "\<forall>q\<in>set qs. wf_request q" and "wf_symbols syms" and "length tbl = NATIVE_MEMORY_SIZE"
    and "replies (alloc_memory P) code syms qs nm = Inr (bs, nm')" and "length qs < k"
  shows "\<exists>w' tbl'. server_loop k P code syms w = Some (Inr w') \<and>
    serving link w' rest (out @ bs @ [0]) nm' tbl'"
  using assms
proof (induction qs arbitrary: k w out nm tbl bs)
  case Nil
  then obtain j where "k = Suc j" by (cases k) auto
  with runsD [OF server_exit_runs [of w rest out nm tbl code syms]] Nil.prems show ?case by auto
next
  case (Cons q qs)
  from Cons.prems(6) obtain j where k: "k = Suc j" "length qs < j" by (cases k) auto
  from Cons.prems(5) obtain b1 nm1 b2 where
    r: "reply (alloc_memory P) code syms q nm = Inr (b1, nm1)"
      "replies (alloc_memory P) code syms qs nm1 = Inr (b2, nm')" and bs: "bs = b1 @ b2"
    by (auto simp: bindr_eq_Inr)
  have sv: "serving link w (enc_request q @ concat (map enc_request qs) @ 4 # rest) out nm tbl"
    and q: "wf_request q" and qs: "\<forall>q\<in>set qs. wf_request q" using Cons.prems by simp_all
  from runsD [OF server_pass_runs [OF sv q Cons.prems(3,4) r(1)]] obtain w1 tbl1
    where w1: "server_pass P code syms w = Inr (False, w1)" "length tbl1 = NATIVE_MEMORY_SIZE"
      "serving link w1 (concat (map enc_request qs) @ 4 # rest) (out @ b1) nm1 tbl1" by auto
  from Cons.IH [OF w1(3) qs Cons.prems(3) w1(2) r(2) k(2)] w1(1) show ?case
    by (simp add: k(1) bs)
qed

end

section \<open>Errors\<close>

context platform_contract
begin

lemma recv_var_stops:
  assumes "serving link w (bs @ rest) out nm tbl" and "length old = length bs"
    and "\<And>w'. serving link w' rest out nm tbl \<Longrightarrow> f (map Some bs, w') = Inl e"
  shows "bindr (recv_var P old w) f = Inl e"
  using runsD [OF recv_var_runs [OF assms(1,2)]] assms(3) by auto

lemma invoke_too_many:
  assumes "serving link w (enc64 t @ enc64 f @ enc64 r @ enc32 n @ rest) out nm tbl"
    and "n < 2 ^ 32" and "NATIVE_MEMORY_SIZE < n"
  shows "invoke P code w = Inl (error_handler P ''buffer too small to contain native memory'')"
  unfolding invoke_def
  apply (rule recv_var_stops [OF assms(1)], simp, unfold prod.case value_of_Some bindr_Inr)
  apply (erule recv_var_stops, simp, unfold prod.case value_of_Some bindr_Inr)
  apply (erule recv_var_stops, simp, unfold prod.case value_of_Some bindr_Inr)
  apply (erule recv_var_stops, simp)
  using assms(2,3) by simp

lemma undefined_command:
  assumes "serving link w (c # rest) out nm tbl" and "4 < c"
  shows "server_pass P code syms w = Inl (error_handler P ''undefined command'')"
proof -
  have "4 < unat c" using assms(2) by (simp add: word_less_nat_alt)
  moreover have "serving link w ([c] @ rest) out nm tbl" using assms(1) by simp
  ultimately show ?thesis
    unfolding server_pass_def by (elim recv_var_stops) simp_all
qed

end

text \<open>
  On stdio the end of the input is not an error of the stream: the opcode stays
  uninitialised, and the command loop goes on with an indeterminate value.
\<close>

lemma stdio_eof_indeterminate:
  assumes "read_file (plat w) = Some fr" and "rdata fr = []" and "\<not> rfails fr"
  shows "server_pass (stdio_platform calloc) code syms w = Inl IndeterminateValue"
  using assms
  by (simp add: server_pass_def recv_var_def stdio_platform_def c_recv_message_def fread_def
      fill_def uninit_def value_of_def)

section \<open>What a dirty entry may touch\<close>

definition writable_at :: "nmem \<Rightarrow> u64 \<Rightarrow> nat \<Rightarrow> bool" where
  "writable_at nm a n \<longleftrightarrow> (\<forall>k<n. \<exists>b. nm (a + of_nat k) = Some (b, True))"

lemma writable_at_Suc:
  "writable_at nm a (Suc n) \<longleftrightarrow> (\<exists>b. nm a = Some (b, True)) \<and> writable_at nm (a + 1) n"
  unfolding writable_at_def All_less_Suc2 by (simp add: add.assoc)

lemma writable_at_store: "writable_at nm a n \<Longrightarrow> writable_at (nm(p \<mapsto> (v, True))) a n"
  by (simp add: writable_at_def)

lemma nm_update_eq_write:
  "writable_at nm a (length bs) \<Longrightarrow> nm_update nm a bs = nm_write nm a bs"
proof (induction bs arbitrary: nm a)
  case Nil
  then show ?case by simp
next
  case (Cons v vs)
  then obtain b where b: "nm a = Some (b, True)" and vs: "writable_at nm (a + 1) (length vs)"
    by (auto simp: writable_at_Suc)
  have same: "nm(a \<mapsto> (v, True)) = nm" if "b = v" using b that by auto
  have "nm_update (nm(a \<mapsto> (v, True))) (a + 1) vs = nm_write (nm(a \<mapsto> (v, True))) (a + 1) vs"
    by (rule Cons.IH [OF writable_at_store [OF vs]])
  with b same show ?case by (auto simp: nm_load_def nm_store_def simp del: fun_upd_apply)
qed

lemma nm_write_total: "writable_at nm a (length bs) \<Longrightarrow> \<exists>nm'. nm_write nm a bs = Inr nm'"
proof (induction bs arbitrary: nm a)
  case Nil
  then show ?case by simp
next
  case (Cons v vs)
  then obtain b where b: "nm a = Some (b, True)" and vs: "writable_at nm (a + 1) (length vs)"
    by (auto simp: writable_at_Suc)
  from Cons.IH [OF writable_at_store [OF vs]] b show ?case
    by (simp add: nm_store_def del: fun_upd_apply)
qed

lemma nm_update_unchanged: "nm_read nm a (length bs) = Inr bs \<Longrightarrow> nm_update nm a bs = Inr nm"
  by (induction bs arbitrary: a) (auto simp: bindr_eq_Inr)

lemma nm_write_outside:
  "nm_write nm a bs = Inr nm' \<Longrightarrow> \<forall>k<length bs. p \<noteq> a + of_nat k \<Longrightarrow> nm' p = nm p"
proof (induction bs arbitrary: nm a)
  case Nil
  then show ?case by simp
next
  case (Cons v vs)
  from Cons.prems(1) obtain nm1 where st: "nm_store nm a v = Inr nm1" "nm_write nm1 (a + 1) vs = Inr nm'"
    by (auto simp: bindr_eq_Inr)
  have rest: "p \<noteq> a" "\<forall>k<length vs. p \<noteq> a + 1 + of_nat k"
    using Cons.prems(2) by (force simp: All_less_Suc2 add.assoc)+
  with Cons.IH [OF st(2)] st(1) show ?case
    by (auto simp: nm_store_def split: option.splits if_splits)
qed

lemma nm_read_write:
  assumes "nm_write nm a bs = Inr nm'" and "length bs \<le> 2 ^ 64"
  shows "nm_read nm' a (length bs) = Inr bs"
  using assms
proof (induction bs arbitrary: nm a)
  case Nil
  then show ?case by simp
next
  case (Cons v vs)
  from Cons.prems(1) obtain nm1 where st: "nm_store nm a v = Inr nm1" "nm_write nm1 (a + 1) vs = Inr nm'"
    by (auto simp: bindr_eq_Inr)
  have "a \<noteq> a + 1 + of_nat k" if "k < length vs" for k
  proof
    assume "a = a + 1 + of_nat k"
    then have "a + of_nat (Suc k) = a + 0" by (simp add: add.assoc)
    then have "of_nat (Suc k) = (0 :: u64)" by (simp only: add_left_cancel)
    then have "2 ^ LENGTH(64) dvd Suc k" by (simp only: word_of_nat_eq_0_iff)
    with that Cons.prems(2) show False by (auto dest: dvd_imp_le)
  qed
  with nm_write_outside [OF st(2)] have "nm' a = nm1 a" by blast
  moreover have "nm1 a = Some (v, True)"
    using st(1) by (auto simp: nm_store_def split: option.splits if_splits)
  ultimately show ?case using Cons.IH [OF st(2)] Cons.prems(2) by (simp add: nm_load_def)
qed

section \<open>Entries of one request\<close>

definition footprint :: "entry \<Rightarrow> u64 set" where
  "footprint e = (\<lambda>k. e_addr e + of_nat k) ` {..<length (e_data e)}"

fun disjoint_entries :: "entry list \<Rightarrow> bool" where
  "disjoint_entries [] \<longleftrightarrow> True"
| "disjoint_entries (e # es) \<longleftrightarrow>
     (\<forall>f\<in>set es. footprint e \<inter> footprint f = {}) \<and> disjoint_entries es"

definition writable_entries :: "nmem \<Rightarrow> entry list \<Rightarrow> bool" where
  "writable_entries nm es \<longleftrightarrow> (\<forall>e\<in>set es. writable_at nm (e_addr e) (length (e_data e)))"

lemma nm_write_writable:
  "nm_write nm a bs = Inr nm' \<Longrightarrow> writable_at nm p n \<Longrightarrow> writable_at nm' p n"
proof (induction bs arbitrary: nm a)
  case Nil
  then show ?case by simp
next
  case (Cons v vs)
  from Cons.prems(1) obtain nm1 where st: "nm_store nm a v = Inr nm1" "nm_write nm1 (a + 1) vs = Inr nm'"
    by (auto simp: bindr_eq_Inr)
  have "writable_at nm1 p n"
    using st(1) Cons.prems(2) writable_at_store [of nm p n a v]
    by (auto simp: nm_store_def split: option.splits if_splits)
  with Cons.IH [OF st(2)] show ?case by blast
qed

lemma put_entry_writable:
  "writable_at nm (e_addr e) (length (e_data e)) \<Longrightarrow>
   put_entry e nm = nm_write nm (e_addr e) (e_data e)"
  by (simp add: put_entry_def nm_update_eq_write)

lemma put_entries_writable:
  assumes "writable_entries nm es"
  shows "\<exists>nm'. put_entries es nm = Inr nm' \<and>
    (\<forall>p. (\<forall>e\<in>set es. p \<notin> footprint e) \<longrightarrow> nm' p = nm p)"
  using assms
proof (induction es arbitrary: nm)
  case Nil
  then show ?case by simp
next
  case (Cons e es)
  then have e: "writable_at nm (e_addr e) (length (e_data e))" and "writable_entries nm es"
    by (simp_all add: writable_entries_def)
  moreover obtain nm1 where nm1: "nm_write nm (e_addr e) (e_data e) = Inr nm1"
    using nm_write_total [OF e] by blast
  ultimately have "writable_entries nm1 es" by (auto simp: writable_entries_def intro: nm_write_writable)
  from Cons.IH [OF this] nm1 e nm_write_outside [OF nm1] show ?case
    by (fastforce simp: put_entry_writable footprint_def)
qed

lemma nm_read_cong:
  "\<forall>k<n. nm' (a + of_nat k) = nm (a + of_nat k) \<Longrightarrow> nm_read nm' a n = nm_read nm a n"
proof (induction n arbitrary: a)
  case 0
  then show ?case by simp
next
  case (Suc n)
  from Suc.prems have "nm' a = nm a" and "\<forall>k<n. nm' (a + 1 + of_nat k) = nm (a + 1 + of_nat k)"
    unfolding All_less_Suc2 by (simp_all add: add.assoc)
  with Suc.IH [of "a + 1"] show ?case by (simp add: nm_load_def)
qed

lemma nm_read_footprint:
  "\<forall>p\<in>footprint e. nm' p = nm p \<Longrightarrow>
   nm_read nm' (e_addr e) (length (e_data e)) = nm_read nm (e_addr e) (length (e_data e))"
  by (rule nm_read_cong) (simp add: footprint_def)

text \<open>Disjoint entries are all in memory once they are all received.\<close>

lemma put_entries_read:
  assumes "writable_entries nm es" and "disjoint_entries es"
    and "\<forall>e\<in>set es. length (e_data e) < 2 ^ 32" and "put_entries es nm = Inr nm'"
  shows "\<forall>e\<in>set es. nm_read nm' (e_addr e) (length (e_data e)) = Inr (e_data e)"
  using assms
proof (induction es arbitrary: nm)
  case Nil
  then show ?case by simp
next
  case (Cons e es)
  then have e: "writable_at nm (e_addr e) (length (e_data e))" and "writable_entries nm es"
    by (simp_all add: writable_entries_def)
  with Cons.prems(4) obtain nm1 where nm1: "nm_write nm (e_addr e) (e_data e) = Inr nm1"
    and rest: "put_entries es nm1 = Inr nm'" by (auto simp: put_entry_writable bindr_eq_Inr)
  have w1: "writable_entries nm1 es"
    using \<open>writable_entries nm es\<close> nm1 by (auto simp: writable_entries_def intro: nm_write_writable)
  have "\<forall>p\<in>footprint e. nm' p = nm1 p"
    using put_entries_writable [OF w1] rest Cons.prems(2) by auto
  moreover have "nm_read nm1 (e_addr e) (length (e_data e)) = Inr (e_data e)"
    using nm1 Cons.prems(3) by (intro nm_read_write) auto
  ultimately have "nm_read nm' (e_addr e) (length (e_data e)) = Inr (e_data e)"
    by (simp only: nm_read_footprint)
  with Cons.IH [OF w1 _ _ rest] Cons.prems(2,3) show ?case by simp
qed

definition enc_back :: "entry \<Rightarrow> u8 list" where
  "enc_back e = enc32 (length (e_data e)) @ e_data e @ enc64 (e_addr e)"

lemma get_entries_back:
  "\<forall>e\<in>set es. nm_read nm (e_addr e) (length (e_data e)) = Inr (e_data e) \<Longrightarrow>
   get_entries es nm = Inr (concat (map enc_back es))"
  by (induction es) (auto simp: enc_back_def)

section \<open>A session on stdio\<close>

text \<open>The files that a session is started with: nothing received yet, nothing sent.\<close>

definition session_files :: "files \<Rightarrow> string \<Rightarrow> string \<Rightarrow> u8 list \<Rightarrow> bool" where
  "session_files s read_path write_path inp \<longleftrightarrow>
     (\<exists>fr fw. open_r s read_path = Some fr \<and> open_w s write_path = Some fw \<and>
        rdata fr = inp \<and> rcloses fr \<and>
        wdata fw = [] \<and> wroom fw = None \<and> wflushes fw \<and> wcloses fw)"

lemma session_init:
  "session_files s rp wp inp \<Longrightarrow>
   \<exists>s'. init_messages (stdio_platform calloc) rp wp s = Inr s' \<and> stdio_link s' inp []"
  by (auto simp: session_files_def stdio_platform_def c_init_messages_def stdio_link_def)

lemma stdio_session:
  assumes "session_files (plat w) rp wp (concat (map enc_request qs) @ 4 # rest)"
    and "length (native_memory w) = NATIVE_MEMORY_SIZE" and "length (dirty_buffer w) = dirty_size"
    and "\<forall>q\<in>set qs. wf_request q" and "wf_symbols syms"
    and "replies (\<lambda>nm n. calloc nm 1 n) code syms qs (nmem w) = Inr (bs, nm')" and "length qs < k"
  shows "\<exists>w' fw. server k (stdio_platform calloc) code syms rp wp w = Some (Inr w') \<and>
    nmem w' = nm' \<and> write_file (plat w') = Some fw \<and> wdata fw = bs @ [0]"
proof -
  let ?P = "stdio_platform calloc"
  obtain s where s: "init_messages ?P rp wp (plat w) = Inr s"
    "stdio_link s (concat (map enc_request qs) @ 4 # rest) []"
    using session_init [OF assms(1)] by blast
  have sv: "serving stdio_link (w\<lparr>plat := s\<rparr>) (concat (map enc_request qs) @ 4 # rest) [] (nmem w)
    (native_memory w)" using s(2) assms(3) by (simp add: serving_def)
  have rep: "replies (alloc_memory ?P) code syms qs (nmem w) = Inr (bs, nm')"
    using assms(6) by (simp add: stdio_platform_def c_alloc_def [abs_def])
  obtain w' tbl' where w': "server_loop k ?P code syms (w\<lparr>plat := s\<rparr>) = Some (Inr w')"
    "serving stdio_link w' rest ([] @ bs @ [0]) nm' tbl'"
    using stdio.server_loop_runs [OF sv assms(4,5,2) rep assms(7)] by blast
  have link: "stdio_link (plat w') rest (bs @ [0])" and "nmem w' = nm'"
    using w'(2) by (simp_all add: serving_def)
  with stdio.deinit_keeps [OF link, of calloc] s(1) w'(1) show ?thesis
    by (auto simp: server_def stdio_link_def)
qed

section \<open>Properties\<close>

text \<open>The streams of a session for the examples: the bytes to receive, and an empty reply.\<close>

definition demo_r :: "u8 list \<Rightarrow> rfile" where
  "demo_r inp = \<lparr>rdata = inp, rfails = False, rcloses = True\<rparr>"

definition demo_w :: wfile where
  "demo_w = \<lparr>wdata = [], wflushed = 0, wroom = None, wflushes = True, wcloses = True\<rparr>"

definition demo_server :: "u8 list \<Rightarrow> nmem \<Rightarrow> files server" where
  "demo_server inp nm = \<lparr>plat = \<lparr>open_w = (\<lambda>_. Some demo_w), open_r = (\<lambda>_. Some (demo_r inp)),
       write_file = Some demo_w, read_file = Some (demo_r inp)\<rparr>,
     nmem = nm, native_memory = replicate NATIVE_MEMORY_SIZE \<lparr>address = 0, size_of = 0\<rparr>,
     dirty_buffer = replicate dirty_size 0\<rparr>"

lemma demo_serving:
  "serving stdio_link (demo_server inp nm) inp [] nm
     (replicate NATIVE_MEMORY_SIZE \<lparr>address = 0, size_of = 0\<rparr>)"
  by (simp add: demo_server_def demo_r_def demo_w_def serving_def stdio_link_def)

lemma demo_session: "session_files (plat (demo_server inp nm)) rp wp inp"
  by (simp add: demo_server_def demo_r_def demo_w_def session_files_def)

lemma demo_sizes:
  "length (native_memory (demo_server inp nm)) = NATIVE_MEMORY_SIZE"
  "length (dirty_buffer (demo_server inp nm)) = dirty_size"
  "nmem (demo_server inp nm) = nm"
  by (simp_all add: demo_server_def)

text \<open>
  C4: a session of the native server (\<open>__server\<close>, server.c, on platform.c): when the
  client sends a sequence of well-formed requests and then the exit command, and every request
  can be answered, the server stops, what it has written is the replies in the order of the
  requests followed by the reply to the exit command, and the native memory is the one the
  requests leave.
\<close>

theorem server_session:
  assumes "session_files (plat w) rp wp (concat (map enc_request qs) @ 4 # rest)"
    and "length (native_memory w) = NATIVE_MEMORY_SIZE" and "length (dirty_buffer w) = dirty_size"
    and "\<forall>q\<in>set qs. wf_request q" and "wf_symbols syms"
    and "replies (\<lambda>nm n. calloc nm 1 n) code syms qs (nmem w) = Inr (bs, nm')" and "length qs < k"
  shows "\<exists>w' fw. server k (stdio_platform calloc) code syms rp wp w = Some (Inr w') \<and>
    nmem w' = nm' \<and> write_file (plat w') = Some fw \<and> wdata fw = bs @ [0]"
  using assms by (rule stdio_session)

theorem server_session_witness:
  "\<exists>w' fw. server 3 (stdio_platform (\<lambda>nm c n. (16, nm)))
      (\<lambda>t f r nm. Inr (nm(r \<mapsto> (99, True)))) [] ''r'' ''w''
      (demo_server (concat (map enc_request
        [Invoke 1 2 3 [\<lparr>e_addr = 3, e_dirty = 0, e_data = [7, 8]\<rparr>], GetSymbolTable]) @ 4 # [])
        [3 \<mapsto> (0, True), 4 \<mapsto> (0, True)]) = Some (Inr w') \<and>
    nmem w' = [3 \<mapsto> (99, True), 4 \<mapsto> (8, True)] \<and> write_file (plat w') = Some fw \<and>
    wdata fw = [1, 0, 0, 0, 2, 0, 0, 0, 99, 8, 3, 0, 0, 0, 0, 0, 0, 0, 0, 0, 0, 0, 0]"
proof -
  let ?qs = "[Invoke 1 2 3 [\<lparr>e_addr = 3, e_dirty = 0, e_data = [7, 8]\<rparr>], GetSymbolTable]"
  let ?nm = "[3 \<mapsto> (0, True), 4 \<mapsto> (0, True)] :: nmem"
  let ?code = "\<lambda>t f r nm. Inr (nm(r \<mapsto> (99, True)))"
  let ?w = "demo_server (concat (map enc_request ?qs) @ 4 # []) ?nm"
  let ?out = "[1, 0, 0, 0, 2, 0, 0, 0, 99, 8, 3, 0, 0, 0, 0, 0, 0, 0, 0, 0, 0, 0] :: u8 list"
  have wfq: "\<forall>q\<in>set ?qs. wf_request q" by (simp add: NATIVE_MEMORY_SIZE_def)
  have syms: "wf_symbols []" by (simp add: wf_symbols_def)
  have enc: "enc32 (Suc 0) = [1, 0, 0, 0]" "enc32 (Suc (Suc 0)) = [2, 0, 0, 0]" "enc32 0 = [0, 0, 0, 0]"
    "enc64 3 = [3, 0, 0, 0, 0, 0, 0, 0]" by code_simp+
  have rep: "replies (\<lambda>nm n. (16, nm)) ?code [] ?qs (nmem ?w) =
      Inr (?out, [3 \<mapsto> (99, True), 4 \<mapsto> (8, True)])"
    unfolding demo_sizes by (simp add: put_entry_def nm_store_def nm_load_def enc fun_upd_twist)
  have "length ?qs < 3" by simp
  from server_session [OF demo_session demo_sizes(1,2) wfq syms rep this, of "''r''" "''w''"]
  show ?thesis by (simp only: append_Cons append_Nil)
qed

lemma demo_writable: "writable_at (\<lambda>_. Some (b, True)) a n"
  by (simp add: writable_at_def)

text \<open>
  A dirty region of any length (the \<open>while\<close> loop of \<open>invoke\<close>, server.c) goes
  through the buffer of 8192 bytes piece by piece: exactly its bytes are received, and the
  native memory ends up with them at the region's address.
\<close>

lemma chunked_receive:
  assumes "serving stdio_link w (bs @ rest) out nm tbl" and "writable_at nm a (length bs)"
  shows "\<exists>w' nm'. recv_chunks (stdio_platform calloc) a (length bs) w = Inr w' \<and>
    nm_write nm a bs = Inr nm' \<and> serving stdio_link w' rest out nm' tbl"
proof -
  obtain nm' where nm': "nm_write nm a bs = Inr nm'" using nm_write_total [OF assms(2)] by blast
  then have "nm_update nm a bs = Inr nm'" using assms(2) by (simp add: nm_update_eq_write)
  from runsD [OF stdio.recv_chunks_runs [OF assms(1) this]] nm' show ?thesis by blast
qed

text \<open>
  \<open>write_dirty\<close> (server.c) on memory that may be written has the effect of copying the first
  \<open>len\<close> bytes of the buffer, although it skips the bytes that are already there; and memory
  that holds the bytes of the buffer is never written, so that a region that may only be
  read is accepted as long as its contents are unchanged.
\<close>

lemma write_dirty_copies:
  assumes "length bs \<le> dirty_size" and "length (dirty_buffer w) = dirty_size"
    and "take (length bs) (dirty_buffer w) = bs"
  shows "(writable_at (nmem w) a (length bs) \<longrightarrow> (\<exists>nm'. nm_write (nmem w) a bs = Inr nm' \<and>
      write_dirty a (to_short (length bs)) w = Inr (w\<lparr>nmem := nm'\<rparr>))) \<and>
    (nm_read (nmem w) a (length bs) = Inr bs \<longrightarrow> write_dirty a (to_short (length bs)) w = Inr w)"
  using nm_write_total [of "nmem w" a bs] nm_update_eq_write [of "nmem w" a bs]
    nm_update_unchanged [of "nmem w" a bs] write_dirty_update [OF assms, of a]
  by auto

text \<open>
  A round trip through \<open>invoke\<close> (server.c): the regions of a request that do not
  overlap and that the native code leaves alone come back as they were sent, dirty or not, each
  with its length and address, in the order of the request.
\<close>

lemma invoke_echoes:
  assumes "serving stdio_link w (enc64 t @ enc64 f @ enc64 r @ enc32 (length es) @
      concat (map enc_entry es) @ rest) out nm tbl"
    and "length es \<le> NATIVE_MEMORY_SIZE" and "length tbl = NATIVE_MEMORY_SIZE"
    and "\<forall>e\<in>set es. length (e_data e) < 2 ^ 32" and "disjoint_entries es" and "writable_entries nm es"
    and "\<And>nm1. \<exists>nm2. code t f r nm1 = Inr nm2 \<and> (\<forall>e\<in>set es. \<forall>p\<in>footprint e. nm2 p = nm1 p)"
  shows "\<exists>w' nm' tbl'. invoke (stdio_platform calloc) code w = Inr w' \<and>
    serving stdio_link w' rest (out @ enc32 (length es) @ concat (map enc_back es)) nm' tbl'"
proof -
  obtain nm1 where nm1: "put_entries es nm = Inr nm1" using put_entries_writable [OF assms(6)] by blast
  obtain nm2 where nm2: "code t f r nm1 = Inr nm2" "\<forall>e\<in>set es. \<forall>p\<in>footprint e. nm2 p = nm1 p"
    using assms(7) by blast
  have "get_entries es nm2 = Inr (concat (map enc_back es))"
    using put_entries_read [OF assms(6,5,4) nm1] nm2(2) nm_read_footprint
    by (intro get_entries_back) fastforce
  from runsD [OF stdio.invoke_runs [where code = code, OF assms(1-4) nm1 nm2(1) this]] show ?thesis by blast
qed

text \<open>
  Malformed requests stop the server with an error: one with more regions than
  \<open>native_memory\<close> has entries before any region is read (\<open>invoke\<close>, server.c), and a command that is
  none of \<open>__cmd_t\<close> (\<open>__server\<close>, server.c).
\<close>

lemma malformed_requests_abort:
  "(serving stdio_link w (enc64 t @ enc64 f @ enc64 r @ enc32 n @ rest) out nm tbl \<and>
     n < 2 ^ 32 \<and> NATIVE_MEMORY_SIZE < n \<longrightarrow>
     invoke (stdio_platform calloc) code w = Inl (Aborted ''buffer too small to contain native memory'')) \<and>
   (serving stdio_link w (c # rest) out nm tbl \<and> 4 < c \<longrightarrow>
     server_loop (Suc k) (stdio_platform calloc) code syms w = Some (Inl (Aborted ''undefined command'')))"
  using stdio.invoke_too_many [of w t f r n rest out nm tbl calloc code]
    stdio.undefined_command [of w c rest out nm tbl calloc code syms]
  by (simp add: stdio_platform_def c_error_def)

text \<open>
  C38: when the client closes the pipe without the exit command, \<open>__recv_message\<close>
  (platform.c) reports nothing, and the server goes on with an opcode that was never written.
\<close>

theorem eof_is_indeterminate:
  assumes "read_file (plat w) = Some fr" and "rdata fr = []" and "\<not> rfails fr"
  shows "server_loop (Suc k) (stdio_platform calloc) code syms w = Some (Inl IndeterminateValue)"
  using stdio_eof_indeterminate [OF assms, of calloc code syms] by simp

theorem eof_is_indeterminate_witness:
  "server_loop (Suc 0) (stdio_platform (\<lambda>nm c n. (16, nm))) (\<lambda>t f r nm. Inr nm) []
     (demo_server [] Map.empty) = Some (Inl IndeterminateValue)"
  by (rule eof_is_indeterminate [of _ "demo_r []"]) (simp_all add: demo_server_def demo_r_def)

end
