(* ===== verification/ServerRefine.thy ===== *)
theory ServerRefine
  imports ServerSpec
begin

text \<open>
  The command loop of the native server as the implementation of an abstract machine that knows
  requests and replies, and neither bytes nor streams. The handlers were shown to answer
  every request that has a reply; here they are shown to stop with the error of a request that
  has none, so that a pass of the loop and a step of the machine agree on every outcome.
\<close>

section \<open>The abstract machine\<close>

text \<open>
  The requests that the client will still send before it sends the exit command, what was
  replied so far, and the native memory; or the end of the session, or the error that
  ended the process.
\<close>

datatype machine =
    Running "request list" "u8 list" nmem
  | Stopped "u8 list" nmem
  | Failed nerr

inductive machine_step ::
  "(nmem \<Rightarrow> u64 \<Rightarrow> u64 \<times> nmem) \<Rightarrow> native_code \<Rightarrow> symbol_t list \<Rightarrow> machine \<Rightarrow> machine \<Rightarrow> bool"
  for al code syms where
  answer: "reply al code syms q nm = Inr (bs, nm') \<Longrightarrow>
     machine_step al code syms (Running (q # qs) out nm) (Running qs (out @ bs) nm')"
| fail: "reply al code syms q nm = Inl e \<Longrightarrow>
     machine_step al code syms (Running (q # qs) out nm) (Failed e)"
| leave: "machine_step al code syms (Running [] out nm) (Stopped (out @ [0]) nm)"

inductive_cases answerE: "machine_step al code syms (Running (q # qs) out nm) A"
inductive_cases leaveE: "machine_step al code syms (Running [] out nm) A"

inductive_simps machine_step_Cons: "machine_step al code syms (Running (q # qs) out nm) A"
inductive_simps machine_step_Nil: "machine_step al code syms (Running [] out nm) A"
inductive_simps machine_step_Stopped: "machine_step al code syms (Stopped out nm) A"
inductive_simps machine_step_Failed: "machine_step al code syms (Failed e) A"

lemma machine_deterministic:
  "machine_step al code syms A B \<Longrightarrow> machine_step al code syms A C \<Longrightarrow> B = C"
  by (induction rule: machine_step.induct) (auto simp: machine_step_Cons machine_step_Nil)

lemma machine_progress: "\<exists>A. machine_step al code syms (Running qs out nm) A"
proof (cases qs)
  case (Cons q qs')
  then show ?thesis by (cases "reply al code syms q nm") (auto simp: machine_step_Cons)
qed (auto simp: machine_step_Nil)

section \<open>Handlers that stop\<close>

lemma runs_stops: "runs r R \<Longrightarrow> (\<And>a. R a \<Longrightarrow> f a = Inl e) \<Longrightarrow> bindr r f = Inl e"
  by (auto simp: runs_def split: sum.splits)

context platform_contract
begin

lemma recv_native_stops:
  assumes "serving link w (bs @ rest) out nm tbl" and "nm_write nm a bs = Inl e"
  shows "recv_native P a (length bs) w = Inl e"
  unfolding recv_native_def
  by (rule runs_stops [OF recv_message_runs [of _ bs rest out]]) (use assms in \<open>auto simp: serving_def\<close>)

lemma chunk_stops:
  assumes "serving link w (bs @ rest) out nm tbl" and "length bs \<le> dirty_size"
    and "nm_update nm a bs = Inl e"
  shows "bindr (recv_dirty P (length bs) w) (\<lambda>w1. write_dirty a (to_short (length bs)) w1) = Inl e"
  by (rule runs_stops [OF recv_dirty_runs [OF assms(1,2)]])
     (use assms in \<open>auto simp: write_dirty_update serving_def\<close>)

lemma recv_chunks_stops:
  assumes "serving link w (bs @ rest) out nm tbl" and "nm_update nm a bs = Inl e"
  shows "recv_chunks P a (length bs) w = Inl e"
  using assms
proof (induction bs arbitrary: w nm a rule: length_induct)
  case (1 bs)
  show ?case
  proof (cases "length bs > dirty_size")
    case False
    with chunk_stops [OF "1.prems"(1) _ "1.prems"(2)] show ?thesis
      by (simp add: recv_chunks.simps [of P a])
  next
    case True
    define xs ys where "xs = take dirty_size bs" and "ys = drop dirty_size bs"
    then have bs: "bs = xs @ ys" and xs: "length xs = dirty_size"
      and ys: "length ys = length bs - dirty_size" using True by simp_all
    have shorter: "length ys < length bs" using True ys by (simp add: dirty_size_def)
    have sv: "serving link w (xs @ ys @ rest) out nm tbl" using "1.prems"(1) bs by simp
    have split: "recv_chunks P a (length bs) w = bindr (bindr (recv_dirty P (length xs) w)
          (\<lambda>w1. write_dirty a (to_short (length xs)) w1))
        (\<lambda>w2. recv_chunks P (a + of_nat dirty_size) (length ys) w2)"
      using True ys by (simp add: recv_chunks.simps [of P a "length bs"] bindr_assoc xs)
    from "1.prems"(2) consider "nm_update nm a xs = Inl e"
      | nm1 where "nm_update nm a xs = Inr nm1" "nm_update nm1 (a + of_nat dirty_size) ys = Inl e"
      by (auto simp: bs nm_update_append bindr_eq_Inl xs)
    then show ?thesis
    proof cases
      case 1
      with chunk_stops [OF sv] xs show ?thesis unfolding split by simp
    next
      case 2
      show ?thesis unfolding split
        by (rule runs_stops [OF chunk_runs [OF sv _ 2(1)]])
          (use "1.IH" [rule_format, OF shorter _ 2(2)] xs in auto)
    qed
  qed
qed

lemma recv_entry_stops:
  assumes "serving link w (enc_entry e @ rest) out nm tbl" and "length (e_data e) < 2 ^ 32"
    and "length adr = 8" and "length len = 4" and "put_entry e nm = Inl err" and "i < length tbl"
  shows "recv_entry P i (adr, len, w) = Inl err"
proof -
  have data: "(if unat (e_dirty e) \<noteq> 0
        then recv_chunks P (e_addr e) (length (e_data e)) (set_native_memory i (entry_of e) w3)
        else recv_native P (e_addr e) (length (e_data e)) (set_native_memory i (entry_of e) w3)) = Inl err"
    if "serving link w3 (e_data e @ rest) out nm tbl" for w3
    using assms(5) recv_chunks_stops [OF serving_set_native_memory [OF that]]
      recv_native_stops [OF serving_set_native_memory [OF that]]
    by (auto simp: put_entry_def unat_eq_zero split: if_splits)
  have "serving link w (enc64 (e_addr e) @ [e_dirty e] @ enc32 (length (e_data e)) @ e_data e @ rest) out nm tbl"
    using assms(1) by (simp add: enc_entry_def)
  then show ?thesis
    unfolding recv_entry_def prod.case
    apply (rule recv_var_stops)
     apply (simp add: assms(3))
    unfolding prod.case value_of_Some bindr_Inr of_enc64
    apply (subst if_not_P, use assms(6) in \<open>simp add: serving_def\<close>)
    apply (erule recv_var_stops)
     apply simp
    unfolding prod.case
    apply (erule recv_var_stops)
     apply (simp add: assms(4))
    apply (drule data)
    using assms(2) by (simp add: Let_def entry_of_def split: if_splits)
qed

lemma recv_entries_stops:
  assumes "serving link w (concat (map enc_entry es) @ rest) out nm tbl"
    and "\<forall>e\<in>set es. length (e_data e) < 2 ^ 32"
    and "length adr = 8" and "length len = 4" and "put_entries es nm = Inl err"
    and "i + length es \<le> length tbl"
  shows "recv_entries P i (length es) (adr, len, w) = Inl err"
  using assms
proof (induction es arbitrary: i w nm tbl adr len)
  case (Cons e es)
  have sv: "serving link w (enc_entry e @ concat (map enc_entry es) @ rest) out nm tbl"
    and size: "length (e_data e) < 2 ^ 32" "\<forall>e\<in>set es. length (e_data e) < 2 ^ 32"
    and room: "i < length tbl" "Suc i + length es \<le> length (tbl[i := entry_of e])"
    using Cons.prems by simp_all
  from Cons.prems(5) consider "put_entry e nm = Inl err"
    | nm1 where "put_entry e nm = Inr nm1" "put_entries es nm1 = Inl err" by (auto simp: bindr_eq_Inl)
  then show ?case
  proof cases
    case 1
    with recv_entry_stops [OF sv size(1) Cons.prems(3,4) _ room(1)] show ?thesis by simp
  next
    case 2
    have "bindr (recv_entry P i (adr, len, w)) (\<lambda>st'. recv_entries P (Suc i) (length es) st') = Inl err"
      by (rule runs_stops [OF recv_entry_runs [OF sv size(1) Cons.prems(3,4) 2(1) room(1)]])
         (use Cons.IH [OF _ size(2) _ _ 2(2) room(2)] in fast)
    then show ?thesis by simp
  qed
qed simp

end

context platform_contract
begin

lemma send_entry_stops:
  assumes "serving link w inp out nm tbl" and "length (e_data e) < 2 ^ 32"
    and "nm_read nm (e_addr e) (length (e_data e)) = Inl err"
  shows "send_entry P (entry_of e) w = Inl err"
proof -
  have len: "unat (ucast (size_of (entry_of e)) :: u32) = length (e_data e)"
    using assms(2) by (simp add: entry_of_def unat_of_nat unsigned_ucast_eq take_bit_eq_mod)
  show ?thesis
    unfolding send_entry_def Let_def len
    by (rule runs_stops [OF send_bytes_runs [OF assms(1)]])
      (use assms(3) in \<open>simp add: send_native_def serving_def entry_of_def\<close>)
qed

lemma send_entries_stops:
  assumes "serving link w inp out nm tbl"
    and "\<forall>e\<in>set es. length (e_data e) < 2 ^ 32"
    and "\<forall>k<length es. tbl ! (i + k) = entry_of (es ! k)"
    and "get_entries es nm = Inl err" and "i + length es \<le> length tbl"
  shows "send_entries P i (length es) w = Inl err"
  using assms
proof (induction es arbitrary: i w out)
  case (Cons e es)
  have tbl: "\<forall>k<length es. tbl ! (Suc i + k) = entry_of (es ! k)" and first: "tbl ! i = entry_of e"
    using Cons.prems(3) by fastforce+
  have size: "length (e_data e) < 2 ^ 32" "\<forall>e\<in>set es. length (e_data e) < 2 ^ 32"
    using Cons.prems(2) by simp_all
  have room: "Suc i + length es \<le> length tbl" using Cons.prems(5) by simp
  have entry: "native_memory w ! i = entry_of e" "i < length (native_memory w)"
    using Cons.prems(1,5) first by (simp_all add: serving_def)
  from Cons.prems(4) consider "nm_read nm (e_addr e) (length (e_data e)) = Inl err"
    | cs where "nm_read nm (e_addr e) (length (e_data e)) = Inr cs" "get_entries es nm = Inl err"
    by (auto simp: bindr_eq_Inl)
  then show ?case
  proof cases
    case 1
    with send_entry_stops [OF Cons.prems(1) size(1)] entry show ?thesis by simp
  next
    case 2
    have "bindr (send_entry P (entry_of e) w) (\<lambda>w'. send_entries P (Suc i) (length es) w') = Inl err"
      by (rule runs_stops [OF send_entry_runs [OF Cons.prems(1) size(1) 2(1)]])
        (rule Cons.IH [OF _ size(2) tbl 2(2) room])
    then show ?thesis using entry by simp
  qed
qed simp

lemma sync_read_stops:
  fixes n :: u32
  assumes "serving link w (enc64 a @ enc32 (unat n) @ rest) out nm tbl"
    and "nm_read nm a (unat (scast n :: u64)) = Inl e"
  shows "sync_read P w = Inl e"
proof -
  have n: "unat n < 2 ^ 32" using unat_u32_less [of n] by simp
  show ?thesis
    unfolding sync_read_def
    apply (rule recv_var_stops [OF assms(1)], simp)
    unfolding prod.case
    apply (erule recv_var_stops, simp)
    using n assms(2) by (simp add: send_native_def serving_def)
qed

lemma invoke_stops:
  assumes "serving link w (enc64 t @ enc64 f @ enc64 r @ enc32 (length es) @
      concat (map enc_entry es) @ rest) out nm tbl"
    and "length es \<le> NATIVE_MEMORY_SIZE" and "length tbl = NATIVE_MEMORY_SIZE"
    and "\<forall>e\<in>set es. length (e_data e) < 2 ^ 32"
    and "reply al code syms (Invoke t f r es) nm = Inl e"
  shows "invoke P code w = Inl e"
proof -
  have n: "length es < 2 ^ 32" using assms(2) by (simp add: NATIVE_MEMORY_SIZE_def)
  have table: "\<forall>k<length es. fill_table 0 es tbl ! (0 + k) = entry_of (es ! k)"
    and room: "0 + length es \<le> length tbl" "0 + length es \<le> length (fill_table 0 es tbl)"
    using assms(2,3) fill_table_nth [of _ es 0 tbl] by simp_all
  have sent: "bindr (send_bytes P (le_bytes 4 (length es)) w5) (\<lambda>w6. send_entries P 0 (length es) w6) = Inl e"
    if "serving link w5 rest out nm2 (fill_table 0 es tbl)" "get_entries es nm2 = Inl e" for w5 nm2
    by (rule runs_stops [OF send_bytes_runs [OF that(1)]]) (rule send_entries_stops [OF _ assms(4) table that(2) room(2)])
  have finish: "bindr (recv_entries P 0 (length es) (map Some (enc64 r), map Some (enc32 (length es)), w4))
      (\<lambda>(adr4, len4, w5).
       bindr (code t f r (nmem w5)) (\<lambda>nm'.
       bindr (send_bytes P (le_bytes 4 (length es)) (w5\<lparr>nmem := nm'\<rparr>)) (\<lambda>w6.
       send_entries P 0 (length es) w6))) = Inl e"
    if sv: "serving link w4 (concat (map enc_entry es) @ rest) out nm tbl" for w4
  proof (cases "put_entries es nm")
    case (Inl err)
    with recv_entries_stops [OF sv assms(4) _ _ Inl room(1)] assms(5) show ?thesis by simp
  next
    case (Inr nm1)
    show ?thesis
    proof (rule runs_stops [OF recv_entries_runs [OF sv assms(4) _ _ Inr room(1)]], goal_cases)
      case (3 st)
      obtain adr4 len4 w5 where st: "st = (adr4, len4, w5)" by (cases st)
      with 3 have w5: "serving link w5 rest out nm1 (fill_table 0 es tbl)" by simp
      then have "serving link (w5\<lparr>nmem := nm2\<rparr>) rest out nm2 (fill_table 0 es tbl)" for nm2
        by (simp add: serving_def)
      with sent w5 assms(5) Inr show ?case
        by (cases "code t f r nm1") (auto simp: st serving_def bindr_eq_Inl)
    qed simp_all
  qed
  show ?thesis
    unfolding invoke_def
    apply (rule recv_var_stops [OF assms(1)], simp)
    unfolding prod.case value_of_Some bindr_Inr of_enc64
    apply (erule recv_var_stops, simp)
    unfolding prod.case value_of_Some bindr_Inr of_enc64
    apply (erule recv_var_stops, simp)
    unfolding prod.case value_of_Some bindr_Inr of_enc64
    apply (erule recv_var_stops, simp)
    unfolding prod.case value_of_Some bindr_Inr of_enc32 [OF n]
    using assms(2) finish by simp
qed

lemma server_pass_stops:
  assumes "serving link w (enc_request q @ rest) out nm tbl" and "wf_request q"
    and "length tbl = NATIVE_MEMORY_SIZE"
    and "reply (alloc_memory P) code syms q nm = Inl e"
  shows "server_pass P code syms w = Inl e"
proof -
  obtain opc body where enc: "enc_request q = [opc] @ body" by (cases q) simp_all
  have handler: "(case cmd_of (unat opc) of
         Some INVOKE \<Rightarrow> bindr (invoke P code w1) (\<lambda>w2. Inr (False, w2))
       | Some GET_SYMBOL_TABLE \<Rightarrow> bindr (get_symbol_table P syms w1) (\<lambda>w2. Inr (False, w2))
       | Some ALLOC \<Rightarrow> bindr (alloc P w1) (\<lambda>w2. Inr (False, w2))
       | Some SYNC_READ \<Rightarrow> bindr (sync_read P w1) (\<lambda>w2. Inr (False, w2))
       | Some EXIT \<Rightarrow> bindr (send_bytes P [0] w1) (\<lambda>w2. Inr (True, w2))
       | None \<Rightarrow> Inl (error_handler P ''undefined command'')) = Inl e"
    if w1: "serving link w1 (body @ rest) out nm tbl" for w1
  proof (cases q)
    case (Invoke t f r es)
    with invoke_stops [of w1 t f r es rest out nm tbl "alloc_memory P" code syms e] w1 assms(2,3,4) enc
    show ?thesis by auto
  next
    case (SyncRead a n)
    with sync_read_stops [of w1 a n rest out nm tbl e] w1 assms(4) enc show ?thesis
      by (auto simp: bindr_eq_Inl)
  qed (use assms(4) in \<open>simp_all split: prod.splits\<close>)
  have sv: "serving link w ([opc] @ body @ rest) out nm tbl" using assms(1) enc by simp
  show ?thesis
    unfolding server_pass_def
    apply (rule recv_var_stops [OF sv], simp)
    unfolding prod.case list.map value_of_byte bindr_Inr
    using handler by (simp del: cmd_of.simps)
qed

end

section \<open>The loop simulates the machine\<close>

text \<open>
  A server represents a running machine when the encodings of its requests and the exit command
  are what the peer has sent or will send, and the rest of its state is sound.
\<close>

definition represents ::
  "('s \<Rightarrow> u8 list \<Rightarrow> u8 list \<Rightarrow> bool) \<Rightarrow> u8 list \<Rightarrow> 's server \<Rightarrow> machine \<Rightarrow> bool" where
  "represents link rest w A \<longleftrightarrow> (case A of
     Running qs out nm \<Rightarrow> (\<forall>q\<in>set qs. wf_request q) \<and> (\<exists>tbl. length tbl = NATIVE_MEMORY_SIZE \<and>
       serving link w (concat (map enc_request qs) @ 4 # rest) out nm tbl)
   | Stopped out nm \<Rightarrow> \<exists>tbl. serving link w rest out nm tbl
   | Failed e \<Rightarrow> False)"

text \<open>What a pass of the loop left, as a state of the machine.\<close>

definition outcome ::
  "('s \<Rightarrow> u8 list \<Rightarrow> u8 list \<Rightarrow> bool) \<Rightarrow> u8 list \<Rightarrow> (nerr, bool \<times> 's server) res \<Rightarrow> machine \<Rightarrow> bool" where
  "outcome link rest r A \<longleftrightarrow> (case r of
     Inl e \<Rightarrow> A = Failed e
   | Inr (exited, w) \<Rightarrow> represents link rest w A \<and> (exited \<longleftrightarrow> (\<exists>out nm. A = Stopped out nm)))"

context platform_contract
begin

lemma server_pass_simulates:
  assumes "represents link rest w (Running qs out nm)" and "wf_symbols syms"
  shows "\<exists>A. machine_step (alloc_memory P) code syms (Running qs out nm) A \<and>
    outcome link rest (server_pass P code syms w) A"
proof -
  obtain tbl where tbl: "length tbl = NATIVE_MEMORY_SIZE"
    and sv: "serving link w (concat (map enc_request qs) @ 4 # rest) out nm tbl"
    and wfq: "\<forall>q\<in>set qs. wf_request q"
    using assms(1) by (auto simp: represents_def)
  show ?thesis
  proof (cases qs)
    case Nil
    with runsD [OF server_exit_runs [of w rest out nm tbl code syms]] sv show ?thesis
      by (auto simp: machine_step_Nil outcome_def represents_def)
  next
    case (Cons q qs')
    have sv': "serving link w (enc_request q @ concat (map enc_request qs') @ 4 # rest) out nm tbl"
      and q: "wf_request q" using sv wfq Cons by simp_all
    show ?thesis
    proof (cases "reply (alloc_memory P) code syms q nm")
      case (Inl e)
      with server_pass_stops [OF sv' q tbl Inl] Cons show ?thesis
        by (auto simp: machine_step_Cons outcome_def)
    next
      case (Inr r)
      obtain bs nm' where r: "r = (bs, nm')" by (cases r)
      from runsD [OF server_pass_runs [OF sv' q assms(2) tbl Inr [unfolded r]]] wfq Cons Inr r show ?thesis
        by (fastforce simp: machine_step_Cons outcome_def represents_def)
    qed
  qed
qed

lemma server_loop_simulates:
  assumes "represents link rest w (Running qs out nm)" and "wf_symbols syms" and "length qs < k"
  shows "\<exists>A r. (machine_step (alloc_memory P) code syms)\<^sup>*\<^sup>* (Running qs out nm) A \<and>
    server_loop k P code syms w = Some r \<and>
    (case r of Inl e \<Rightarrow> A = Failed e
     | Inr w' \<Rightarrow> (\<exists>out' nm'. A = Stopped out' nm') \<and> represents link rest w' A)"
  using assms
proof (induction qs arbitrary: k w out nm)
  case Nil
  then obtain j where k: "k = Suc j" by (cases k) auto
  from server_pass_simulates [OF Nil.prems(1,2), of code] obtain A
    where A: "machine_step (alloc_memory P) code syms (Running [] out nm) A"
      "outcome link rest (server_pass P code syms w) A" by blast
  then have "A = Stopped (out @ [0]) nm" by (simp add: machine_step_Nil)
  with A k show ?case
    by (intro exI [of _ A]) (auto simp: outcome_def represents_def split: sum.splits)
next
  case (Cons q qs)
  then obtain j where k: "k = Suc j" "length qs < j" by (cases k) auto
  from server_pass_simulates [OF Cons.prems(1,2), of code] obtain A
    where A: "machine_step (alloc_memory P) code syms (Running (q # qs) out nm) A"
      "outcome link rest (server_pass P code syms w) A" by blast
  from A(1) show ?case
  proof (rule answerE)
    fix e assume "A = Failed e"
    with A k show ?thesis by (intro exI [of _ A]) (auto simp: outcome_def represents_def split: sum.splits)
  next
    fix bs nm' assume n: "A = Running qs (out @ bs) nm'"
    then obtain w' where w': "server_pass P code syms w = Inr (False, w')" "represents link rest w' A"
      using A(2) by (auto simp: outcome_def split: sum.splits)
    from Cons.IH [OF w'(2) [unfolded n] Cons.prems(2) k(2)] obtain B r
      where B: "(machine_step (alloc_memory P) code syms)\<^sup>*\<^sup>* (Running qs (out @ bs) nm') B"
        "server_loop j P code syms w' = Some r"
        "case r of Inl e \<Rightarrow> B = Failed e
         | Inr w' \<Rightarrow> (\<exists>out' nm'. B = Stopped out' nm') \<and> represents link rest w' B" by blast
    have "(machine_step (alloc_memory P) code syms)\<^sup>*\<^sup>* (Running (q # qs) out nm) B"
      using A(1) B(1) unfolding n by (rule converse_rtranclp_into_rtranclp)
    with B(2,3) w'(1) k(1) show ?thesis by auto
  qed
qed

end

section \<open>Replies reach the peer\<close>

text \<open>A number of passes of the loop; the loop waits at the end of what the peer has sent.\<close>

fun passes :: "nat \<Rightarrow> 's platform \<Rightarrow> native_code \<Rightarrow> symbol_t list \<Rightarrow> 's server \<Rightarrow> (nerr, 's server) res" where
  "passes 0 P code syms w = Inr w"
| "passes (Suc k) P code syms w = bindr (server_pass P code syms w)
     (\<lambda>(exited, w'). if exited then Inr w' else passes k P code syms w')"

definition delivered :: "files \<Rightarrow> u8 list" where
  "delivered s = (case write_file s of None \<Rightarrow> [] | Some fw \<Rightarrow> take (wflushed fw) (wdata fw))"

context platform_contract
begin

lemma passes_runs:
  assumes "serving link w (concat (map enc_request qs) @ rest) out nm tbl"
    and "\<forall>q\<in>set qs. wf_request q" and "wf_symbols syms" and "length tbl = NATIVE_MEMORY_SIZE"
    and "replies (alloc_memory P) code syms qs nm = Inr (bs, nm')"
  shows "\<exists>w' tbl'. passes (length qs) P code syms w = Inr w' \<and> serving link w' rest (out @ bs) nm' tbl'"
  using assms
proof (induction qs arbitrary: w out nm tbl bs)
  case (Cons q qs)
  from Cons.prems(5) obtain b1 nm1 b2 where
    r: "reply (alloc_memory P) code syms q nm = Inr (b1, nm1)"
      "replies (alloc_memory P) code syms qs nm1 = Inr (b2, nm')" and bs: "bs = b1 @ b2"
    by (auto simp: bindr_eq_Inr)
  have sv: "serving link w (enc_request q @ concat (map enc_request qs) @ rest) out nm tbl"
    and q: "wf_request q" and qs: "\<forall>q\<in>set qs. wf_request q" using Cons.prems by simp_all
  from runsD [OF server_pass_runs [OF sv q Cons.prems(3,4) r(1)]] obtain w1 tbl1
    where w1: "server_pass P code syms w = Inr (False, w1)" "length tbl1 = NATIVE_MEMORY_SIZE"
      "serving link w1 (concat (map enc_request qs) @ rest) (out @ b1) nm1 tbl1" by auto
  from Cons.IH [OF w1(3) qs Cons.prems(3) w1(2) r(2)] w1(1) show ?case by (simp add: bs)
qed auto

end

lemma server_pass_flushes:
  assumes "server_pass (stdio_platform calloc) code syms w = Inr (ex, w')"
  shows "\<exists>fw. write_file (plat w') = Some fw \<and> wflushed fw = length (wdata fw)"
proof -
  obtain w2 s' where s': "flush_message (stdio_platform calloc) (plat w2) = Inr s'" and "w' = w2\<lparr>plat := s'\<rparr>"
    using assms unfolding server_pass_def by (auto simp: bindr_eq_Inr)
  then show ?thesis
    by (auto simp: stdio_platform_def c_flush_message_def fflush_def split: option.splits if_splits)
qed

lemma passes_flushed:
  "0 < n \<Longrightarrow> passes n (stdio_platform calloc) code syms w = Inr w' \<Longrightarrow>
   \<exists>fw. write_file (plat w') = Some fw \<and> wflushed fw = length (wdata fw)"
proof (induction n arbitrary: w)
  case (Suc n)
  then obtain ex w1 where w1: "server_pass (stdio_platform calloc) code syms w = Inr (ex, w1)"
    "(if ex then Inr w1 else passes n (stdio_platform calloc) code syms w1) = Inr w'"
    by (auto simp: bindr_eq_Inr)
  from server_pass_flushes [OF w1(1)] w1(2) Suc.IH [of w1] show ?case
    by (cases "n = 0") (auto split: if_splits)
qed simp

section \<open>Properties\<close>

text \<open>
  C5: The command loop of the server (\<open>__server\<close>, server.c, on the streams of platform.c) refines
  the machine of requests and replies: on well-formed requests followed by the exit command it
  ends after at most one pass more than there are requests, with the bytes written and the
  memory of the state in which the machine stops, or with the very error with which the machine
  fails.
\<close>

theorem server_loop_refines:
  assumes "represents stdio_link rest w (Running qs out nm)" and "wf_symbols syms" and "length qs < k"
  shows "\<exists>A r. (machine_step (\<lambda>nm n. calloc nm 1 n) code syms)\<^sup>*\<^sup>* (Running qs out nm) A \<and>
    server_loop k (stdio_platform calloc) code syms w = Some r \<and>
    (case r of Inl e \<Rightarrow> A = Failed e
     | Inr w' \<Rightarrow> (\<exists>out' nm'. A = Stopped out' nm') \<and> represents stdio_link rest w' A)"
  using stdio.server_loop_simulates [OF assms, of calloc code]
  by (simp add: stdio_platform_def c_alloc_def [abs_def])

theorem server_loop_refines_witness:
  "server_loop 2 (stdio_platform (\<lambda>nm c n. (16, nm))) (\<lambda>t f r nm. Inr nm) []
     (demo_server (enc_request (SyncRead 5 1) @ [4]) Map.empty) = Some (Inl (Fault 5))"
proof -
  let ?w = "demo_server (enc_request (SyncRead 5 1) @ [4]) Map.empty"
  have rep: "represents stdio_link [] ?w (Running [SyncRead 5 1] [] Map.empty)"
    using demo_serving [of "enc_request (SyncRead 5 1) @ [4]" Map.empty]
    by (auto simp: represents_def intro!: exI [of _ "replicate NATIVE_MEMORY_SIZE \<lparr>address = 0, size_of = 0\<rparr>"])
  have fault: "machine_step (\<lambda>nm n. (16, nm)) (\<lambda>t f r nm. Inr nm) [] (Running [SyncRead 5 1] [] Map.empty) A \<longleftrightarrow>
      A = Failed (Fault 5)" for A
    by (simp add: machine_step_Cons nm_load_def)
  have final: "A = Failed (Fault 5)" if "(machine_step (\<lambda>nm n. (16, nm)) (\<lambda>t f r nm. Inr nm) [])\<^sup>*\<^sup>* (Running [SyncRead 5 1] [] Map.empty) A"
      "A \<noteq> Running [SyncRead 5 1] [] Map.empty" for A
    using that(1)
  proof (cases rule: converse_rtranclpE)
    case (step B)
    then have "(machine_step (\<lambda>nm n. (16, nm)) (\<lambda>t f r nm. Inr nm) [])\<^sup>*\<^sup>* (Failed (Fault 5)) A"
      by (simp add: fault)
    then show ?thesis by (cases rule: converse_rtranclpE) (simp_all add: machine_step_Failed)
  qed (use that(2) in simp)
  have syms: "wf_symbols []" by (simp add: wf_symbols_def)
  obtain A r where "(machine_step (\<lambda>nm n. (16, nm)) (\<lambda>t f r nm. Inr nm) [])\<^sup>*\<^sup>* (Running [SyncRead 5 1] [] Map.empty) A"
    and r: "server_loop 2 (stdio_platform (\<lambda>nm c n. (16, nm))) (\<lambda>t f r nm. Inr nm) [] ?w = Some r"
      "case r of Inl e \<Rightarrow> A = Failed e
       | Inr w' \<Rightarrow> (\<exists>out' nm'. A = Stopped out' nm') \<and> represents stdio_link [] w' A"
    using server_loop_refines [OF rep syms, of 2 "\<lambda>nm c n. (16, nm)" "\<lambda>t f r nm. Inr nm"] by auto
  with final [of A] show ?thesis by (cases r) auto
qed

text \<open>
  C27: No reply waits for the next request: once the server has made as many passes as requests
  were sent, every byte of every reply has left the buffer of the stream, whatever the client
  sends afterwards, also when it sends nothing until it has the replies.
\<close>

theorem replies_delivered:
  assumes "serving stdio_link w (concat (map enc_request qs) @ rest) [] nm tbl" and "qs \<noteq> []"
    and "\<forall>q\<in>set qs. wf_request q" and "wf_symbols syms" and "length tbl = NATIVE_MEMORY_SIZE"
    and "replies (\<lambda>nm n. calloc nm 1 n) code syms qs nm = Inr (bs, nm')"
  shows "\<exists>w'. passes (length qs) (stdio_platform calloc) code syms w = Inr w' \<and> delivered (plat w') = bs"
proof -
  have "replies (alloc_memory (stdio_platform calloc)) code syms qs nm = Inr (bs, nm')"
    using assms(6) by (simp add: stdio_platform_def c_alloc_def [abs_def])
  from stdio.passes_runs [OF assms(1,3,4,5) this] obtain w' tbl'
    where w': "passes (length qs) (stdio_platform calloc) code syms w = Inr w'"
      "serving stdio_link w' rest ([] @ bs) nm' tbl'" by blast
  from passes_flushed [OF _ w'(1)] assms(2) obtain fw
    where "write_file (plat w') = Some fw" "wflushed fw = length (wdata fw)" by auto
  with w' show ?thesis by (auto simp: delivered_def serving_def stdio_link_def)
qed

theorem replies_delivered_witness:
  "\<exists>w'. passes 1 (stdio_platform (\<lambda>nm c n. (16, nm))) (\<lambda>t f r nm. Inr nm) []
      (demo_server (enc_request (Alloc 5)) Map.empty) = Inr w' \<and> delivered (plat w') = [16, 0, 0, 0, 0, 0, 0, 0]"
proof -
  have enc: "enc64 16 = [16, 0, 0, 0, 0, 0, 0, 0]" by code_simp
  have syms: "wf_symbols []" by (simp add: wf_symbols_def)
  have sv: "serving stdio_link (demo_server (enc_request (Alloc 5)) Map.empty)
      (concat (map enc_request [Alloc 5]) @ []) [] Map.empty (replicate NATIVE_MEMORY_SIZE \<lparr>address = 0, size_of = 0\<rparr>)"
    using demo_serving [of "enc_request (Alloc 5)" Map.empty] by simp
  have "replies (\<lambda>nm n. (16, nm)) (\<lambda>t f r nm. Inr nm) [] [Alloc 5] Map.empty = Inr (enc64 16, Map.empty)" by simp
  from replies_delivered [OF sv _ _ syms _ this] show ?thesis by (simp add: enc)
qed

end
