(* ===== verification/ServerSafe.thy ===== *)
theory ServerSafe
  imports ServerRefine
begin

text \<open>
  Safety of the native server on every input, also on a request that is malformed, cut short or
  hostile: the table \<open>native_memory\<close>, the static buffer \<open>dirty_buffer\<close>, the
  local variables and the names of the symbol table are never accessed past their ends. The
  platform layer is only asked to write no more bytes than the size it is passed, which is
  a weaker contract than the one of a working pipe; stdio keeps it at the end of the input
  and after an error too.
\<close>

section \<open>Results that avoid an error\<close>

definition avoids :: "'e \<Rightarrow> ('e, 'a) res \<Rightarrow> ('a \<Rightarrow> bool) \<Rightarrow> bool" where
  "avoids e r Q \<longleftrightarrow> r \<noteq> Inl e \<and> (\<forall>a. r = Inr a \<longrightarrow> Q a)"

lemma avoids_Inr [simp]: "avoids e (Inr a) Q \<longleftrightarrow> Q a"
  by (simp add: avoids_def)

lemma avoids_Inl [simp]: "avoids e (Inl e') Q \<longleftrightarrow> e' \<noteq> e"
  by (auto simp: avoids_def)

lemma avoids_bindr:
  "avoids e r R \<Longrightarrow> (\<And>a. R a \<Longrightarrow> avoids e (f a) Q) \<Longrightarrow> avoids e (bindr r f) Q"
  by (cases r) auto

lemma avoids_mono: "avoids e r R \<Longrightarrow> (\<And>a. R a \<Longrightarrow> Q a) \<Longrightarrow> avoids e r Q"
  by (auto simp: avoids_def)

lemma avoids_neq: "avoids e r Q \<Longrightarrow> r \<noteq> Inl e"
  by (simp add: avoids_def)

abbreviation in_bounds :: "(nerr, 'a) res \<Rightarrow> ('a \<Rightarrow> bool) \<Rightarrow> bool" where
  "in_bounds \<equiv> avoids BufferOverrun"

abbreviation anything :: "'a \<Rightarrow> bool" where
  "anything \<equiv> \<lambda>_. True"

section \<open>Native memory faults, it does not overrun\<close>

lemma nm_load_in_bounds: "in_bounds (nm_load nm a) anything"
  by (simp add: nm_load_def split: option.splits)

lemma nm_store_in_bounds: "in_bounds (nm_store nm a v) anything"
  by (simp add: nm_store_def split: option.splits)

lemma nm_read_in_bounds: "in_bounds (nm_read nm a n) anything"
proof (induction n arbitrary: a)
  case (Suc n)
  show ?case
    by (simp, rule avoids_bindr [OF nm_load_in_bounds], rule avoids_bindr [OF Suc.IH], simp)
qed simp

lemma nm_write_in_bounds: "in_bounds (nm_write nm a bs) anything"
proof (induction bs arbitrary: nm a)
  case (Cons v vs)
  show ?case by (simp, rule avoids_bindr [OF nm_store_in_bounds], rule Cons.IH)
qed simp

lemma value_of_in_bounds: "in_bounds (value_of v) anything"
  by (simp add: value_of_def)

lemma write_dirty_loop_in_bounds:
  "len \<le> int (length buf) \<Longrightarrow> in_bounds (write_dirty_loop buf nm ptr len i) anything"
proof (induction "nat (len - int i)" arbitrary: nm ptr i rule: less_induct)
  case less
  show ?case
  proof (cases "int i < len")
    case True
    with less.prems have i: "i < length buf" by simp
    have smaller: "nat (len - int (i + 1)) < nat (len - int i)" using True by simp
    have "in_bounds (bindr (nm_load nm ptr) (\<lambda>b.
        bindr (if b \<noteq> buf ! i then nm_store nm ptr (buf ! i) else Inr nm) (\<lambda>nm'.
        write_dirty_loop buf nm' (ptr + 1) len (i + 1)))) anything"
    proof (rule avoids_bindr [OF nm_load_in_bounds])
      fix b
      have "in_bounds (if b \<noteq> buf ! i then nm_store nm ptr (buf ! i) else Inr nm) anything"
        by (simp add: nm_store_in_bounds)
      then show "in_bounds (bindr (if b \<noteq> buf ! i then nm_store nm ptr (buf ! i) else Inr nm)
          (\<lambda>nm'. write_dirty_loop buf nm' (ptr + 1) len (i + 1))) anything"
        by (rule avoids_bindr) (rule less.hyps [OF smaller less.prems])
    qed
    with True i show ?thesis by (simp add: write_dirty_loop.simps [of buf nm ptr len i])
  next
    case False
    then show ?thesis by (simp add: write_dirty_loop.simps [of buf nm ptr len i])
  qed
qed

section \<open>The sizes of the static objects\<close>

definition sized :: "'s server \<Rightarrow> bool" where
  "sized w \<longleftrightarrow> length (dirty_buffer w) = dirty_size \<and> length (native_memory w) = NATIVE_MEMORY_SIZE"

lemma sized_update [simp]:
  "sized (w\<lparr>plat := s\<rparr>) = sized w" "sized (w\<lparr>nmem := nm\<rparr>) = sized w"
  "sized (set_native_memory i e w) = sized w"
  by (simp_all add: sized_def set_native_memory_def)

lemma write_dirty_in_bounds:
  assumes "sized w" and "n \<le> dirty_size"
  shows "in_bounds (write_dirty a (to_short n) w) sized"
  unfolding write_dirty_def
  by (rule avoids_bindr [OF write_dirty_loop_in_bounds])
    (use assms in \<open>simp_all add: sized_def to_short_id\<close>)

text \<open>Native code may fault; overrunning an object of the server is what it may not do.\<close>

definition harmless :: "native_code \<Rightarrow> bool" where
  "harmless code \<longleftrightarrow> (\<forall>t f r nm. code t f r nm \<noteq> Inl BufferOverrun)"

lemma harmless_in_bounds: "harmless code \<Longrightarrow> in_bounds (code t f r nm) anything"
  by (simp add: harmless_def avoids_def)

section \<open>The handlers on any platform that respects sizes\<close>

locale bounded_platform =
  fixes P :: "'s platform"
  assumes init_bounded: "in_bounds (init_messages P rp wp s) anything"
    and recv_bounded: "in_bounds (recv_message P s n) (\<lambda>(bs, s'). length bs \<le> n)"
    and send_bounded: "in_bounds (send_message P s bs) anything"
    and flush_bounded: "in_bounds (flush_message P s) anything"
    and deinit_bounded: "in_bounds (deinit_messages P s) anything"
    and error_bounded: "error_handler P msg \<noteq> BufferOverrun"
begin

lemma recv_var_in_bounds:
  "sized w \<Longrightarrow> in_bounds (recv_var P old w) (\<lambda>(v, w'). length v = length old \<and> sized w')"
  unfolding recv_var_def
  by (rule avoids_bindr [OF recv_bounded]) (auto simp: fill_def)

lemma recv_value:
  assumes "sized w"
    and "\<And>v w'. length v = length old \<Longrightarrow> sized w' \<Longrightarrow> in_bounds (f (v, w')) Q"
  shows "in_bounds (bindr (recv_var P old w) f) Q"
  by (rule avoids_bindr [OF recv_var_in_bounds]) (use assms in auto)

lemma use_value: "(\<And>n. in_bounds (f n) Q) \<Longrightarrow> in_bounds (bindr (value_of v) f) Q"
  by (rule avoids_bindr [OF value_of_in_bounds])

lemma recv_dirty_in_bounds:
  "sized w \<Longrightarrow> n \<le> dirty_size \<Longrightarrow> in_bounds (recv_dirty P n w) sized"
  unfolding recv_dirty_def
  by (rule avoids_bindr [OF recv_bounded]) (auto simp: sized_def)

lemma recv_native_in_bounds: "sized w \<Longrightarrow> in_bounds (recv_native P a n w) sized"
  unfolding recv_native_def
  by (rule avoids_bindr [OF recv_bounded], clarsimp, rule avoids_bindr [OF nm_write_in_bounds])
    (simp add: sized_def)

lemma send_bytes_in_bounds: "sized w \<Longrightarrow> in_bounds (send_bytes P bs w) sized"
  unfolding send_bytes_def by (rule avoids_bindr [OF send_bounded]) simp

lemma send_native_in_bounds: "sized w \<Longrightarrow> in_bounds (send_native P a n w) sized"
  unfolding send_native_def
  by (rule avoids_bindr [OF nm_read_in_bounds]) (rule send_bytes_in_bounds)

lemma chunk_in_bounds:
  assumes "sized w" and "n \<le> dirty_size"
  shows "in_bounds (bindr (recv_dirty P n w) (write_dirty a (to_short n))) sized"
  by (rule avoids_bindr [OF recv_dirty_in_bounds [OF assms]]) (rule write_dirty_in_bounds [OF _ assms(2)])

lemma recv_chunks_in_bounds: "sized w \<Longrightarrow> in_bounds (recv_chunks P a n w) sized"
proof (induction n arbitrary: a w rule: less_induct)
  case (less n)
  show ?case
  proof (cases "n > dirty_size")
    case False
    with chunk_in_bounds [OF less.prems] show ?thesis
      by (simp add: recv_chunks.simps [of P a n])
  next
    case True
    then have "n - dirty_size < n" by (simp add: dirty_size_def)
    then have "in_bounds (bindr (bindr (recv_dirty P dirty_size w) (write_dirty a (to_short dirty_size)))
        (recv_chunks P (a + of_nat dirty_size) (n - dirty_size))) sized"
      by (intro avoids_bindr [OF chunk_in_bounds [OF less.prems]]) (simp_all add: less.IH)
    with True show ?thesis by (simp add: recv_chunks.simps [of P a n] bindr_assoc)
  qed
qed

lemma recv_entry_in_bounds:
  assumes "sized w" and "i < NATIVE_MEMORY_SIZE"
  shows "in_bounds (recv_entry P i (adr, len, w)) (\<lambda>(adr', len', w'). sized w')"
  unfolding recv_entry_def prod.case
proof (intro recv_value [OF assms(1)] use_value, simp only: prod.case, intro use_value, goal_cases)
  case (1 v w1 a)
  then have "(i \<ge> length (native_memory w1)) = False" using assms(2) by (simp add: sized_def)
  then show ?case unfolding if_False
    apply (simp only: if_False)
    apply (rule recv_value [OF 1(2)], unfold prod.case)
    apply (erule recv_value, unfold prod.case)
    apply (intro use_value)
    apply (unfold Let_def)
    apply (rule avoids_bindr [where R = sized])
     apply (simp add: recv_chunks_in_bounds recv_native_in_bounds)
    apply simp
    done
qed

lemma recv_entries_in_bounds:
  "sized w \<Longrightarrow> i + k \<le> NATIVE_MEMORY_SIZE \<Longrightarrow>
   in_bounds (recv_entries P i k (adr, len, w)) (\<lambda>(adr', len', w'). sized w')"
proof (induction k arbitrary: i adr len w)
  case (Suc k)
  show ?case
    by (simp, rule avoids_bindr [OF recv_entry_in_bounds]) (use Suc in auto)
qed simp

lemma send_entry_in_bounds: "sized w \<Longrightarrow> in_bounds (send_entry P e w) sized"
  unfolding send_entry_def Let_def
  by (rule avoids_bindr [OF send_bytes_in_bounds], assumption,
      rule avoids_bindr [OF send_native_in_bounds], assumption, rule send_bytes_in_bounds)

lemma send_entries_in_bounds:
  "sized w \<Longrightarrow> i + k \<le> NATIVE_MEMORY_SIZE \<Longrightarrow> in_bounds (send_entries P i k w) sized"
proof (induction k arbitrary: i w)
  case (Suc k)
  then have "(i \<ge> length (native_memory w)) = False" by (simp add: sized_def)
  then show ?case
    by (simp, intro avoids_bindr [OF send_entry_in_bounds]) (use Suc in auto)
qed simp

lemma invoke_in_bounds:
  assumes "sized w" and "harmless code"
  shows "in_bounds (invoke P code w) sized"
proof -
  have finish: "in_bounds (bindr (recv_entries P 0 n (adr, len, w4)) (\<lambda>(adr4, len4, w5).
       bindr (code t f r (nmem w5)) (\<lambda>nm'.
       bindr (send_bytes P (le_bytes 4 n) (w5\<lparr>nmem := nm'\<rparr>)) (send_entries P 0 n)))) sized"
    if "sized w4" "n \<le> NATIVE_MEMORY_SIZE" for n adr len w4 t f r
    apply (rule avoids_bindr [OF recv_entries_in_bounds], use that in simp_all)
    apply clarsimp
    apply (rule avoids_bindr [OF harmless_in_bounds [OF assms(2)]])
    apply (rule avoids_bindr [OF send_bytes_in_bounds], simp)
    apply (erule send_entries_in_bounds, use that in simp)
    done
  show ?thesis
    unfolding invoke_def
    apply (rule recv_value [OF assms(1)], unfold prod.case, rule use_value)
    apply (erule recv_value, unfold prod.case, rule use_value)
    apply (erule recv_value, unfold prod.case, rule use_value)
    apply (erule recv_value, unfold prod.case, rule use_value)
    using error_bounded finish by auto
qed

lemma send_symbols_in_bounds:
  "sized w \<Longrightarrow> \<forall>(name, addr)\<in>set syms. length name < 2 ^ 31 \<Longrightarrow>
   in_bounds (send_symbols P syms w) sized"
proof (induction syms arbitrary: w)
  case (Cons sym syms)
  obtain name addr where sym: "sym = (name, addr)" by (cases sym)
  with Cons.prems(2) have n: "unat (scast (of_nat (length name) :: u32) :: u64) = length name"
    by (simp add: unat_scast_u32)
  have rest: "\<forall>(name, addr)\<in>set syms. length name < 2 ^ 31" using Cons.prems(2) by simp
  show ?case
    unfolding sym send_symbols.simps Let_def n
    apply (rule avoids_bindr [OF send_bytes_in_bounds [OF Cons.prems(1)]])
    apply simp
    apply (rule avoids_bindr [OF send_bytes_in_bounds], assumption)
    apply (rule avoids_bindr [OF send_bytes_in_bounds], assumption)
    apply (erule Cons.IH [OF _ rest])
    done
qed simp

lemma get_symbol_table_in_bounds:
  "sized w \<Longrightarrow> wf_symbols syms \<Longrightarrow> in_bounds (get_symbol_table P syms w) sized"
  unfolding get_symbol_table_def
  by (rule avoids_bindr [OF send_bytes_in_bounds], assumption)
    (rule send_symbols_in_bounds, assumption, simp add: wf_symbols_def)

lemma alloc_in_bounds: "sized w \<Longrightarrow> in_bounds (alloc P w) sized"
  unfolding alloc_def
  by (erule recv_value, unfold prod.case, rule use_value)
    (simp add: send_bytes_in_bounds split: prod.split)

lemma sync_read_in_bounds: "sized w \<Longrightarrow> in_bounds (sync_read P w) sized"
  unfolding sync_read_def
  by (erule recv_value, unfold prod.case, erule recv_value, unfold prod.case, intro use_value)
    (rule send_native_in_bounds)

end

section \<open>The command loop\<close>

context bounded_platform
begin

lemma server_pass_in_bounds:
  assumes "sized w" and "wf_symbols syms" and "harmless code"
  shows "in_bounds (server_pass P code syms w) (\<lambda>(exited, w'). sized w')"
proof -
  have tagged: "in_bounds (bindr r (\<lambda>w2. Inr (b, w2))) (\<lambda>(exited, w'). sized w')"
    if "in_bounds r sized" for b and r :: "(nerr, 's server) res"
    by (rule avoids_bindr [OF that]) simp
  have handler: "in_bounds (case cmd_of c of
         Some INVOKE \<Rightarrow> bindr (invoke P code w1) (\<lambda>w2. Inr (False, w2))
       | Some GET_SYMBOL_TABLE \<Rightarrow> bindr (get_symbol_table P syms w1) (\<lambda>w2. Inr (False, w2))
       | Some ALLOC \<Rightarrow> bindr (alloc P w1) (\<lambda>w2. Inr (False, w2))
       | Some SYNC_READ \<Rightarrow> bindr (sync_read P w1) (\<lambda>w2. Inr (False, w2))
       | Some EXIT \<Rightarrow> bindr (send_bytes P [0] w1) (\<lambda>w2. Inr (True, w2))
       | None \<Rightarrow> Inl (error_handler P ''undefined command'')) (\<lambda>(exited, w'). sized w')"
    if "sized w1" for c w1
    using that assms(2,3) error_bounded
    by (auto split: option.split cmd_t.split intro!: tagged invoke_in_bounds
      get_symbol_table_in_bounds alloc_in_bounds sync_read_in_bounds send_bytes_in_bounds
      simp del: cmd_of.simps)
  show ?thesis
    unfolding server_pass_def
    apply (rule recv_value [OF assms(1)], unfold prod.case, rule use_value)
    apply (rule avoids_bindr [OF handler], assumption)
    apply clarsimp
    apply (rule avoids_bindr [OF flush_bounded], simp)
    done
qed

lemma server_loop_in_bounds:
  assumes "wf_symbols syms" and "harmless code"
  shows "sized w \<Longrightarrow> server_loop k P code syms w = Some r \<Longrightarrow> in_bounds r sized"
proof (induction k arbitrary: w)
  case (Suc k)
  from server_pass_in_bounds [OF Suc.prems(1) assms] Suc show ?case
    by (auto split: sum.splits if_splits simp: avoids_def)
qed simp

lemma server_in_bounds:
  assumes "wf_symbols syms" and "harmless code"
    and "sized w" and "server k P code syms rp wp w = Some r"
  shows "in_bounds r sized"
proof (cases "init_messages P rp wp (plat w)")
  case (Inl e)
  with assms(4) init_bounded [of rp wp "plat w"] show ?thesis by (auto simp: server_def)
next
  case (Inr s)
  show ?thesis
  proof (cases "server_loop k P code syms (w\<lparr>plat := s\<rparr>)")
    case None
    with Inr assms(4) show ?thesis by (simp add: server_def)
  next
    case (Some q)
    have "sized (w\<lparr>plat := s\<rparr>)" using assms(3) by simp
    note q = server_loop_in_bounds [OF assms(1,2) this Some]
    have "in_bounds (bindr q (\<lambda>w'. bindr (deinit_messages P (plat w')) (\<lambda>s'. Inr (w'\<lparr>plat := s'\<rparr>)))) sized"
      by (rule avoids_bindr [OF q], rule avoids_bindr [OF deinit_bounded]) simp
    with Inr Some assms(4) show ?thesis by (auto simp: server_def bindr_def split: sum.splits)
  qed
qed

end

section \<open>The platform on stdio respects sizes\<close>

interpretation stdio_bounds: bounded_platform "stdio_platform calloc"
proof unfold_locales
  fix s :: files and n :: nat and bs :: "u8 list" and rp wp msg :: string
  show "in_bounds (init_messages (stdio_platform calloc) rp wp s) anything"
    by (simp add: stdio_platform_def c_init_messages_def split: option.split)
  show "in_bounds (recv_message (stdio_platform calloc) s n) (\<lambda>(bs, s'). length bs \<le> n)"
    by (simp add: stdio_platform_def c_recv_message_def fread_def split: option.split)
  show "in_bounds (send_message (stdio_platform calloc) s bs) anything"
    by (simp add: stdio_platform_def c_send_message_def split: option.split prod.split)
  show "in_bounds (flush_message (stdio_platform calloc) s) anything"
    by (simp add: stdio_platform_def c_flush_message_def split: option.split prod.split)
  show "in_bounds (deinit_messages (stdio_platform calloc) s) anything"
    by (simp add: stdio_platform_def c_deinit_messages_def split: option.split)
  show "error_handler (stdio_platform calloc) msg \<noteq> BufferOverrun"
    by (simp add: stdio_platform_def c_error_def)
qed

text \<open>
  C3: Memory safety of the server process. Whatever the peer sends, and whatever the streams do,
  the server on stdio never accesses \<open>native_memory\<close>, \<open>dirty_buffer\<close>, a local
  variable or a symbol name past its end, provided the names of the symbol table are shorter
  than 2 GiB and the called native code does not itself report such an access; and when it
  returns, the static objects have the sizes they had. In particular the count that an
  \<open>INVOKE\<close> request claims, the lengths of its entries and the piecewise copying through
  \<open>dirty_buffer\<close> cannot be abused.\<close>
theorem server_memory_safe:
  assumes "sized w" and "wf_symbols symbols"
    and "harmless code"
  shows "main k (stdio_platform calloc) code symbols argv w \<noteq> Some (Inl BufferOverrun) \<and>
    (\<forall>n line w'. main k (stdio_platform calloc) code symbols argv w = Some (Inr (n, line, w')) \<longrightarrow> sized w')"
proof -
  note server = stdio_bounds.server_in_bounds [OF assms(2,3,1)]
  show ?thesis
  proof (cases "server k (stdio_platform calloc) code symbols (argv ! 1) (argv ! 2) w")
    case None
    then show ?thesis using assms(1) by (auto simp: main_def split: if_splits)
  next
    case (Some r)
    with server [OF Some] assms(1) show ?thesis
      by (auto simp: main_def avoids_def split: if_splits sum.splits)
  qed
qed

definition hostile :: "u8 list" where
  "hostile = [0] @ enc64 16 @ enc64 24 @ enc64 32 @ enc32 8192 @ enc64 4096 @ [1] @ enc32 (2 ^ 32 - 1) @ [7, 7]"

theorem server_memory_safe_witness:
  "main 3 (stdio_platform (\<lambda>nm a n. (0, nm))) (\<lambda>t f r nm. Inr nm) [([65], 4096)]
     [''server'', ''in'', ''out''] (demo_server hostile (\<lambda>_. Some (0, True))) \<noteq> Some (Inl BufferOverrun)"
proof -
  have "sized (demo_server hostile (\<lambda>_. Some (0, True)))"
    by (simp add: sized_def demo_sizes)
  from server_memory_safe [OF this, of "[([65], 4096)]" "\<lambda>t f r nm. Inr nm"]
  show ?thesis by (simp add: wf_symbols_def harmless_def)
qed

end
