(* ===== verification/KastPrint.thy ===== *)
theory KastPrint
  imports Prelude
begin

text \<open>
  The output side of the C++ front end, src/clang-tools/ClangKast/ClangKast.h and
  ClangKast.cc: the nodes of the K abstract syntax tree, kept in one vector in the order in
  which the visitor adds them, and their printing as KAST or, with the option
  \<open>-kore\<close>, as KORE text. A node says how many children follow it, so the vector is
  a prefix code of a term.
\<close>

section \<open>Sorts\<close>

datatype (plugins only: code) sort =
    ACCESSSPECIFIER | AEXPR | ASTMT | ATYPE | ATYPERESULT | AUTOSPECIFIER | BASESPECIFIER
    | BOOL | BRACEINIT | CABSLOC | CAPTURE | CAPTUREDEFAULT | CAPTUREKIND | CATCHDECL
    | CHARKIND | CID | CLASSKEY | CTORINIT | DECL | DECLARATOR | DESTRUCTORID | ENUMERATOR
    | EXCEPTIONSPEC | EXPR | EXPRESSIONLIST | EXPRLOC | FLOAT | FUNCTIONSPECIFIER | INIT
    | INT' | K | KITEM | LIST | NAME | NAMESPACE | NNS | NNSSPECIFIER | NONAME | OPID
    | QUALIFIER | REFQUALIFIER | RESOLVEDEXPR | SPECIFIER | STMT | STORAGECLASSSPECIFIER
    | STRICTLIST | STRICTLISTRESULT | STRING | TAG | TEMPLATEARGUMENT | TEMPLATEPARAMETER
    | THIS | TYPEID | TYPESPECIFIER | UNNAMEDCID

text \<open>The output operator on sorts; \<open>kore\<close> is the command line option.\<close>

definition sort_name :: "sort \<Rightarrow> string" where
  "sort_name s = (case s of
       ACCESSSPECIFIER \<Rightarrow> ''AccessSpecifier''
     | AEXPR \<Rightarrow> ''AExpr''
     | ASTMT \<Rightarrow> ''AStmt''
     | ATYPE \<Rightarrow> ''AType''
     | ATYPERESULT \<Rightarrow> ''ATypeResult''
     | AUTOSPECIFIER \<Rightarrow> ''AutoSpecifier''
     | BASESPECIFIER \<Rightarrow> ''BaseSpecifier''
     | BOOL \<Rightarrow> ''Bool''
     | BRACEINIT \<Rightarrow> ''BraceInit''
     | CABSLOC \<Rightarrow> ''CabsLoc''
     | CAPTURE \<Rightarrow> ''Capture''
     | CAPTUREDEFAULT \<Rightarrow> ''CaptureDefault''
     | CAPTUREKIND \<Rightarrow> ''CaptureKind''
     | CATCHDECL \<Rightarrow> ''CatchDecl''
     | CHARKIND \<Rightarrow> ''CharKind''
     | CID \<Rightarrow> ''CId''
     | CLASSKEY \<Rightarrow> ''ClassKey''
     | CTORINIT \<Rightarrow> ''CtorInit''
     | DECL \<Rightarrow> ''Decl''
     | DECLARATOR \<Rightarrow> ''Declarator''
     | DESTRUCTORID \<Rightarrow> ''DestructorId''
     | ENUMERATOR \<Rightarrow> ''Enumerator''
     | EXCEPTIONSPEC \<Rightarrow> ''ExceptionSpec''
     | EXPR \<Rightarrow> ''Expr''
     | EXPRESSIONLIST \<Rightarrow> ''ExpressionList''
     | EXPRLOC \<Rightarrow> ''ExprLoc''
     | FLOAT \<Rightarrow> ''Float''
     | FUNCTIONSPECIFIER \<Rightarrow> ''FunctionSpecifier''
     | INIT \<Rightarrow> ''Init''
     | INT' \<Rightarrow> ''Int''
     | K \<Rightarrow> ''K''
     | KITEM \<Rightarrow> ''KItem''
     | LIST \<Rightarrow> ''List''
     | NAME \<Rightarrow> ''Name''
     | NAMESPACE \<Rightarrow> ''Namespeace''
     | NNS \<Rightarrow> ''NNS''
     | NNSSPECIFIER \<Rightarrow> ''NNSSpecifier''
     | NONAME \<Rightarrow> ''NoName''
     | OPID \<Rightarrow> ''OpId''
     | QUALIFIER \<Rightarrow> ''Qualifier''
     | REFQUALIFIER \<Rightarrow> ''RefQualifier''
     | RESOLVEDEXPR \<Rightarrow> ''ResolvedExpr''
     | SPECIFIER \<Rightarrow> ''Specifier''
     | STMT \<Rightarrow> ''Stmt''
     | STORAGECLASSSPECIFIER \<Rightarrow> ''StorageClassSpecifier''
     | STRICTLIST \<Rightarrow> ''StrictList''
     | STRICTLISTRESULT \<Rightarrow> ''StrictListResult''
     | STRING \<Rightarrow> ''String''
     | TAG \<Rightarrow> ''Tag''
     | TEMPLATEARGUMENT \<Rightarrow> ''TemplateArgument''
     | TEMPLATEPARAMETER \<Rightarrow> ''TemplateParameter''
     | THIS \<Rightarrow> ''This''
     | TYPEID \<Rightarrow> ''TypeId''
     | TYPESPECIFIER \<Rightarrow> ''TypeSpecifier''
     | UNNAMEDCID \<Rightarrow> ''UnnamedCId'')"

definition print_sort :: "bool \<Rightarrow> sort \<Rightarrow> string" where
  "print_sort kore s = (if kore then ''Sort'' else '''') @ sort_name s @ (if kore then ''{}'' else '''')"

section \<open>Labels\<close>

text \<open>The character codes of \<open>escapeKLabel\<close>, each ending in a quote.\<close>

definition label_subst :: "(char \<times> string) list" where
  "label_subst =
    [(CHR 0x20, ''Spce'' @ [CHR 0x27]), (CHR 0x21, ''Bang'' @ [CHR 0x27]), (CHR 0x22, ''Quot'' @ [CHR 0x27]),
     (CHR 0x23, ''Hash'' @ [CHR 0x27]), (CHR 0x24, ''Dolr'' @ [CHR 0x27]), (CHR 0x25, ''Perc'' @ [CHR 0x27]),
     (CHR 0x26, ''And'' @ [CHR 0x27]), (CHR 0x27, ''Apos'' @ [CHR 0x27]), (CHR 0x28, ''LPar'' @ [CHR 0x27]),
     (CHR 0x29, ''RPar'' @ [CHR 0x27]), (CHR 0x2A, ''Star'' @ [CHR 0x27]), (CHR 0x2B, ''Plus'' @ [CHR 0x27]),
     (CHR 0x2C, ''Comm'' @ [CHR 0x27]), (CHR 0x2E, ''Stop'' @ [CHR 0x27]), (CHR 0x2F, ''Slsh'' @ [CHR 0x27]),
     (CHR 0x3A, ''Coln'' @ [CHR 0x27]), (CHR 0x3B, ''SCln'' @ [CHR 0x27]), (CHR 0x3C, ''-LT-'' @ [CHR 0x27]),
     (CHR 0x3D, ''Eqls'' @ [CHR 0x27]), (CHR 0x3E, ''-GT-'' @ [CHR 0x27]), (CHR 0x3F, ''Ques'' @ [CHR 0x27]),
     (CHR 0x40, ''-AT-'' @ [CHR 0x27]), (CHR 0x5B, ''LSqB'' @ [CHR 0x27]), (CHR 0x5C, ''Bash'' @ [CHR 0x27]),
     (CHR 0x5D, ''RSqB'' @ [CHR 0x27]), (CHR 0x5E, ''Xor-'' @ [CHR 0x27]), (CHR 0x5F, ''Unds'' @ [CHR 0x27]),
     (CHR 0x60, ''BQuo'' @ [CHR 0x27]), (CHR 0x7B, ''LBra'' @ [CHR 0x27]), (CHR 0x7C, ''Pipe'' @ [CHR 0x27]),
     (CHR 0x7D, ''RBra'' @ [CHR 0x27]), (CHR 0x7E, ''Tild'' @ [CHR 0x27])]"

fun escapeKLabel_loop :: "string \<Rightarrow> string \<Rightarrow> string" where
  "escapeKLabel_loop res [] = res"
| "escapeKLabel_loop res (c # cs) =
     (case map_of label_subst c of
        Some subst \<Rightarrow>
          escapeKLabel_loop
            ((if length res > 0 \<and> last res = CHR 0x27 then butlast res else res @ [CHR 0x27]) @ subst) cs
      | None \<Rightarrow> escapeKLabel_loop (res @ [c]) cs)"

definition escapeKLabel :: "string \<Rightarrow> string" where
  "escapeKLabel label = escapeKLabel_loop [] label"

definition makeKLabel :: "bool \<Rightarrow> string \<Rightarrow> string" where
  "makeKLabel kore label =
     (if kore then ''Lbl'' @ escapeKLabel label @ ''{}'' else [CHR 0x60] @ label @ [CHR 0x60])"

section \<open>Tokens\<close>

datatype kerr =
    BufferOverflow
  | NoNode nat
  | NoFuel

definition hex_digit :: "nat \<Rightarrow> char" where
  "hex_digit n = char_of (if n < 10 then 48 + n else 87 + n)"

text \<open>\<open>"\\x%02hhx"\<close> of a byte.\<close>

definition hex_escape :: "char \<Rightarrow> string" where
  "hex_escape c = [CHR 0x5C, CHR ''x'', hex_digit (of_char c div 16), hex_digit (of_char c mod 16)]"

text \<open>\<open>char\<close> is signed: the bytes from 128 on are below 32.\<close>

definition escape_char :: "char \<Rightarrow> string" where
  "escape_char c =
     (if c = CHR 0x22 then [CHR 0x5C, CHR 0x22]
      else if c = CHR 0x5C then [CHR 0x5C, CHR 0x5C]
      else if c = CHR 0x0A then [CHR 0x5C, CHR ''n'']
      else if c = CHR 0x09 then [CHR 0x5C, CHR ''t'']
      else if c = CHR 0x0D then [CHR 0x5C, CHR ''r'']
      else if 32 \<le> (of_char c :: nat) \<and> (of_char c :: nat) < 127 then [c]
      else hex_escape c)"

fun escape_loop :: "string \<Rightarrow> string \<Rightarrow> string" where
  "escape_loop res [] = res"
| "escape_loop res (c # cs) = escape_loop (res @ escape_char c) cs"

definition escape :: "string \<Rightarrow> string" where
  "escape str = escape_loop [] str"

text \<open>Decimal numerals, as \<open>sprintf\<close> prints them.\<close>

fun show_nat :: "nat \<Rightarrow> string" where
  "show_nat n = (if n < 10 then [char_of (48 + n)] else show_nat (n div 10) @ [char_of (48 + n mod 10)])"

definition show_int :: "int \<Rightarrow> string" where
  "show_int i = (if i < 0 then CHR 0x2D # show_nat (nat (- i)) else show_nat (nat i))"

text \<open>A numeral printed into a character array of the given size, with its final null.\<close>

definition sprintf_buf :: "nat \<Rightarrow> string \<Rightarrow> (kerr, string) res" where
  "sprintf_buf n s = (if length s + 1 \<le> n then Inr s else Inl BufferOverflow)"

definition toKString_string :: "bool \<Rightarrow> string \<Rightarrow> string" where
  "toKString_string kore s = (if kore then escape s else [CHR 0x22] @ escape s @ [CHR 0x22])"

definition toKString_bool :: "bool \<Rightarrow> string" where
  "toKString_bool b = (if b then ''true'' else ''false'')"

text \<open>An \<open>APInt\<close> by its unsigned value, which \<open>toString(10, false)\<close> prints.\<close>

definition toKString_APInt :: "nat \<Rightarrow> string" where
  "toKString_APInt i = show_nat i"

text \<open>The conversion \<open>%d\<close> reads the \<open>unsigned\<close> as an \<open>int\<close>.\<close>

definition toKString_unsigned :: "u32 \<Rightarrow> (kerr, string) res" where
  "toKString_unsigned i = sprintf_buf 11 (show_int (sint i))"

definition toKString_ull :: "u64 \<Rightarrow> (kerr, string) res" where
  "toKString_ull s = sprintf_buf 21 (show_nat (unat s))"

text \<open>An \<open>APFloat\<close> by the characters \<open>toString\<close> gives and by its precision.\<close>

record apfloat =
  fl_text :: string
  fl_precision :: nat

definition toKString_APFloat :: "apfloat \<Rightarrow> (kerr, string) res" where
  "toKString_APFloat f =
     (let numBytes = 6 + 4 + 3 + 11 + 1 + fl_precision f in
      bindr (sprintf_buf 14 (''p'' @ show_nat (fl_precision f) @ ''x16'')) (\<lambda>suffix.
      sprintf_buf numBytes (takeWhile (\<lambda>c. c \<noteq> CHR 0x00) (fl_text f) @ suffix)))"

section \<open>Nodes\<close>

datatype (plugins only: code) node =
    KApply string sort "sort list"
  | KToken string sort
  | KSequence int

fun arity :: "node \<Rightarrow> nat" where
  "arity (KApply label s sig) = length sig"
| "arity (KToken v s) = 0"
| "arity (KSequence n) = nat n"

text \<open>
  The printing of a node with the printing of a child as a parameter: \<open>pc\<close> takes the
  sort a child is expected at and the place reached so far, and returns its text and the
  next place. Text is accumulated in the order of the output.
\<close>

type_synonym 'p printer = "sort \<Rightarrow> 'p \<Rightarrow> (kerr, string \<times> 'p) res"

fun print_children :: "'p printer \<Rightarrow> bool \<Rightarrow> sort list \<Rightarrow> 'p \<Rightarrow> (kerr, string \<times> 'p) res" where
  "print_children pc first [] p = Inr ('''', p)"
| "print_children pc first (s # ss) p =
     bindr (pc s p) (\<lambda>(t, p1).
     bindr (print_children pc False ss p1) (\<lambda>(ts, p2).
     Inr ((if \<not> first then '','' else '''') @ t @ ts, p2)))"

definition open_inj :: "bool \<Rightarrow> sort \<Rightarrow> sort \<Rightarrow> string" where
  "open_inj kore s parentSort =
     (if kore \<and> s \<noteq> parentSort then
        if parentSort = K then
          ''kseq{}('' @ (if s \<noteq> KITEM
            then ''inj{'' @ print_sort kore s @ '', '' @ print_sort kore KITEM @ ''}('' else '''')
        else ''inj{'' @ print_sort kore s @ '', '' @ print_sort kore parentSort @ ''}(''
      else '''')"

definition close_inj :: "bool \<Rightarrow> sort \<Rightarrow> sort \<Rightarrow> string" where
  "close_inj kore s parentSort =
     (if kore \<and> s \<noteq> parentSort then
        if parentSort = K then (if s \<noteq> KITEM then '')'' else '''') @ '', dotk{}())''
        else '')''
      else '''')"

definition print_KApply ::
  "bool \<Rightarrow> string \<Rightarrow> sort \<Rightarrow> sort list \<Rightarrow> sort \<Rightarrow> 'p printer \<Rightarrow> 'p \<Rightarrow> (kerr, string \<times> 'p) res" where
  "print_KApply kore label s sig parentSort pc p =
     bindr (print_children pc True sig p) (\<lambda>(ts, p').
     Inr (open_inj kore s parentSort @ makeKLabel kore label @ ''('' @
          (if \<not> kore \<and> length sig = 0 then ''.KList'' else '''') @ ts @ '')'' @
          close_inj kore s parentSort, p'))"

definition print_KToken :: "bool \<Rightarrow> string \<Rightarrow> sort \<Rightarrow> string" where
  "print_KToken kore v s =
     (if kore then [CHR 0x5C] @ ''dv{'' @ print_sort kore s @ ''}('' @ [CHR 0x22] @ escape v @ [CHR 0x22] @ '')''
      else ''#token('' @ [CHR 0x22] @ escape v @ [CHR 0x22] @ '', '' @ [CHR 0x22] @ print_sort kore s @ [CHR 0x22] @ '')'')"

fun seq_kore :: "'p printer \<Rightarrow> nat \<Rightarrow> 'p \<Rightarrow> (kerr, string \<times> 'p) res" where
  "seq_kore pc 0 p = Inr ('''', p)"
| "seq_kore pc (Suc n) p =
     bindr (pc KITEM p) (\<lambda>(t, p1).
     bindr (seq_kore pc n p1) (\<lambda>(ts, p2). Inr (''kseq{}('' @ t @ '', '' @ ts, p2)))"

fun seq_kast :: "'p printer \<Rightarrow> nat \<Rightarrow> 'p \<Rightarrow> (kerr, string \<times> 'p) res" where
  "seq_kast pc 0 p = Inr ('''', p)"
| "seq_kast pc (Suc n) p =
     bindr (pc KITEM p) (\<lambda>(t, p1).
     bindr (seq_kast pc n p1) (\<lambda>(ts, p2). Inr (t @ (if n \<noteq> 0 then ''~>'' else '''') @ ts, p2)))"

definition print_KSequence :: "bool \<Rightarrow> int \<Rightarrow> 'p printer \<Rightarrow> 'p \<Rightarrow> (kerr, string \<times> 'p) res" where
  "print_KSequence kore n pc p =
     (if kore then
        bindr (seq_kore pc (nat n) p) (\<lambda>(ts, p').
        Inr (ts @ ''dotk{}()'' @ replicate (nat n) (CHR '')''), p'))
      else
        bindr (seq_kast pc (nat n) p) (\<lambda>(ts, p').
        Inr ((if n = 0 then ''.K'' else '''') @ ts, p')))"

fun print_node :: "bool \<Rightarrow> node \<Rightarrow> sort \<Rightarrow> 'p printer \<Rightarrow> 'p \<Rightarrow> (kerr, string \<times> 'p) res" where
  "print_node kore (KApply label s sig) parentSort pc p = print_KApply kore label s sig parentSort pc p"
| "print_node kore (KToken v s) parentSort pc p = Inr (print_KToken kore v s, p)"
| "print_node kore (KSequence n) parentSort pc p = print_KSequence kore n pc p"

text \<open>
  \<open>Kast::print\<close> at an index: a child is printed at the index after the one reached, and
  the last index used is returned. The depth of the recursion is bounded by the first
  argument.
\<close>

fun kast_print_at :: "nat \<Rightarrow> bool \<Rightarrow> node list \<Rightarrow> sort \<Rightarrow> nat \<Rightarrow> (kerr, string \<times> nat) res" where
  "kast_print_at 0 kore nodes parentSort idx = Inl NoFuel"
| "kast_print_at (Suc k) kore nodes parentSort idx =
     (if idx < length nodes
      then print_node kore (nodes ! idx) parentSort
             (\<lambda>s i. kast_print_at k kore nodes s (i + 1)) idx
      else Inl (NoNode idx))"

definition kast_print :: "bool \<Rightarrow> node list \<Rightarrow> (kerr, string) res" where
  "kast_print kore nodes =
     bindr (kast_print_at (length nodes + 1) kore nodes K 0) (\<lambda>(t, i). Inr t)"

declare show_nat.simps [simp del]

section \<open>Terms and their prefix code\<close>

text \<open>\<open>terms k ns\<close>: the nodes are exactly \<open>k\<close> complete terms, one after the other.\<close>

fun terms :: "nat \<Rightarrow> node list \<Rightarrow> bool" where
  "terms k [] \<longleftrightarrow> k = 0"
| "terms 0 (n # ns) \<longleftrightarrow> False"
| "terms (Suc k) (n # ns) \<longleftrightarrow> terms (arity n + k) ns"

lemma terms_Cons: "terms k (n # ns) \<longleftrightarrow> (\<exists>j. k = Suc j \<and> terms (arity n + j) ns)"
  by (cases k) simp_all

lemma terms_append: "terms j xs \<Longrightarrow> terms k ys \<Longrightarrow> terms (j + k) (xs @ ys)"
proof (induction xs arbitrary: j)
  case Nil
  then show ?case by simp
next
  case (Cons n xs)
  then obtain i where i: "j = Suc i" "terms (arity n + i) xs" by (auto simp: terms_Cons)
  from Cons.IH [OF i(2) Cons.prems(2)] i(1) show ?case by (simp add: add.assoc)
qed

lemma terms_node: "terms (arity n) ns \<Longrightarrow> terms 1 (n # ns)"
  by simp

lemma terms_prefix_free: "terms k xs \<Longrightarrow> terms k (xs @ ys) \<Longrightarrow> ys = []"
proof (induction xs arbitrary: k)
  case Nil
  then show ?case by (cases ys) (auto simp: terms_Cons)
next
  case (Cons n xs)
  then show ?case by (auto simp: terms_Cons)
qed

datatype kterm = Term node "kterm list"

fun flatten :: "kterm \<Rightarrow> node list" where
  "flatten (Term n ts) = n # concat (map flatten ts)"

fun wf_term :: "kterm \<Rightarrow> bool" where
  "wf_term (Term n ts) \<longleftrightarrow> length ts = arity n \<and> (\<forall>t\<in>set ts. wf_term t)"

lemma terms_concat: "\<forall>t\<in>set ts. terms 1 (flatten t) \<Longrightarrow> terms (length ts) (concat (map flatten ts))"
proof (induction ts)
  case Nil
  then show ?case by simp
next
  case (Cons t ts)
  then show ?case using terms_append [of 1 "flatten t" "length ts" "concat (map flatten ts)"] by simp
qed

lemma terms_flatten: "wf_term t \<Longrightarrow> terms 1 (flatten t)"
proof (induction t)
  case (Term n ts)
  then have "terms (length ts) (concat (map flatten ts))" by (intro terms_concat) auto
  with Term.prems show ?case by simp
qed

lemma terms_forest:
  "terms k ns \<Longrightarrow> \<exists>ts. length ts = k \<and> (\<forall>t\<in>set ts. wf_term t) \<and> concat (map flatten ts) = ns"
proof (induction ns arbitrary: k)
  case Nil
  then show ?case by simp
next
  case (Cons n ns)
  then obtain j where j: "k = Suc j" "terms (arity n + j) ns" by (auto simp: terms_Cons)
  from Cons.IH [OF j(2)] obtain ts where
    ts: "length ts = arity n + j" "\<forall>t\<in>set ts. wf_term t" "concat (map flatten ts) = ns" by blast
  have "wf_term (Term n (take (arity n) ts))"
    using ts(1,2) by (auto dest: in_set_takeD)
  moreover have "\<forall>t\<in>set (drop (arity n) ts). wf_term t" using ts(2) by (auto dest: in_set_dropD)
  moreover have "concat (map flatten (take (arity n) ts)) @ concat (map flatten (drop (arity n) ts)) = ns"
    using ts(3) by (metis append_take_drop_id concat_append map_append)
  ultimately show ?case
    using ts(1) j(1)
    by (intro exI [of _ "Term n (take (arity n) ts) # drop (arity n) ts"]) simp
qed

lemma terms_tree: "terms 1 ns \<Longrightarrow> \<exists>t. wf_term t \<and> flatten t = ns"
  using terms_forest [of 1 ns] by (force simp: length_Suc_conv)

section \<open>Printing a term\<close>

fun join :: "'a list \<Rightarrow> 'a list list \<Rightarrow> 'a list" where
  "join sep [] = []"
| "join sep [t] = t"
| "join sep (t # ts) = t @ sep @ join sep ts"

fun child_sorts :: "node \<Rightarrow> sort list" where
  "child_sorts (KApply label s sig) = sig"
| "child_sorts (KToken v s) = []"
| "child_sorts (KSequence n) = replicate (nat n) KITEM"

fun pp_node :: "bool \<Rightarrow> node \<Rightarrow> sort \<Rightarrow> string list \<Rightarrow> string" where
  "pp_node kore (KApply label s sig) parentSort ts =
     open_inj kore s parentSort @ makeKLabel kore label @ ''('' @
     (if \<not> kore \<and> sig = [] then ''.KList'' else join '','' ts) @ '')'' @ close_inj kore s parentSort"
| "pp_node kore (KToken v s) parentSort ts = print_KToken kore v s"
| "pp_node kore (KSequence n) parentSort ts =
     (if kore then foldr (\<lambda>t r. ''kseq{}('' @ t @ '', '' @ r @ '')'') ts ''dotk{}()''
      else if n = 0 then ''.K'' else join ''~>'' ts)"

function pp :: "bool \<Rightarrow> sort \<Rightarrow> kterm \<Rightarrow> string" where
  "pp kore parentSort (Term n ts) =
     pp_node kore n parentSort (map2 (\<lambda>s t. pp kore s t) (child_sorts n) ts)"
  by pat_completeness auto
termination
  by (relation "measure (\<lambda>(kore, s, t). size t)")
     (auto dest!: set_zip_rightD simp: less_Suc_eq_le size_list_estimation')

lemma length_child_sorts [simp]: "length (child_sorts n) = arity n"
  by (cases n) simp_all

text \<open>A chain of child prints: the texts and the place reached.\<close>

fun chain :: "'p printer \<Rightarrow> sort list \<Rightarrow> 'p \<Rightarrow> string list \<Rightarrow> 'p \<Rightarrow> bool" where
  "chain pc [] p [] p' \<longleftrightarrow> p = p'"
| "chain pc (s # ss) p (t # ts) p' \<longleftrightarrow> (\<exists>q. pc s p = Inr (t, q) \<and> chain pc ss q ts p')"
| "chain pc _ p _ p' \<longleftrightarrow> False"

lemma chain_length: "chain pc ss p ts p' \<Longrightarrow> length ss = length ts"
  by (induction pc ss p ts p' rule: chain.induct) auto

lemma print_children_chain:
  "chain pc ss p ts p' \<Longrightarrow>
   print_children pc first ss p = Inr ((if first \<or> ts = [] then '''' else '','') @ join '','' ts, p')"
proof (induction pc ss p ts p' arbitrary: first rule: chain.induct)
  case (2 pc s ss p t ts p')
  then obtain q where "pc s p = Inr (t, q)" "chain pc ss q ts p'" by auto
  with "2.IH" [of q False] show ?case by (cases ts) simp_all
qed auto

lemma seq_kast_chain:
  "chain pc ss p ts p' \<Longrightarrow> ss = replicate n KITEM \<Longrightarrow> seq_kast pc n p = Inr (join ''~>'' ts, p')"
proof (induction pc ss p ts p' arbitrary: n rule: chain.induct)
  case (2 pc s ss p t ts p')
  then obtain m q where "n = Suc m" "s = KITEM" "ss = replicate m KITEM" "pc s p = Inr (t, q)"
    "chain pc ss q ts p'" by (cases n) auto
  moreover from this chain_length have "m = length ts" by fastforce
  ultimately show ?case using "2.IH" [of q m] by (cases ts) simp_all
qed (auto dest: chain_length)

lemma seq_kore_chain:
  "chain pc ss p ts p' \<Longrightarrow> ss = replicate n KITEM \<Longrightarrow>
   bindr (seq_kore pc n p) (\<lambda>(r, q). Inr (r @ z @ replicate n (CHR '')''), q)) =
   Inr (foldr (\<lambda>t r. ''kseq{}('' @ t @ '', '' @ r @ '')'') ts z, p')"
proof (induction pc ss p ts p' arbitrary: n z rule: chain.induct)
  case (2 pc s ss p t ts p')
  then obtain m q where m: "n = Suc m" "s = KITEM" "ss = replicate m KITEM" "pc s p = Inr (t, q)"
    "chain pc ss q ts p'" by (cases n) auto
  then obtain r q' where "seq_kore pc m q = Inr (r, q')" 
    using "2.IH" [of q m z] by (cases "seq_kore pc m q") auto
  with "2.IH" [OF m(5,3), of z] m show ?case by (simp flip: replicate_append_same)
qed (auto dest: chain_length)

lemma print_node_chain:
  "chain pc (child_sorts n) p ts p' \<Longrightarrow> print_node kore n s pc p = Inr (pp_node kore n s ts, p')"
proof (cases n)
  case (KApply label s' sig)
  assume "chain pc (child_sorts n) p ts p'"
  with print_children_chain [of pc sig p ts p' True] chain_length [of pc sig p ts p'] KApply
  show ?thesis by (auto simp: print_KApply_def)
next
  case (KToken v s')
  assume "chain pc (child_sorts n) p ts p'"
  with KToken show ?thesis by (cases ts) simp_all
next
  case (KSequence k)
  assume "chain pc (child_sorts n) p ts p'"
  with seq_kast_chain [of pc _ p ts p' "nat k"] seq_kore_chain [of pc _ p ts p' "nat k" "''dotk{}()''"]
    chain_length [of pc _ p ts p'] KSequence
  show ?thesis by (auto simp: print_KSequence_def)
qed

lemma kast_print_at_term:
  "wf_term t \<Longrightarrow> length (flatten t) \<le> k \<Longrightarrow> nodes = pre @ flatten t @ post \<Longrightarrow>
   kast_print_at k kore nodes s (length pre) = Inr (pp kore s t, length pre + length (flatten t) - 1)"
proof (induction k arbitrary: t pre post s)
  case 0
  then show ?case by (cases t) simp
next
  case (Suc k)
  obtain n ts where t: "t = Term n ts" by (cases t)
  let ?pc = "\<lambda>s i. kast_print_at k kore nodes s (i + 1)"
  have chain: "chain ?pc ss (length pre') (map2 (\<lambda>s t. pp kore s t) ss us)
      (length pre' + length (concat (map flatten us)))"
    if "length us = length ss" and "\<forall>u\<in>set us. wf_term u"
      and "length (concat (map flatten us)) \<le> k" and "nodes = pre' @ x # concat (map flatten us) @ post"
    for ss us pre' x
    using that
  proof (induction us arbitrary: ss pre' x)
    case Nil
    then show ?case by simp
  next
    case (Cons u us)
    obtain s1 ss1 where ss: "ss = s1 # ss1" using Cons.prems(1) by (cases ss) simp_all
    obtain m us' where u: "u = Term m us'" by (cases u)
    have "kast_print_at k kore nodes s1 (length (pre' @ [x])) =
        Inr (pp kore s1 u, length (pre' @ [x]) + length (flatten u) - 1)"
      using Cons.prems by (intro Suc.IH [of u "pre' @ [x]" "concat (map flatten us) @ post"]) simp_all
    moreover obtain zs z where zs: "x # flatten u = zs @ [z]" "length zs = length (flatten u)"
      by (cases "x # flatten u" rule: rev_cases) (simp, metis length_append_singleton length_Cons nat.inject)
    have "chain ?pc ss1 (length (pre' @ zs)) (map2 (\<lambda>s t. pp kore s t) ss1 us)
        (length (pre' @ zs) + length (concat (map flatten us)))"
    proof (rule Cons.IH)
      show "nodes = (pre' @ zs) @ z # concat (map flatten us) @ post"
        using Cons.prems(4) zs(1) by (metis append.assoc append_Cons append_Nil concat.simps(2) list.simps(9))
    qed (use Cons.prems ss in simp_all)
    ultimately show ?case using zs(2) by (simp add: ss add.assoc)
  qed
  have "chain ?pc (child_sorts n) (length pre) (map2 (\<lambda>s t. pp kore s t) (child_sorts n) ts)
      (length pre + length (concat (map flatten ts)))"
    by (rule chain [of _ _ _ n]) (use Suc.prems t in simp_all)
  from print_node_chain [OF this] Suc.prems t show ?case by simp
qed

text \<open>A vector that holds one complete term is printed to its end, as that term.\<close>

lemma kast_print_terms:
  assumes "terms 1 ns"
  shows "\<exists>t. wf_term t \<and> flatten t = ns \<and> kast_print kore ns = Inr (pp kore K t)"
proof -
  obtain t where t: "wf_term t" "flatten t = ns" using terms_tree [OF assms] by blast
  have "kast_print_at (length ns + 1) kore ns K (length ([] :: node list)) =
      Inr (pp kore K t, length ([] :: node list) + length (flatten t) - 1)"
    by (rule kast_print_at_term [OF t(1)]) (simp_all add: t(2))
  with t show ?thesis by (auto simp: kast_print_def simp del: kast_print_at.simps)
qed

section \<open>Escaped text can be read back\<close>

definition hex_value :: "char \<Rightarrow> nat option" where
  "hex_value c = (let n = of_char c in
     if 48 \<le> n \<and> n \<le> 57 then Some (n - 48) else if 97 \<le> n \<and> n \<le> 102 then Some (n - 87) else None)"

text \<open>Reading one escaped character: the character and the rest.\<close>

fun read_char :: "string \<Rightarrow> (char \<times> string) option" where
  "read_char [] = None"
| "read_char (c # cs) =
     (if c = CHR 0x22 then None
      else if c \<noteq> CHR 0x5C then Some (c, cs)
      else (case cs of
          [] \<Rightarrow> None
        | d # ds \<Rightarrow>
            if d = CHR ''n'' then Some (CHR 0x0A, ds)
            else if d = CHR ''t'' then Some (CHR 0x09, ds)
            else if d = CHR ''r'' then Some (CHR 0x0D, ds)
            else if d = CHR ''x'' then
              (case ds of h # l # rest \<Rightarrow>
                 (case (hex_value h, hex_value l) of
                    (Some a, Some b) \<Rightarrow> Some (char_of (16 * a + b), rest)
                  | _ \<Rightarrow> None)
               | _ \<Rightarrow> None)
            else Some (d, ds)))"

lemma read_char_shorter: "read_char s = Some (c, r) \<Longrightarrow> length r < length s"
  by (cases s) (auto split: if_splits list.splits option.splits)

text \<open>Reading up to the closing quote.\<close>

function read_quoted :: "string \<Rightarrow> (string \<times> string) option" where
  "read_quoted s =
     (if s \<noteq> [] \<and> hd s = CHR 0x22 then Some ([], tl s)
      else (case read_char s of
          None \<Rightarrow> None
        | Some (c, r) \<Rightarrow> map_option (\<lambda>(cs, r'). (c # cs, r')) (read_quoted r)))"
  by pat_completeness auto
termination
  by (relation "measure length") (auto dest: read_char_shorter)

lemma char_code_high: "of_char c div 16 < (16 :: nat)"
  by (rule less_mult_imp_div_less) (use nat_of_char_less_256 [of c] in simp)

lemma hex_value_digit: "n < 16 \<Longrightarrow> hex_value (hex_digit n) = Some n"
  by (auto simp: hex_value_def hex_digit_def Let_def)

lemma read_char_escape: "read_char (escape_char c @ r) = Some (c, r)"
proof -
  have "char_of (16 * (of_char c div 16) + of_char c mod (16 :: nat)) = c"
    by (simp add: mult_div_mod_eq)
  with char_code_high [of c] show ?thesis
    by (simp add: escape_char_def hex_escape_def hex_value_digit)
qed

lemma escape_loop_concat: "escape_loop res cs = res @ concat (map escape_char cs)"
  by (induction cs arbitrary: res) simp_all

lemma escape_char_head: "escape_char c \<noteq> [] \<and> hd (escape_char c) \<noteq> CHR 0x22"
  by (simp add: escape_char_def hex_escape_def)

declare read_quoted.simps [simp del] read_char.simps [simp del]

lemma read_quoted_escape: "read_quoted (escape s @ CHR 0x22 # r) = Some (s, r)"
proof -
  have "read_quoted (concat (map escape_char cs) @ CHR 0x22 # r) = Some (cs, r)" for cs
  proof (induction cs)
    case Nil
    then show ?case by (subst read_quoted.simps) simp
  next
    case (Cons c cs)
    with escape_char_head [of c] read_char_escape [of c] show ?case
      by (subst read_quoted.simps) simp
  qed
  then show ?thesis by (simp add: escape_def escape_loop_concat)
qed

lemma hex_digit_printable: "n < 16 \<Longrightarrow> 32 \<le> (of_char (hex_digit n) :: nat) \<and> (of_char (hex_digit n) :: nat) < 127"
  by (simp add: hex_digit_def)

lemma escape_char_printable: "\<forall>d\<in>set (escape_char c). 32 \<le> (of_char d :: nat) \<and> (of_char d :: nat) < 127"
  using char_code_high [of c] by (simp add: escape_char_def hex_escape_def hex_digit_printable)

lemma escape_printable: "\<forall>d\<in>set (escape s). 32 \<le> (of_char d :: nat) \<and> (of_char d :: nat) < 127"
  using escape_char_printable by (auto simp: escape_def escape_loop_concat)

section \<open>Labels can be read back\<close>

text \<open>
  The escaped label as a function of the mode the text is in: inside quotes the codes follow
  each other without a separator.
\<close>

fun enc_label :: "bool \<Rightarrow> string \<Rightarrow> string" where
  "enc_label inq [] = (if inq then [CHR 0x27] else [])"
| "enc_label inq (c # cs) =
     (case map_of label_subst c of
        Some subst \<Rightarrow> (if inq then [] else [CHR 0x27]) @ butlast subst @ enc_label True cs
      | None \<Rightarrow> (if inq then [CHR 0x27] else []) @ c # enc_label False cs)"

definition label_code :: "string \<Rightarrow> (char \<times> string) option" where
  "label_code s =
     (if take 3 s = ''And'' then Some (CHR ''&'', drop 3 s)
      else map_option (\<lambda>c. (c, drop 4 s))
             (map_of (map (\<lambda>(c, subst). (butlast subst, c)) label_subst) (take 4 s)))"

lemma label_subst_ends: "\<forall>(c, subst)\<in>set label_subst. subst \<noteq> [] \<and> last subst = CHR 0x27"
  by (simp add: label_subst_def)

lemma label_subst_code:
  "\<forall>(c, subst)\<in>set label_subst. label_code (butlast subst @ r) = Some (c, r) \<and>
     hd (butlast subst @ r) \<noteq> CHR 0x27 \<and> butlast subst \<noteq> []"
  by (simp add: label_subst_def label_code_def)

lemma label_subst_quote: "map_of label_subst (CHR 0x27) \<noteq> None"
  by (simp add: label_subst_def)

lemma label_subst_SomeD:
  assumes "map_of label_subst c = Some subst"
  obtains code where "subst = code @ [CHR 0x27]" and "code \<noteq> []"
    and "\<And>r. label_code (code @ r) = Some (c, r)" and "\<And>r. hd (code @ r) \<noteq> CHR 0x27"
proof -
  note m = map_of_SomeD [OF assms]
  have "subst \<noteq> []" "last subst = CHR 0x27" using label_subst_ends m by auto
  then have "subst = butlast subst @ [CHR 0x27]" by (metis append_butlast_last_id)
  moreover have "butlast subst \<noteq> []" "label_code (butlast subst @ r) = Some (c, r)"
    "hd (butlast subst @ r) \<noteq> CHR 0x27" for r
    using label_subst_code [of r] m by auto
  ultimately show thesis by (intro that [of "butlast subst"])
qed

lemma escapeKLabel_loop_enc:
  "(res = [] \<or> last res \<noteq> CHR 0x27 \<longrightarrow> escapeKLabel_loop res cs = res @ enc_label False cs) \<and>
   escapeKLabel_loop (res @ [CHR 0x27]) cs = res @ enc_label True cs"
proof (induction cs arbitrary: res)
  case Nil
  then show ?case by simp
next
  case (Cons c cs)
  show ?case
  proof (cases "map_of label_subst c")
    case None
    then have "c \<noteq> CHR 0x27" using label_subst_quote by auto
    with None Cons.IH [of "res @ [c]"] Cons.IH [of "res @ [CHR 0x27, c]"] show ?thesis by simp
  next
    case (Some subst)
    obtain code where "subst = code @ [CHR 0x27]" using Some by (rule label_subst_SomeD)
    with Some Cons.IH [of "res @ code"] Cons.IH [of "res @ [CHR 0x27] @ code"]
    show ?thesis by auto
  qed
qed

function read_label :: "bool \<Rightarrow> string \<Rightarrow> string option" where
  "read_label False s =
     (case s of [] \<Rightarrow> Some []
      | c # cs \<Rightarrow> if c = CHR 0x27 then read_label True cs else map_option (Cons c) (read_label False cs))"
| "read_label True s =
     (if s = [] then None
      else if hd s = CHR 0x27 then read_label False (tl s)
      else (case label_code s of
          None \<Rightarrow> None
        | Some (c, r) \<Rightarrow> map_option (Cons c) (read_label True r)))"
  by pat_completeness auto
termination
  by (relation "measure (\<lambda>(q, s). length s)") (auto simp: label_code_def split: if_splits)

declare read_label.simps [simp del]

lemma read_label_enc: "read_label q (enc_label q cs) = Some cs"
proof (induction cs arbitrary: q)
  case Nil
  then show ?case by (cases q) (simp_all add: read_label.simps)
next
  case (Cons c cs)
  show ?case
  proof (cases "map_of label_subst c")
    case None
    then have "c \<noteq> CHR 0x27" using label_subst_quote by auto
    with None Cons.IH [of False] show ?thesis
      by (cases q) (simp_all add: read_label.simps(2) read_label.simps(1) [of "c # _"])
  next
    case (Some subst)
    obtain code where code: "subst = code @ [CHR 0x27]" "code \<noteq> []"
      "\<And>r. label_code (code @ r) = Some (c, r)" "\<And>r. hd (code @ r) \<noteq> CHR 0x27"
      by (rule label_subst_SomeD [OF Some]) (rule that)
    have "read_label True (code @ enc_label True cs) = Some (c # cs)"
      using code Cons.IH [of True] by (subst read_label.simps) simp
    with Some code(1) show ?thesis by (cases q) (simp_all add: read_label.simps(1))
  qed
qed

lemma escapeKLabel_read: "read_label False (escapeKLabel label) = Some label"
  using escapeKLabel_loop_enc [of "[]" label] by (simp add: escapeKLabel_def read_label_enc)

section \<open>Numerals\<close>

fun read_nat :: "nat \<Rightarrow> string \<Rightarrow> nat" where
  "read_nat v [] = v"
| "read_nat v (c # cs) = read_nat (10 * v + (of_char c - 48)) cs"

lemma read_nat_snoc: "read_nat v (cs @ [c]) = 10 * read_nat v cs + (of_char c - 48)"
  by (induction cs arbitrary: v) simp_all

lemma read_show_nat: "read_nat 0 (show_nat n) = n"
proof (induction n rule: show_nat.induct)
  case (1 n)
  then show ?case by (subst show_nat.simps) (simp add: read_nat_snoc)
qed

text \<open>A numeral is made of digits, at least one.\<close>

definition digit :: "char \<Rightarrow> bool" where
  "digit c \<longleftrightarrow> 48 \<le> (of_char c :: nat) \<and> (of_char c :: nat) \<le> 57"

lemma digit_char_of: "(n :: nat) < 10 \<Longrightarrow> digit (char_of (48 + n))"
  by (simp add: digit_def)

lemma show_nat_digits: "c \<in> set (show_nat n) \<Longrightarrow> digit c"
proof (induction n rule: show_nat.induct)
  case (1 n)
  then show ?case
    by (cases "n < 10") (auto simp: show_nat.simps [of n] digit_char_of)
qed

lemma show_nat_Cons: "\<exists>c cs. show_nat n = c # cs \<and> digit c"
proof -
  have "show_nat n \<noteq> []" by (subst show_nat.simps) simp
  then show ?thesis using show_nat_digits [of "hd (show_nat n)" n] by (cases "show_nat n") auto
qed

lemma length_show_nat: "0 < k \<Longrightarrow> n < 10 ^ k \<Longrightarrow> length (show_nat n) \<le> k"
proof (induction n arbitrary: k rule: show_nat.induct)
  case (1 n)
  show ?case
  proof (cases "n < 10")
    case True
    with "1.prems" show ?thesis by (subst show_nat.simps) simp
  next
    case False
    with "1.prems" obtain j where j: "k = Suc j" "0 < j" by (cases k; cases "k - 1") auto
    with "1.prems" have "n div 10 < 10 ^ j" by (simp add: less_mult_imp_div_less mult.commute)
    with "1.IH" [OF False j(2)] False j(1) show ?thesis by (subst show_nat.simps) simp
  qed
qed

lemma show_nat_length_ge: "10 ^ k \<le> n \<Longrightarrow> k < length (show_nat n)"
proof (induction n arbitrary: k rule: show_nat.induct)
  case (1 n)
  show ?case
  proof (cases k)
    case 0
    then show ?thesis by (subst show_nat.simps) simp
  next
    case (Suc j)
    have "(1 :: nat) \<le> 10 ^ j" by simp
    moreover have "10 * 10 ^ j \<le> n" using Suc "1.prems" by simp
    ultimately have "\<not> n < 10" by linarith
    moreover have "10 ^ j \<le> n div 10"
      using \<open>10 * 10 ^ j \<le> n\<close> by (simp add: less_eq_div_iff_mult_less_eq mult.commute)
    ultimately have "\<not> n < 10" and "10 ^ j \<le> n div 10" by simp_all
    with "1.IH" [of j] Suc show ?thesis by (subst show_nat.simps) simp
  qed
qed

lemma toKString_ull_fits: "toKString_ull s = Inr (show_nat (unat s))"
proof -
  have "unat s < 10 ^ 20" using unat_u64_less [of s] by simp
  then have "length (show_nat (unat s)) \<le> 20" by (intro length_show_nat) simp_all
  then show ?thesis by (simp add: toKString_ull_def sprintf_buf_def)
qed

lemma signed_take_bit_nat: "n < 2 ^ 31 \<Longrightarrow> signed_take_bit 31 (int n) = int n"
  by (intro signed_take_bit_int_eq_self) simp_all

lemma toKString_unsigned_small:
  "unat i < 2 ^ 31 \<Longrightarrow> toKString_unsigned i = Inr (show_nat (unat i))"
proof -
  assume i: "unat i < 2 ^ 31"
  have "sint i = signed_take_bit 31 (int (unat i))" by (simp only: sint_uint uint_nat) simp
  also have "\<dots> = int (unat i)" using i by (rule signed_take_bit_nat)
  finally have s: "sint i = int (unat i)" .
  from i have "length (show_nat (unat i)) \<le> 10" by (intro length_show_nat) simp_all
  then show ?thesis by (simp add: toKString_unsigned_def show_int_def sprintf_buf_def s)
qed

lemma toKString_unsigned_overflow:
  "sint i \<le> - 1000000000 \<Longrightarrow> toKString_unsigned i = Inl BufferOverflow"
proof -
  assume "sint i \<le> - 1000000000"
  then have "10 ^ 9 \<le> nat (- sint i)" and neg: "sint i < 0" by simp_all
  from show_nat_length_ge [OF this(1)] neg show ?thesis
    by (simp add: toKString_unsigned_def show_int_def sprintf_buf_def)
qed

lemma signed_take_bit_high:
  "2 ^ 31 \<le> n \<Longrightarrow> n < 2 ^ 32 \<Longrightarrow> signed_take_bit 31 (int n) = int n - 2 ^ 32"
proof -
  assume n: "2 ^ 31 \<le> n" "n < 2 ^ 32"
  then have "(int n - 2147483648 + 4294967296) mod 4294967296 = int n - 2147483648"
    unfolding mod_add_self2 by (intro mod_pos_pos_trivial) simp_all
  then have "(int n + 2147483648) mod 4294967296 = int n - 2147483648" by (simp add: add.commute)
  then show ?thesis by (simp add: signed_take_bit_eq_take_bit_shift take_bit_eq_mod)
qed

lemma sint_high: "2 ^ 31 \<le> unat (i :: u32) \<Longrightarrow> sint i = int (unat i) - 2 ^ 32"
proof -
  assume high: "2 ^ 31 \<le> unat i"
  have "unat i < 2 ^ 32" using unat_u32_less [of i] by simp
  have "sint i = signed_take_bit 31 (int (unat i))" by (simp only: sint_uint uint_nat) simp
  also have "\<dots> = int (unat i) - 2 ^ 32"
    using high \<open>unat i < 2 ^ 32\<close> by (rule signed_take_bit_high)
  finally show ?thesis .
qed

section \<open>Properties\<close>

text \<open>
  C14: \<open>Kast::print\<close> (ClangKast.cc) at an index where a complete term starts prints exactly
  that term, nested and with the injections its sorts ask for, and returns the index of the
  term's last node, wherever the term stands in the vector.
\<close>

theorem print_is_pretty_print:
  assumes "wf_term t" and "length (flatten t) \<le> k"
  shows "kast_print_at k kore (pre @ flatten t @ post) s (length pre) =
    Inr (pp kore s t, length pre + length (flatten t) - 1)"
  using assms by (rule kast_print_at_term) simp

theorem print_is_pretty_print_witness:
  "kast_print_at 3 True
     ([KSequence 1] @ [KApply ''f'' EXPR [INT', EXPR], KToken ''1'' INT', KApply ''g'' EXPR []] @ []) K
     (length [KSequence 1]) =
   Inr (''kseq{}(inj{SortExpr{}, SortKItem{}}(Lblf{}('' @ [CHR 0x5C] @ ''dv{SortInt{}}('' @ [CHR 0x22] @ ''1'' @
     [CHR 0x22] @ ''),Lblg{}())), dotk{}())'', 3)"
proof -
  let ?t = "Term (KApply ''f'' EXPR [INT', EXPR]) [Term (KToken ''1'' INT') [], Term (KApply ''g'' EXPR []) []]"
  have "wf_term ?t" and "length (flatten ?t) \<le> 3" by simp_all
  from print_is_pretty_print [OF this, of True "[KSequence 1]" "[]" K]
  have "kast_print_at 3 True ([KSequence 1] @ flatten ?t @ []) K (length [KSequence 1]) =
      Inr (pp True K ?t, length [KSequence 1] + length (flatten ?t) - 1)" .
  moreover have "pp True K ?t = ''kseq{}(inj{SortExpr{}, SortKItem{}}(Lblf{}('' @ [CHR 0x5C] @
      ''dv{SortInt{}}('' @ [CHR 0x22] @ ''1'' @ [CHR 0x22] @ ''),Lblg{}())), dotk{}())''"
    by (simp add: open_inj_def close_inj_def print_sort_def sort_name_def makeKLabel_def escapeKLabel_def
        label_subst_def print_KToken_def escape_def escape_char_def)
  ultimately show ?thesis by (simp del: kast_print_at.simps)
qed

text \<open>
  The text of a token (\<open>KToken::escape\<close>, ClangKast.cc) has printable characters only
  and ends at the first quote that is not escaped; reading it back gives the bytes it was made
  from, whatever they are.
\<close>

lemma token_text_roundtrip:
  "read_quoted (escape s @ CHR 0x22 # r) = Some (s, r) \<and>
   list_all (\<lambda>d. 32 \<le> (of_char d :: nat) \<and> (of_char d :: nat) < 127) (escape s)"
  using read_quoted_escape escape_printable by (simp add: list_all_iff)

text \<open>
  \<open>escapeKLabel\<close> (ClangKast.cc) maps different labels to different KORE labels.
\<close>

lemma label_escape_injective: "escapeKLabel a = escapeKLabel b \<longleftrightarrow> a = b"
  by (metis escapeKLabel_read option.inject)

text \<open>
  C29: What the tool escapes can be read back. The text of a token (\<open>KToken::escape\<close>,
  ClangKast.cc) has printable characters only and ends at the first quote that is not escaped;
  reading it gives the bytes it was made from, whatever they are. And \<open>escapeKLabel\<close> maps
  different labels to different KORE labels.
\<close>

theorem escapes_read_back:
  "read_quoted (escape s @ CHR 0x22 # r) = Some (s, r) \<and>
   list_all (\<lambda>d. 32 \<le> (of_char d :: nat) \<and> (of_char d :: nat) < 127) (escape s) \<and>
   (escapeKLabel a = escapeKLabel b \<longleftrightarrow> a = b)"
  using token_text_roundtrip label_escape_injective by simp

text \<open>
  the buffer of \<open>toKString(unsigned long long)\<close> (ClangKast.cc) holds every value, and
  the token's text is the decimal numeral of the value.
\<close>

lemma ull_token_fits: "\<exists>t. toKString_ull s = Inr t \<and> read_nat 0 t = unat s"
  using toKString_ull_fits [of s] read_show_nat by simp

text \<open>
  \<open>toKString(unsigned)\<close> (ClangKast.cc) prints with \<open>%d\<close> into eleven bytes: values
  below \<open>2 ^ 31\<close> come out right, larger ones are printed as negative numbers, and those
  whose negative has ten digits overflow the buffer.
\<close>

lemma unsigned_token_cases:
  "toKString_unsigned i =
    (if unat i < 2 ^ 31 then Inr (show_nat (unat i))
     else if unat i \<le> 2 ^ 32 - 10 ^ 9 then Inl BufferOverflow
     else Inr (CHR 0x2D # show_nat (2 ^ 32 - unat i)))"
proof (cases "unat i < 2 ^ 31")
  case True
  then show ?thesis by (simp add: toKString_unsigned_small)
next
  case False
  define n where "n = unat i"
  have n: "2 ^ 31 \<le> n" "n < 2 ^ 32" using False unat_u32_less [of i] by (simp_all add: n_def)
  have s: "sint i = int n - 2 ^ 32" using sint_high [of i] False by (simp add: n_def)
  show ?thesis
  proof (cases "n \<le> 2 ^ 32 - 10 ^ 9")
    case True
    with s have "sint i \<le> - 1000000000" by simp
    from toKString_unsigned_overflow [OF this] True False show ?thesis
      unfolding n_def by (simp only: if_False if_True)
  next
    case big: False
    have "nat (- sint i) = 2 ^ 32 - n" and "sint i < 0" unfolding s using n by auto
    then have i: "show_int (sint i) = CHR 0x2D # show_nat (2 ^ 32 - n)" by (simp add: show_int_def)
    have "length (show_nat (2 ^ 32 - n)) \<le> 9" using big n by (intro length_show_nat) simp_all
    then have "toKString_unsigned i = Inr (CHR 0x2D # show_nat (2 ^ 32 - n))"
      unfolding toKString_unsigned_def i by (simp add: sprintf_buf_def)
    with False big show ?thesis unfolding n_def by (simp only: if_False)
  qed
qed

end
