(* ===== verification/KastTotal.thy ===== *)
theory KastTotal
  imports KastPrint
begin

text \<open>
  \<open>Kast::print\<close> (ClangKast.cc) on any vector of nodes, also one that holds no complete term:
  the recursion ends, because every child is printed at a greater index than its parent, and the
  one access that can go wrong is the one just past the end of the vector.
\<close>

text \<open>
  What printing \<open>m\<close> terms behind index \<open>i\<close> may give: an access at the end of the vector, or the
  index of the last node of exactly \<open>m\<close> complete terms.
\<close>

definition stays :: "node list \<Rightarrow> nat \<Rightarrow> nat \<Rightarrow> (kerr, string \<times> nat) res \<Rightarrow> bool" where
  "stays nodes m i r \<longleftrightarrow> (case r of
     Inl e \<Rightarrow> e = NoNode (length nodes)
   | Inr (t, j) \<Rightarrow> i \<le> j \<and> j < length nodes \<and> terms m (take (j - i) (drop (Suc i) nodes)))"

lemma stays_none: "i < length nodes \<Longrightarrow> stays nodes 0 i (Inr (t, i))"
  by (simp add: stays_def)

lemma stays_bind:
  assumes "stays nodes m i r" and "\<And>t j. i \<le> j \<Longrightarrow> j < length nodes \<Longrightarrow> stays nodes n j (f t j)"
  shows "stays nodes (m + n) i (bindr r (\<lambda>(t, j). bindr (f t j) (\<lambda>(u, l). Inr (g t u, l))))"
proof (cases r)
  case (Inl e)
  with assms(1) show ?thesis by (simp add: stays_def)
next
  case (Inr tj)
  obtain t j where r: "r = Inr (t, j)" using Inr by (cases tj) simp
  then have j: "i \<le> j" "j < length nodes" "terms m (take (j - i) (drop (Suc i) nodes))"
    using assms(1) by (simp_all add: stays_def)
  show ?thesis
  proof (cases "f t j")
    case (Inl e)
    with assms(2) [OF j(1,2), of t] r show ?thesis by (simp add: stays_def)
  next
    case (Inr ul)
    obtain u l where f: "f t j = Inr (u, l)" using Inr by (cases ul) simp
    then have l: "j \<le> l" "l < length nodes" "terms n (take (l - j) (drop (Suc j) nodes))"
      using assms(2) [OF j(1,2), of t] by (simp_all add: stays_def)
    have "take (l - i) (drop (Suc i) nodes) =
        take (j - i) (drop (Suc i) nodes) @ take (l - j) (drop (Suc j) nodes)"
      using j l take_add [of "j - i" "l - j" "drop (Suc i) nodes"] by simp
    with terms_append [OF j(3) l(3)] j l r f show ?thesis by (simp add: stays_def)
  qed
qed

lemma stays_map: "stays nodes m i (bindr r (\<lambda>(t, j). Inr (g t, j))) \<longleftrightarrow> stays nodes m i r"
  by (cases r) (auto simp: stays_def)

text \<open>A printer of children that stays within the vector at every index from \<open>i\<close> on.\<close>

definition child_printer :: "node list \<Rightarrow> nat \<Rightarrow> nat printer \<Rightarrow> bool" where
  "child_printer nodes i pc \<longleftrightarrow> (\<forall>s j. i \<le> j \<longrightarrow> j < length nodes \<longrightarrow> stays nodes 1 j (pc s j))"

lemma child_printer_later: "child_printer nodes i pc \<Longrightarrow> i \<le> j \<Longrightarrow> child_printer nodes j pc"
  by (auto simp: child_printer_def)

lemma child_printerD: "child_printer nodes i pc \<Longrightarrow> i < length nodes \<Longrightarrow> stays nodes 1 i (pc s i)"
  by (simp add: child_printer_def)

lemma print_children_stays:
  "child_printer nodes i pc \<Longrightarrow> i < length nodes \<Longrightarrow> stays nodes (length ss) i (print_children pc first ss i)"
proof (induction ss arbitrary: i first)
  case (Cons s ss)
  from stays_bind [OF child_printerD [OF Cons.prems], where f = "\<lambda>t j. print_children pc False ss j"]
    Cons.IH child_printer_later [OF Cons.prems(1)] show ?case by simp
qed (simp add: stays_none)

lemma seq_kore_stays:
  "child_printer nodes i pc \<Longrightarrow> i < length nodes \<Longrightarrow> stays nodes n i (seq_kore pc n i)"
proof (induction n arbitrary: i)
  case (Suc n)
  from stays_bind [OF child_printerD [OF Suc.prems], where f = "\<lambda>t j. seq_kore pc n j"]
    Suc.IH child_printer_later [OF Suc.prems(1)] show ?case by simp
qed (simp add: stays_none)

lemma seq_kast_stays:
  "child_printer nodes i pc \<Longrightarrow> i < length nodes \<Longrightarrow> stays nodes n i (seq_kast pc n i)"
proof (induction n arbitrary: i)
  case (Suc n)
  from stays_bind [OF child_printerD [OF Suc.prems], where f = "\<lambda>t j. seq_kast pc n j"]
    Suc.IH child_printer_later [OF Suc.prems(1)] show ?case by simp
qed (simp add: stays_none)

lemma print_node_stays:
  "child_printer nodes i pc \<Longrightarrow> i < length nodes \<Longrightarrow> stays nodes (arity n) i (print_node kore n s pc i)"
  by (cases n)
    (simp_all add: print_KApply_def print_KSequence_def stays_map stays_none print_children_stays
      seq_kore_stays seq_kast_stays)

text \<open>At an index: the term that starts there.\<close>

lemma kast_print_at_total:
  "i \<le> length nodes \<Longrightarrow> length nodes - i < k \<Longrightarrow>
   case kast_print_at k kore nodes s i of
     Inl e \<Rightarrow> e = NoNode (length nodes)
   | Inr (t, j) \<Rightarrow> i \<le> j \<and> j < length nodes \<and> terms 1 (take (Suc j - i) (drop i nodes))"
proof (induction k arbitrary: i s)
  case (Suc k)
  show ?case
  proof (cases "i < length nodes")
    case True
    have "stays nodes 1 j (kast_print_at k kore nodes s' (j + 1))" if j: "i \<le> j" "j < length nodes" for s' j
    proof -
      have "case kast_print_at k kore nodes s' (Suc j) of
          Inl e \<Rightarrow> e = NoNode (length nodes)
        | Inr (t, l) \<Rightarrow> Suc j \<le> l \<and> l < length nodes \<and> terms 1 (take (Suc l - Suc j) (drop (Suc j) nodes))"
        using Suc.IH [of "Suc j" s'] Suc.prems j by simp
      then show ?thesis by (auto simp: stays_def split: sum.splits)
    qed
    then have pc: "child_printer nodes i (\<lambda>s j. kast_print_at k kore nodes s (j + 1))"
      by (simp add: child_printer_def)
    have "drop i nodes = nodes ! i # drop (Suc i) nodes" using True by (simp add: Cons_nth_drop_Suc)
    then have "take (Suc j - i) (drop i nodes) = nodes ! i # take (j - i) (drop (Suc i) nodes)" if "i \<le> j" for j
      using that by (simp add: Suc_diff_le)
    with print_node_stays [OF pc True, of "nodes ! i" kore s] True show ?thesis
      by (auto simp: stays_def split: sum.splits)
  qed (use Suc.prems in simp)
qed simp

section \<open>Properties\<close>

text \<open>
  C16: \<open>Kast::print\<close> always ends: on a vector that starts with a complete term it prints that
  term, on every other vector it reads the one node past the end. The depth of the recursion
  never exceeds the length of the vector by more than one.
\<close>

theorem print_total:
  "if \<exists>t post. wf_term t \<and> nodes = flatten t @ post
   then \<exists>t post. wf_term t \<and> nodes = flatten t @ post \<and> kast_print kore nodes = Inr (pp kore K t)
   else kast_print kore nodes = Inl (NoNode (length nodes))"
proof (cases "\<exists>t post. wf_term t \<and> nodes = flatten t @ post")
  case True
  then obtain t post where t: "wf_term t" "nodes = [] @ flatten t @ post" by auto
  have "kast_print_at (length nodes + 1) kore nodes K (length ([] :: node list)) =
      Inr (pp kore K t, length ([] :: node list) + length (flatten t) - 1)"
    using t by (intro kast_print_at_term) simp_all
  then have "kast_print kore nodes = Inr (pp kore K t)" by (simp add: kast_print_def del: kast_print_at.simps)
  with t True show ?thesis by auto
next
  case False
  have "case kast_print_at (length nodes + 1) kore nodes K 0 of
      Inl e \<Rightarrow> e = NoNode (length nodes)
    | Inr (t, j) \<Rightarrow> 0 \<le> j \<and> j < length nodes \<and> terms 1 (take (Suc j - 0) (drop 0 nodes))"
    by (rule kast_print_at_total) simp_all
  moreover have "\<not> terms 1 (take j nodes)" for j
  proof
    assume "terms 1 (take j nodes)"
    then obtain t where "wf_term t" "flatten t = take j nodes" using terms_tree by blast
    then have "wf_term t \<and> nodes = flatten t @ drop j nodes" by simp
    with False show False by blast
  qed
  ultimately have "kast_print kore nodes = Inl (NoNode (length nodes))"
    by (auto simp: kast_print_def simp del: kast_print_at.simps split: sum.splits)
  with False show ?thesis by auto
qed

end
