(* ===== verification/VisitorBase.thy ===== *)
theory VisitorBase
  imports KastPrint
begin

text \<open>
  The foundation of the model of src/clang-tools/ClangKast/GetKastVisitor.h: what a visitor
  method does, the parts of a C++ syntax tree that are values (names, nested name specifiers,
  template arguments, source locations), and the private helpers at the end of the class.

  The syntax tree itself belongs to clang. Statements, declarations and types are referred to
  by pointer; what the visitor reads of them through clang's accessors is kept in records. A
  visitor method adds nodes to the vector \<open>Kast::Nodes\<close> and returns a \<open>bool\<close>, or
  throws: its result is the nodes it added with the value it returned, or the error. Calls of
  the traversal of another statement, declaration or type go through a parameter, as they go
  through \<open>getDerived()\<close> in the code.
\<close>

section \<open>Results of visitor methods\<close>

datatype verr =
    LogicError string
  | TokenError kerr
  | OutOfFuel

datatype vres = Throw verr | Ret "node list" bool

definition add :: "node \<Rightarrow> vres" where
  "add n = Ret [n] True"

definition throw :: "string \<Rightarrow> vres" where
  "throw msg = Throw (LogicError msg)"

text \<open>The macro \<open>TRY_TO(a); k\<close>.\<close>

definition try_to :: "vres \<Rightarrow> vres \<Rightarrow> vres" where
  "try_to a k = (case a of
     Throw e \<Rightarrow> Throw e
   | Ret ns b \<Rightarrow> if \<not> b then Ret ns False else
       (case k of Throw e \<Rightarrow> Throw e | Ret ms c \<Rightarrow> Ret (ns @ ms) c))"

text \<open>A method body: its statements in order, then \<open>return true\<close>.\<close>

fun steps :: "vres list \<Rightarrow> vres" where
  "steps [] = Ret [] True"
| "steps (a # as) = try_to a (steps as)"

text \<open>A statement whose result is discarded, and a body that ends in \<open>return false\<close>.\<close>

fun discard :: "vres \<Rightarrow> vres" where
  "discard (Throw e) = Throw e"
| "discard (Ret ns b) = Ret ns True"

fun return_false :: "vres \<Rightarrow> vres" where
  "return_false (Throw e) = Throw e"
| "return_false (Ret ns b) = Ret ns False"

abbreviation handled :: "vres list \<Rightarrow> vres" where
  "handled as \<equiv> return_false (steps as)"

abbreviation skip :: vres where
  "skip \<equiv> Ret [] True"

section \<open>Values of the syntax tree\<close>

record qualtype =
  q_type :: "nat option"
  q_const :: bool
  q_volatile :: bool
  q_restrict :: bool

text \<open>\<open>QualType(T, 0)\<close>\<close>

definition plain :: "nat \<Rightarrow> qualtype" where
  "plain p = \<lparr>q_type = Some p, q_const = False, q_volatile = False, q_restrict = False\<rparr>"

datatype ref =
    RStmt "nat option"
  | RDecl "nat option"
  | RType qualtype

datatype dname =
    NameIdentifier "string option"
  | NameConversion qualtype
  | NameConstructor qualtype
  | NameDestructor qualtype
  | NameOperator string
  | NameLiteralOperator "string option"
  | NameOther

datatype nns_kind =
    NnsIdentifier "string option"
  | NnsNamespace dname
  | NnsNamespaceAlias dname
  | NnsTypeSpec nat
  | NnsTypeSpecWithTemplate nat
  | NnsGlobal
  | NnsOther

datatype nns = NnsFirst nns_kind | NnsAfter nns nns_kind

datatype tname = TemplateDecl dname | TemplateOther

datatype targ =
    ArgType qualtype
  | ArgTemplate tname
  | ArgExpression "nat option"
  | ArgIntegral nat qualtype
  | ArgPack "targ list"
  | ArgOther

text \<open>
  The calls that clang's traversal makes on the visitor for the parts of a node whose class
  the visitor does not traverse itself.
\<close>

datatype call =
    CRef ref
  | CNns "nns option"
  | CName dname
  | CArg targ
  | CTemplateName tname

text \<open>A presumed location: file, its absolute path, line, column, and whether it is in a
  system header; \<open>None\<close> when it is not valid.\<close>

type_synonym loc = "(string \<times> string \<times> u32 \<times> u32 \<times> bool) option"

text \<open>
  The visitor's fields and the option of the command line, and the spellings of clang's table
  of overloadable operators (clang/Basic/OperatorKinds.def).
\<close>

record env =
  kore :: bool
  InFile :: string
  oo_spelling :: "string \<Rightarrow> string option"

type_synonym sub = "ref \<Rightarrow> vres"

section \<open>Tokens\<close>

definition tok_string :: "env \<Rightarrow> string \<Rightarrow> vres" where
  "tok_string E s = add (KToken (toKString_string (kore E) s) STRING)"

definition VisitBool :: "bool \<Rightarrow> vres" where
  "VisitBool b = add (KToken (toKString_bool b) BOOL)"

definition VisitStringRef :: "env \<Rightarrow> string \<Rightarrow> vres" where
  "VisitStringRef E s = tok_string E s"

definition VisitAPInt :: "nat \<Rightarrow> vres" where
  "VisitAPInt i = add (KToken (toKString_APInt i) INT')"

definition tok_res :: "sort \<Rightarrow> (kerr, string) res \<Rightarrow> vres" where
  "tok_res s r = (case r of Inl e \<Rightarrow> Throw (TokenError e) | Inr v \<Rightarrow> add (KToken v s))"

definition VisitUnsigned :: "u64 \<Rightarrow> vres" where
  "VisitUnsigned i = tok_res INT' (toKString_ull i)"

definition tok_unsigned :: "u32 \<Rightarrow> vres" where
  "tok_unsigned i = tok_res INT' (toKString_unsigned i)"

definition VisitAPFloat :: "bool \<Rightarrow> apfloat \<Rightarrow> vres" where
  "VisitAPFloat isFinite f =
     (if \<not> isFinite then throw ''unimplemented: special floats'' else tok_res FLOAT (toKString_APFloat f))"

section \<open>Private helpers\<close>

definition NoNNS :: vres where
  "NoNNS = add (KApply ''NoNNS'' NNS [])"

definition NoType :: vres where
  "NoType = add (KApply ''NoType'' ATYPERESULT [])"

definition NoExpression :: vres where
  "NoExpression = add (KApply ''NoExpression'' AEXPR [])"

definition NoStatement :: vres where
  "NoStatement = add (KApply ''NoStatement'' ASTMT [])"

definition NoInit :: vres where
  "NoInit = add (KApply ''NoInit'' INIT [])"

definition KSeqList :: "nat \<Rightarrow> vres" where
  "KSeqList n = steps [add (KApply ''kSeqToList'' LIST [K]), add (KSequence (int n))]"

definition List :: "nat \<Rightarrow> vres" where
  "List n = steps [add (KApply ''list'' STRICTLIST [LIST]), KSeqList n]"

definition Name :: vres where
  "Name = add (KApply ''Name'' NAME [NNS, CID])"

definition UnaryOperator :: vres where
  "UnaryOperator = add (KApply ''UnaryOperator'' EXPR [OPID, EXPR])"

definition BinaryOperator :: vres where
  "BinaryOperator = add (KApply ''BinaryOperator'' EXPR [OPID, EXPR, INIT])"

definition Specifier0 :: vres where
  "Specifier0 = add (KApply ''Specifier'' DECL [SPECIFIER, DECL])"

definition Specifier :: "string \<Rightarrow> sort \<Rightarrow> vres" where
  "Specifier str s = steps [Specifier0, add (KApply str s [])]"

definition AlignasSpecifier :: "u64 \<Rightarrow> vres" where
  "AlignasSpecifier n = steps [Specifier0, add (KApply ''Alignas'' SPECIFIER [INT']),
     tok_res INT' (toKString_ull n)]"

definition CabsLoc :: "env \<Rightarrow> loc \<Rightarrow> vres" where
  "CabsLoc E l = (case l of
     Some (file, path, line, column, sys) \<Rightarrow>
       steps [add (KApply ''CabsLoc'' CABSLOC [STRING, STRING, INT', INT', BOOL]),
         tok_string E file, tok_string E path, VisitUnsigned (ucast line), VisitUnsigned (ucast column),
         VisitBool sys]
   | None \<Rightarrow> add (KApply ''UnknownCabsLoc_COMMON-SYNTAX'' CABSLOC []))"

text \<open>A \<open>switch\<close> over an enumeration, as the table of its cases.\<close>

definition switch :: "(string \<times> vres) list \<Rightarrow> vres \<Rightarrow> string \<Rightarrow> vres" where
  "switch cases dflt k = (case map_of cases k of Some r \<Rightarrow> r | None \<Rightarrow> dflt)"

definition StorageClass :: "string \<Rightarrow> vres" where
  "StorageClass sc = switch
     [(''SC_None'', skip),
      (''SC_Extern'', Specifier ''Extern'' STORAGECLASSSPECIFIER),
      (''SC_Static'', Specifier ''Static'' STORAGECLASSSPECIFIER),
      (''SC_Register'', Specifier ''Register'' STORAGECLASSSPECIFIER),
      (''SC_Auto'', Specifier ''Auto'' AUTOSPECIFIER)]
     (throw ''unimplemented: storage class'') sc"

definition ThreadStorageClass :: "string \<Rightarrow> vres" where
  "ThreadStorageClass sc = switch
     [(''TSCS_unspecified'', skip),
      (''TSCS_thread_local'', Specifier ''ThreadLocal'' STORAGECLASSSPECIFIER)]
     (throw ''unimplemented: thread storage class'') sc"

definition Identifier :: "env \<Rightarrow> string \<Rightarrow> vres" where
  "Identifier E i = steps [add (KApply ''Identifier'' CID [STRING]), tok_string E i]"

definition Qualifier :: "string \<Rightarrow> vres" where
  "Qualifier str = steps [add (KApply ''Qualifier'' ATYPE [QUALIFIER, ATYPE]), add (KApply str QUALIFIER [])]"

definition Qualifiers :: "qualtype \<Rightarrow> vres" where
  "Qualifiers T = steps
     [if q_const T then Qualifier ''Const'' else skip,
      if q_volatile T then Qualifier ''Volatile'' else skip,
      if q_restrict T then Qualifier ''Restrict'' else skip]"

text \<open>What the mangler gives for a declaration as a constructor, a destructor or otherwise.\<close>

record mangling =
  hasLinkage :: bool
  m_isCtor :: bool
  m_isDtor :: bool
  mangleCXXCtor :: string
  mangleCXXDtor :: string
  mangleName :: string

definition mangledIdentifier :: "env \<Rightarrow> mangling \<Rightarrow> vres" where
  "mangledIdentifier E m = Identifier E
     (if hasLinkage m then
        if m_isCtor m then mangleCXXCtor m else if m_isDtor m then mangleCXXDtor m else mangleName m
      else '''')"

section \<open>Names, nested name specifiers, template arguments\<close>

definition TraverseIdentifierInfo :: "env \<Rightarrow> string option \<Rightarrow> u64 \<Rightarrow> vres" where
  "TraverseIdentifierInfo E info decl = (case info of
     None \<Rightarrow>
       if decl = 0 then add (KApply ''#NoName_COMMON-SYNTAX'' NONAME [])
       else steps [add (KApply ''unnamed'' UNNAMEDCID [INT', STRING]), VisitUnsigned decl,
              tok_string E (InFile E)]
   | Some name \<Rightarrow> Identifier E name)"

definition VisitOverloadedOperator :: "env \<Rightarrow> string \<Rightarrow> vres" where
  "VisitOverloadedOperator E kind = (case oo_spelling E kind of
     Some spelling \<Rightarrow> add (KApply (''operator'' @ spelling @ ''_CPP-SYNTAX'') OPID [])
   | None \<Rightarrow> throw ''unsupported overloaded operator'')"

definition TraverseDeclarationName2 :: "env \<Rightarrow> sub \<Rightarrow> dname \<Rightarrow> u64 \<Rightarrow> vres" where
  "TraverseDeclarationName2 E tr n decl = (case n of
     NameIdentifier info \<Rightarrow> TraverseIdentifierInfo E info decl
   | NameConversion T \<Rightarrow> steps [add (KApply ''TypeId'' TYPEID [ATYPE]), tr (RType T)]
   | NameConstructor T \<Rightarrow> steps [add (KApply ''TypeId'' TYPEID [ATYPE]), tr (RType T)]
   | NameDestructor T \<Rightarrow> steps [add (KApply ''DestructorTypeId'' DESTRUCTORID [ATYPE]), tr (RType T)]
   | NameOperator kind \<Rightarrow> VisitOverloadedOperator E kind
   | NameLiteralOperator info \<Rightarrow> TraverseIdentifierInfo E info decl
   | NameOther \<Rightarrow> throw ''unimplemented: nameinfo'')"

definition TraverseDeclarationName :: "env \<Rightarrow> sub \<Rightarrow> dname \<Rightarrow> vres" where
  "TraverseDeclarationName E tr n = TraverseDeclarationName2 E tr n 0"

text \<open>A named declaration by its name and its address.\<close>

definition TraverseDeclarationAsName :: "env \<Rightarrow> sub \<Rightarrow> dname \<Rightarrow> u64 \<Rightarrow> vres" where
  "TraverseDeclarationAsName E tr n addr = TraverseDeclarationName2 E tr n addr"

definition TraverseNNSKind :: "env \<Rightarrow> sub \<Rightarrow> nns_kind \<Rightarrow> vres" where
  "TraverseNNSKind E tr k =
     (let nns = KApply ''NNS'' NNSSPECIFIER [CID] in
      case k of
        NnsIdentifier i \<Rightarrow> steps [add nns, TraverseIdentifierInfo E i 0]
      | NnsNamespace n \<Rightarrow> steps [add nns, TraverseDeclarationName E tr n]
      | NnsNamespaceAlias n \<Rightarrow> steps [add nns, TraverseDeclarationName E tr n]
      | NnsTypeSpec p \<Rightarrow> steps [add nns, tr (RType (plain p))]
      | NnsTypeSpecWithTemplate p \<Rightarrow>
          steps [add (KApply ''TemplateNNS'' NNSSPECIFIER [CID]), tr (RType (plain p))]
      | NnsGlobal \<Rightarrow> add (KApply ''GlobalNamespace'' NAMESPACE [])
      | NnsOther \<Rightarrow> throw ''unimplemented: nns'')"

fun TraverseNNS :: "env \<Rightarrow> sub \<Rightarrow> nns \<Rightarrow> vres" where
  "TraverseNNS E tr (NnsFirst k) = TraverseNNSKind E tr k"
| "TraverseNNS E tr (NnsAfter p k) =
     steps [add (KApply ''NestedName'' NNS [NNS, NNSSPECIFIER]), TraverseNNS E tr p, TraverseNNSKind E tr k]"

definition TraverseNestedNameSpecifier :: "env \<Rightarrow> sub \<Rightarrow> nns option \<Rightarrow> vres" where
  "TraverseNestedNameSpecifier E tr n = (case n of None \<Rightarrow> NoNNS | Some q \<Rightarrow> TraverseNNS E tr q)"

definition TraverseTemplateName :: "env \<Rightarrow> sub \<Rightarrow> tname \<Rightarrow> vres" where
  "TraverseTemplateName E tr n = (case n of
     TemplateDecl d \<Rightarrow> steps [TraverseDeclarationName E tr d]
   | TemplateOther \<Rightarrow> throw ''unimplemented: template name'')"

fun TraverseTemplateArgument :: "env \<Rightarrow> sub \<Rightarrow> targ \<Rightarrow> vres" where
  "TraverseTemplateArgument E tr (ArgType T) =
     steps [add (KApply ''TypeArg'' TEMPLATEARGUMENT [ATYPE]), tr (RType T)]"
| "TraverseTemplateArgument E tr (ArgTemplate n) =
     steps [add (KApply ''TemplateArg'' TEMPLATEARGUMENT [CID]), TraverseTemplateName E tr n]"
| "TraverseTemplateArgument E tr (ArgExpression e) =
     steps [add (KApply ''ExprArg'' TEMPLATEARGUMENT [EXPR]), tr (RStmt e)]"
| "TraverseTemplateArgument E tr (ArgIntegral i T) =
     steps [add (KApply ''ExprArg'' TEMPLATEARGUMENT [EXPR]),
       add (KApply ''IntegerLiteral'' EXPR [INT', ATYPE]), VisitAPInt i, tr (RType T)]"
| "TraverseTemplateArgument E tr (ArgPack as) =
     steps ([add (KApply ''PackArg'' TEMPLATEARGUMENT [LIST]), KSeqList (length as)] @
       map (TraverseTemplateArgument E tr) as)"
| "TraverseTemplateArgument E tr ArgOther = throw ''unimplemented: template argument''"

definition TraverseTemplateArgumentLocs :: "env \<Rightarrow> sub \<Rightarrow> targ list \<Rightarrow> vres" where
  "TraverseTemplateArgumentLocs E tr as = steps (map (TraverseTemplateArgument E tr) as)"

text \<open>One call of clang's traversal on the visitor.\<close>

definition perform :: "env \<Rightarrow> sub \<Rightarrow> call \<Rightarrow> vres" where
  "perform E tr c = (case c of
     CRef r \<Rightarrow> tr r
   | CNns n \<Rightarrow> TraverseNestedNameSpecifier E tr n
   | CName n \<Rightarrow> TraverseDeclarationName E tr n
   | CArg a \<Rightarrow> TraverseTemplateArgument E tr a
   | CTemplateName n \<Rightarrow> TraverseTemplateName E tr n)"

text \<open>
  \<open>WalkUpFrom\<close>: the \<open>Visit\<close> methods of the class of a node and of its bases, in this
  order, until one of them returns false. The last class of a chain is the root of its
  hierarchy, whose method throws.
\<close>

fun walk_up :: "(string \<Rightarrow> vres) \<Rightarrow> string list \<Rightarrow> vres" where
  "walk_up visit [] = skip"
| "walk_up visit (c # cs) = (case visit c of
     Throw e \<Rightarrow> Throw e
   | Ret ns b \<Rightarrow> if \<not> b then Ret ns True else
       (case walk_up visit cs of Throw e \<Rightarrow> Throw e | Ret ms d \<Rightarrow> Ret (ns @ ms) True))"

section \<open>Counting the terms a method adds\<close>

text \<open>
  \<open>pending k ns\<close>: the number of terms still to come after the nodes \<open>ns\<close>, when
  \<open>k\<close> were expected before; \<open>None\<close> when a node comes that nothing expects.
\<close>

fun pending :: "nat \<Rightarrow> node list \<Rightarrow> nat option" where
  "pending k [] = Some k"
| "pending 0 (n # ns) = None"
| "pending (Suc k) (n # ns) = pending (arity n + k) ns"

lemma pending_terms: "terms k ns \<longleftrightarrow> pending k ns = Some 0"
  by (induction k ns rule: pending.induct) simp_all

lemma pending_append:
  "pending k (xs @ ys) = (case pending k xs of None \<Rightarrow> None | Some j \<Rightarrow> pending j ys)"
  by (induction k xs rule: pending.induct) simp_all

lemma pending_shift: "pending k ns = Some j \<Longrightarrow> pending (k + i) ns = Some (j + i)"
proof (induction k ns arbitrary: j rule: pending.induct)
  case (3 k n ns)
  then show ?case by (simp add: add.assoc)
qed simp_all

text \<open>
  The errors that the code itself raises: a \<open>logic_error\<close> of the visitor, and a number
  that overflows the buffer of \<open>toKString\<close>. Running out of fuel, in the visitor or in the
  printer, and an index of the printer outside its vector are no such errors.
\<close>

fun raised :: "verr \<Rightarrow> bool" where
  "raised (LogicError msg) \<longleftrightarrow> True"
| "raised (TokenError e) \<longleftrightarrow> e = BufferOverflow"
| "raised OutOfFuel \<longleftrightarrow> False"

text \<open>
  \<open>opens r k j\<close>: the method returned true and took the number of expected terms from
  \<open>k\<close> to \<open>j\<close>, or it threw one of those errors.
\<close>

definition opens :: "vres \<Rightarrow> nat \<Rightarrow> nat \<Rightarrow> bool" where
  "opens r k j = (case r of
     Throw e \<Rightarrow> raised e
   | Ret ns b \<Rightarrow> b \<and> pending k ns = Some j)"

abbreviation emits :: "vres \<Rightarrow> nat \<Rightarrow> bool" where
  "emits r m \<equiv> opens r m 0"

named_theorems visit_defs \<open>definitions of the small helpers of the visitor\<close>

declare tok_string_def [visit_defs] VisitBool_def [visit_defs] VisitStringRef_def [visit_defs]
  VisitAPInt_def [visit_defs] NoNNS_def [visit_defs] NoType_def [visit_defs]
  NoExpression_def [visit_defs] NoStatement_def [visit_defs] NoInit_def [visit_defs]
  KSeqList_def [visit_defs] List_def [visit_defs] Name_def [visit_defs]
  UnaryOperator_def [visit_defs] BinaryOperator_def [visit_defs] Specifier0_def [visit_defs]
  Specifier_def [visit_defs] Qualifier_def [visit_defs] Identifier_def [visit_defs]

lemma try_to_assoc: "try_to (try_to a b) c = try_to a (try_to b c)"
  by (auto simp: try_to_def split: vres.splits)

lemma steps_append: "steps (xs @ ys) = try_to (steps xs) (steps ys)"
proof (induction xs)
  case Nil
  then show ?case by (simp add: try_to_def split: vres.splits)
next
  case (Cons x xs)
  then show ?case by (simp add: try_to_assoc)
qed

lemma steps_nested [simp]: "steps (steps xs # ys) = steps (xs @ ys)"
  by (simp add: steps_append)

lemma steps_skip [simp]: "steps (skip # ys) = steps ys"
  by (simp add: try_to_def split: vres.splits)

lemma steps_throw [simp]: "steps (throw msg # ys) = throw msg"
  by (simp add: throw_def try_to_def)

declare steps.simps(2) [simp del]

lemma opens_throw [simp]: "opens (throw msg) k j"
  by (simp add: opens_def throw_def)

lemma opens_TokenError [simp]: "opens (Throw (TokenError e)) k j \<longleftrightarrow> e = BufferOverflow"
  by (simp add: opens_def)

lemma opens_Nil [simp]: "opens (steps []) k j \<longleftrightarrow> k = j"
  by (simp add: opens_def)

lemma opens_skip [simp]: "opens skip k j \<longleftrightarrow> k = j"
  by (simp add: opens_def)

lemma opens_try_to: "opens a k i \<Longrightarrow> opens b i j \<Longrightarrow> opens (try_to a b) k j"
  by (auto simp: opens_def try_to_def pending_append split: vres.splits)

lemma opens_shift: "opens r k j \<Longrightarrow> opens r (k + i) (j + i)"
  by (auto simp: opens_def pending_shift split: vres.splits)

lemma opens_add [simp]: "opens (add n) k j \<longleftrightarrow> k \<noteq> 0 \<and> j = arity n + (k - 1)"
  by (cases k) (auto simp: opens_def add_def)

lemma opens_add_Cons [simp]:
  "opens (steps (add n # as)) (Suc k) j \<longleftrightarrow> opens (steps as) (arity n + k) j"
  by (auto simp: opens_def add_def try_to_def steps.simps(2) split: vres.splits)

text \<open>A step that adds one whole term, or a list of steps that add one each.\<close>

lemma opens_one [simp]: "emits a (Suc 0) \<Longrightarrow> opens (steps as) k j \<Longrightarrow> opens (steps (a # as)) (Suc k) j"
  using opens_shift [of a "Suc 0" 0 k] by (simp add: opens_try_to steps.simps(2))

lemma opens_some: "emits a m \<Longrightarrow> opens (steps as) k j \<Longrightarrow> opens (steps (a # as)) (m + k) j"
  using opens_shift [of a m 0 k] by (simp add: opens_try_to steps.simps(2))

lemma opens_each [simp]:
  "\<forall>x\<in>set xs. emits (f x) (Suc 0) \<Longrightarrow> opens (steps as) k j \<Longrightarrow>
   opens (steps (map f xs @ as)) (length xs + k) j"
  by (induction xs) simp_all

lemma opens_each_Suc [simp]:
  "\<forall>x\<in>set xs. emits (f x) (Suc 0) \<Longrightarrow> opens (steps as) (Suc 0) j \<Longrightarrow>
   opens (steps (map f xs @ as)) (Suc (length xs)) j"
  "\<forall>x\<in>set xs. emits (f x) (Suc 0) \<Longrightarrow> opens (steps as) (Suc (Suc 0)) j \<Longrightarrow>
   opens (steps (map f xs @ as)) (Suc (Suc (length xs))) j"
  "\<forall>x\<in>set xs. emits (f x) (Suc 0) \<Longrightarrow> opens (steps as) (Suc (Suc (Suc 0))) j \<Longrightarrow>
   opens (steps (map f xs @ as)) (Suc (Suc (Suc (length xs)))) j"
  using opens_each [of xs f as "Suc 0" j] opens_each [of xs f as "Suc (Suc 0)" j]
    opens_each [of xs f as "Suc (Suc (Suc 0))" j] by simp_all

lemma opens_each_last [simp]:
  "\<forall>x\<in>set xs. emits (f x) (Suc 0) \<Longrightarrow> opens (steps (map f xs)) (length xs + k) k"
  using opens_each [of xs f "[]" k k] by simp

lemma opens_each_last_Suc [simp]:
  "\<forall>x\<in>set xs. emits (f x) (Suc 0) \<Longrightarrow> opens (steps (map f xs)) (length xs) 0"
  "\<forall>x\<in>set xs. emits (f x) (Suc 0) \<Longrightarrow> opens (steps (map f xs)) (Suc (length xs)) (Suc 0)"
  using opens_each_last [of xs f 0] opens_each_last [of xs f "Suc 0"] by simp_all

lemma opens_single: "opens a k j \<Longrightarrow> opens (steps [a]) k j"
  using opens_try_to [of a k j "steps []" j] by (simp add: steps.simps(2))

lemma opens_discard: "opens a k j \<Longrightarrow> opens (discard a) k j"
  by (cases a) (simp_all add: opens_def)

text \<open>A body that returns false leaves the same terms to come.\<close>

definition leaves :: "vres \<Rightarrow> nat \<Rightarrow> bool" where
  "leaves r j = (case r of
     Throw e \<Rightarrow> raised e
   | Ret ns b \<Rightarrow> \<not> b \<and> pending (Suc 0) ns = Some j)"

lemma leaves_handled [simp]: "opens (steps as) (Suc 0) j \<Longrightarrow> leaves (handled as) j"
  by (cases "steps as") (auto simp: opens_def leaves_def)

lemma leaves_Nil [simp]: "leaves (Ret [] False) j \<longleftrightarrow> j = Suc 0"
  by (auto simp: leaves_def)

lemma leaves_throw [simp]: "leaves (throw msg) j"
  by (simp add: leaves_def throw_def)

lemma walk_up_leaves: "leaves (visit c) j \<Longrightarrow> opens (walk_up visit (c # cs)) (Suc 0) j"
  by (auto simp: leaves_def opens_def split: vres.splits)

lemma walk_up_pass [simp]: "visit c = skip \<Longrightarrow> walk_up visit (c # cs) = discard (walk_up visit cs)"
  by (cases "walk_up visit cs") simp_all

lemma switch_emits:
  "\<forall>(c, r)\<in>set cases. opens r k j \<Longrightarrow> opens d k j \<Longrightarrow> opens (switch cases d x) k j"
  by (auto simp: switch_def split: option.splits dest: map_of_SomeD)

section \<open>The helpers add what they should\<close>

lemma emits_tok: "(\<And>e. r = Inl e \<Longrightarrow> e = BufferOverflow) \<Longrightarrow> emits (tok_res s r) (Suc 0)"
  by (auto simp: tok_res_def split: sum.splits)

lemma number_token_errors:
  "toKString_ull n = Inl e \<Longrightarrow> e = BufferOverflow"
  "toKString_unsigned i = Inl e \<Longrightarrow> e = BufferOverflow"
  "toKString_APFloat f = Inl e \<Longrightarrow> e = BufferOverflow"
  by (auto simp: toKString_ull_def toKString_unsigned_def toKString_APFloat_def sprintf_buf_def bindr_def
      Let_def split: if_splits sum.splits)

lemma emits_number_tokens [simp]:
  "emits (tok_res s (toKString_ull n)) (Suc 0)"
  "emits (tok_res s (toKString_unsigned i)) (Suc 0)"
  "emits (tok_res s (toKString_APFloat f)) (Suc 0)"
  by (auto intro: emits_tok dest: number_token_errors)

lemma emits_VisitUnsigned [simp]: "emits (VisitUnsigned i) (Suc 0)"
  by (simp add: VisitUnsigned_def)

lemma emits_CabsLoc [simp]: "emits (CabsLoc E l) (Suc 0)"
  by (auto simp: CabsLoc_def visit_defs split: option.splits)

section \<open>Well-formed parts\<close>

text \<open>
  \<open>cnt r\<close> is the number of terms that the traversal of \<open>r\<close> adds, when the tree below
  \<open>r\<close> is well-formed.
\<close>

type_synonym count = "ref \<Rightarrow> nat option"

abbreviation one :: "count \<Rightarrow> ref \<Rightarrow> bool" where
  "one cnt r \<equiv> cnt r = Some (Suc 0)"

fun ok_name :: "count \<Rightarrow> dname \<Rightarrow> bool" where
  "ok_name cnt (NameConversion T) \<longleftrightarrow> one cnt (RType T)"
| "ok_name cnt (NameConstructor T) \<longleftrightarrow> one cnt (RType T)"
| "ok_name cnt (NameDestructor T) \<longleftrightarrow> one cnt (RType T)"
| "ok_name cnt _ \<longleftrightarrow> True"

fun ok_nns_kind :: "count \<Rightarrow> nns_kind \<Rightarrow> bool" where
  "ok_nns_kind cnt (NnsNamespace n) \<longleftrightarrow> ok_name cnt n"
| "ok_nns_kind cnt (NnsNamespaceAlias n) \<longleftrightarrow> ok_name cnt n"
| "ok_nns_kind cnt (NnsTypeSpec p) \<longleftrightarrow> one cnt (RType (plain p))"
| "ok_nns_kind cnt (NnsTypeSpecWithTemplate p) \<longleftrightarrow> one cnt (RType (plain p))"
| "ok_nns_kind cnt _ \<longleftrightarrow> True"

fun ok_nns :: "count \<Rightarrow> nns \<Rightarrow> bool" where
  "ok_nns cnt (NnsFirst k) \<longleftrightarrow> ok_nns_kind cnt k"
| "ok_nns cnt (NnsAfter p k) \<longleftrightarrow> ok_nns cnt p \<and> ok_nns_kind cnt k"

definition ok_qualifier :: "count \<Rightarrow> nns option \<Rightarrow> bool" where
  "ok_qualifier cnt n \<longleftrightarrow> (case n of None \<Rightarrow> True | Some q \<Rightarrow> ok_nns cnt q)"

fun ok_tname :: "count \<Rightarrow> tname \<Rightarrow> bool" where
  "ok_tname cnt (TemplateDecl n) \<longleftrightarrow> ok_name cnt n"
| "ok_tname cnt TemplateOther \<longleftrightarrow> True"

fun ok_targ :: "count \<Rightarrow> targ \<Rightarrow> bool" where
  "ok_targ cnt (ArgType T) \<longleftrightarrow> one cnt (RType T)"
| "ok_targ cnt (ArgTemplate n) \<longleftrightarrow> ok_tname cnt n"
| "ok_targ cnt (ArgExpression e) \<longleftrightarrow> one cnt (RStmt e)"
| "ok_targ cnt (ArgIntegral i T) \<longleftrightarrow> one cnt (RType T)"
| "ok_targ cnt (ArgPack as) \<longleftrightarrow> (\<forall>a\<in>set as. ok_targ cnt a)"
| "ok_targ cnt ArgOther \<longleftrightarrow> True"

definition call_count :: "count \<Rightarrow> call \<Rightarrow> nat option" where
  "call_count cnt c = (case c of
     CRef r \<Rightarrow> cnt r
   | CNns n \<Rightarrow> if ok_qualifier cnt n then Some 1 else None
   | CName n \<Rightarrow> if ok_name cnt n then Some 1 else None
   | CArg a \<Rightarrow> if ok_targ cnt a then Some 1 else None
   | CTemplateName n \<Rightarrow> if ok_tname cnt n then Some 1 else None)"

fun calls_count :: "count \<Rightarrow> call list \<Rightarrow> nat option" where
  "calls_count cnt [] = Some 0"
| "calls_count cnt (c # cs) =
     (case call_count cnt c of None \<Rightarrow> None
      | Some m \<Rightarrow> (case calls_count cnt cs of None \<Rightarrow> None | Some n \<Rightarrow> Some (m + n)))"

text \<open>The contract between a method and the traversals it calls.\<close>

locale sub_traversal =
  fixes tr :: sub and cnt :: count
  assumes sub: "cnt r = Some m \<Longrightarrow> emits (tr r) m"
begin

lemma emits_IdentifierInfo [simp]: "emits (TraverseIdentifierInfo E i d) (Suc 0)"
  by (auto simp: TraverseIdentifierInfo_def visit_defs split: option.splits)

lemma emits_DeclarationName2 [simp]: "ok_name cnt n \<Longrightarrow> emits (TraverseDeclarationName2 E tr n d) (Suc 0)"
  by (cases n) (auto simp: TraverseDeclarationName2_def VisitOverloadedOperator_def sub split: option.splits)

lemma emits_DeclarationName [simp]: "ok_name cnt n \<Longrightarrow> emits (TraverseDeclarationName E tr n) (Suc 0)"
  by (simp add: TraverseDeclarationName_def)

lemma emits_DeclarationAsName [simp]:
  "ok_name cnt n \<Longrightarrow> emits (TraverseDeclarationAsName E tr n a) (Suc 0)"
  by (simp add: TraverseDeclarationAsName_def)

lemma emits_NNSKind [simp]: "ok_nns_kind cnt k \<Longrightarrow> emits (TraverseNNSKind E tr k) (Suc 0)"
  by (cases k) (simp_all add: TraverseNNSKind_def sub)

lemma emits_NNS [simp]: "ok_nns cnt n \<Longrightarrow> emits (TraverseNNS E tr n) (Suc 0)"
  by (induction n) simp_all

lemma emits_NestedNameSpecifier [simp]:
  "ok_qualifier cnt n \<Longrightarrow> emits (TraverseNestedNameSpecifier E tr n) (Suc 0)"
  by (auto simp: TraverseNestedNameSpecifier_def ok_qualifier_def visit_defs split: option.splits)

lemma emits_TemplateName [simp]: "ok_tname cnt n \<Longrightarrow> emits (TraverseTemplateName E tr n) (Suc 0)"
  by (cases n) (simp_all add: TraverseTemplateName_def)

lemma emits_TemplateArgument [simp]: "ok_targ cnt a \<Longrightarrow> emits (TraverseTemplateArgument E tr a) (Suc 0)"
proof (induction a)
  case (ArgPack as)
  then have "\<forall>a\<in>set as. emits (TraverseTemplateArgument E tr a) (Suc 0)" by simp
  from opens_each_last [OF this, of 0] show ?case by (simp add: visit_defs)
qed (simp_all add: visit_defs sub)

lemma emits_perform: "call_count cnt c = Some m \<Longrightarrow> emits (perform E tr c) m"
  by (auto simp: call_count_def perform_def sub split: call.splits if_splits)

lemma emits_calls: "calls_count cnt cs = Some m \<Longrightarrow> emits (steps (map (perform E tr) cs)) m"
proof (induction cs arbitrary: m)
  case Nil
  then show ?case by simp
next
  case (Cons c cs)
  then obtain i j where "call_count cnt c = Some i" "calls_count cnt cs = Some j" "m = i + j"
    by (auto split: option.splits)
  with Cons.IH emits_perform [of c i E] show ?case by (auto intro: opens_some)
qed

end

section \<open>Nodes that clang traverses\<close>

text \<open>
  For a class with no \<open>Traverse\<close> method of its own, clang's traversal walks up from the
  class and then makes its calls for the parts of the node. The \<open>Visit\<close> methods of a
  hierarchy are given as a table from class to the result on the node at hand; a class that
  is not in the table has clang's method, which returns true, and the method of the root
  throws.
\<close>

definition visit_in :: "string \<Rightarrow> string \<Rightarrow> (string \<times> vres) list \<Rightarrow> string \<Rightarrow> vres" where
  "visit_in root msg tbl c = (if c = root then throw msg else switch tbl skip c)"

definition TraverseDefault ::
  "env \<Rightarrow> sub \<Rightarrow> (string \<Rightarrow> vres) \<Rightarrow> string list \<Rightarrow> call list \<Rightarrow> vres" where
  "TraverseDefault E tr visit classes calls =
     steps (walk_up visit classes # map (perform E tr) calls)"

text \<open>
  The number of terms that the first \<open>Visit\<close> method of the classes leaves to come has to be
  the number of terms that the calls add. There are trees of valid programs where it is not: a
  \<open>DeclRefExpr\<close> or \<open>DependentScopeDeclRefExpr\<close> with explicit template arguments, for
  which the code leaves the two terms of a \<open>Name\<close> to come and clang's traversal adds one
  more for each argument. They are not well-formed here; lemma
  \<open>surplus_terms\<close> of Visitor.thy says what the code does on them.
\<close>

fun ok_other :: "count \<Rightarrow> string \<Rightarrow> (string \<times> nat) list \<Rightarrow> string list \<Rightarrow> call list \<Rightarrow> bool" where
  "ok_other cnt root slots [] calls \<longleftrightarrow> False"
| "ok_other cnt root slots (c # cs) calls \<longleftrightarrow>
     (if c = root then True
      else case map_of slots c of
        Some n \<Rightarrow> calls_count cnt calls = Some n
      | None \<Rightarrow> ok_other cnt root slots cs calls)"

definition matches :: "(string \<times> vres) list \<Rightarrow> (string \<times> nat) list \<Rightarrow> bool" where
  "matches tbl slots = list_all2 (\<lambda>(c, r) (d, n). c = d \<and> leaves r n) tbl slots"

lemma matches_Nil [simp]: "matches [] []"
  by (simp add: matches_def)

lemma matches_Cons [simp]:
  "matches ((c, r) # tbl) ((d, n) # slots) \<longleftrightarrow> c = d \<and> leaves r n \<and> matches tbl slots"
  by (simp add: matches_def)

lemma matches_append: "matches t1 s1 \<Longrightarrow> matches t2 s2 \<Longrightarrow> matches (t1 @ t2) (s1 @ s2)"
  by (simp add: matches_def list_all2_appendI)

lemma matches_map_of:
  "matches tbl slots \<Longrightarrow>
   (case map_of slots c of None \<Rightarrow> map_of tbl c = None
    | Some n \<Rightarrow> \<exists>r. map_of tbl c = Some r \<and> leaves r n)"
  unfolding matches_def by (induction rule: list_all2_induct) (auto split: option.splits)

lemma walk_up_matches:
  assumes "matches tbl slots" and "ok_other cnt root slots classes calls"
  shows "(\<exists>n. calls_count cnt calls = Some n \<and> opens (walk_up (visit_in root msg tbl) classes) (Suc 0) n) \<or>
    walk_up (visit_in root msg tbl) classes = throw msg"
  using assms(2)
proof (induction classes)
  case Nil
  then show ?case by simp
next
  case (Cons c cs)
  show ?case
  proof (cases "c = root")
    case True
    then show ?thesis by (simp add: visit_in_def throw_def)
  next
    case False
    show ?thesis
    proof (cases "map_of slots c")
      case None
      with matches_map_of [OF assms(1), of c] False
      have "visit_in root msg tbl c = skip" by (simp add: visit_in_def switch_def)
      moreover have "discard (throw msg) = throw msg" by (simp add: throw_def)
      ultimately show ?thesis
        using Cons None False by (auto intro: opens_discard simp del: walk_up.simps)
    next
      case (Some n)
      with matches_map_of [OF assms(1), of c] False
      have "leaves (visit_in root msg tbl c) n" by (auto simp: visit_in_def switch_def)
      from walk_up_leaves [of "visit_in root msg tbl", OF this] Some Cons.prems False show ?thesis
        by (auto simp del: walk_up.simps)
    qed
  qed
qed

context sub_traversal
begin

lemma emits_Default:
  assumes "matches tbl slots" and "ok_other cnt root slots classes calls"
  shows "emits (TraverseDefault E tr (visit_in root msg tbl) classes calls) (Suc 0)"
  using walk_up_matches [OF assms, of msg]
proof
  assume "\<exists>n. calls_count cnt calls = Some n \<and> opens (walk_up (visit_in root msg tbl) classes) (Suc 0) n"
  then obtain n where "calls_count cnt calls = Some n"
    and w: "opens (walk_up (visit_in root msg tbl) classes) (Suc 0) n" by blast
  from opens_try_to [OF w emits_calls [OF this(1)]] show ?thesis
    by (simp add: TraverseDefault_def steps.simps(2))
qed (simp add: TraverseDefault_def)

text \<open>When the calls add more terms than were left to come, the surplus follows the term.\<close>

lemma emits_Default_surplus:
  assumes "c \<noteq> root" and "map_of tbl c = Some r" and "leaves r n"
    and "calls_count cnt calls = Some (n + i)"
  shows "emits (TraverseDefault E tr (visit_in root msg tbl) (c # cs) calls) (Suc i)"
proof -
  from assms(1-3) have "leaves (visit_in root msg tbl c) n"
    by (simp add: visit_in_def switch_def)
  from opens_try_to [OF opens_shift [where i = i, OF walk_up_leaves [of "visit_in root msg tbl", OF this]]
      emits_calls [OF assms(4)]]
  show ?thesis by (simp add: TraverseDefault_def steps.simps(2) del: walk_up.simps)
qed

end

end
