(* ===== verification/VisitType.thy ===== *)
theory VisitType
  imports VisitorBase
begin

text \<open>
  The methods of GetKastVisitor.h for types. A type that the visitor traverses itself is a
  constructor of \<open>ty\<close> with what the method reads; any other type is \<open>TOther\<close> with its
  classes from the most derived one to \<open>Type\<close>, its attributes, and the calls that clang's
  traversal makes for it.
\<close>

section \<open>Types\<close>

record fproto =
  fp_return :: qualtype
  fp_params :: "qualtype list"
  fp_exceptionSpec :: string
  fp_noexcept :: "nat option"
  fp_exceptions :: "qualtype list"
  fp_variadic :: bool

record arraytype =
  ar_sizeModifier :: string
  ar_element :: qualtype

record type_attrs =
  t_kind :: string
  t_declName :: dname
  t_declAddr :: u64
  t_keyword :: string
  t_qualified :: bool
  t_identifier :: "string option"
  t_sugared :: bool

datatype (plugins only: code) ty =
    TFunctionProto fproto
  | TConstantArray arraytype nat
  | TDependentSizedArray arraytype "nat option"
  | TVariableArray arraytype "nat option"
  | TIncompleteArray arraytype
  | TSubstTemplateTypeParm qualtype
  | TInjectedClassName qualtype
  | TDependentTemplateSpecialization "nns option" "string option" "targ list"
  | TTemplateSpecialization tname "targ list"
  | TAuto "qualtype option" bool
  | TOther "string list" type_attrs "call list"

section \<open>Traverse methods\<close>

definition TraverseExceptionSpec :: "sub \<Rightarrow> fproto \<Rightarrow> vres" where
  "TraverseExceptionSpec tr T = switch
     [(''EST_None'', add (KApply ''NoExceptionSpec'' EXCEPTIONSPEC [])),
      (''EST_BasicNoexcept'', steps [add (KApply ''NoexceptSpec'' EXCEPTIONSPEC [AEXPR]), NoExpression]),
      (''EST_ComputedNoexcept'',
         steps [add (KApply ''NoexceptSpec'' EXCEPTIONSPEC [AEXPR]), tr (RStmt (fp_noexcept T))]),
      (''EST_DynamicNone'', steps [add (KApply ''ThrowSpec'' EXCEPTIONSPEC [STRICTLIST]), List 0]),
      (''EST_Dynamic'',
         steps ([add (KApply ''ThrowSpec'' EXCEPTIONSPEC [STRICTLIST]), List (length (fp_exceptions T))] @
           map (\<lambda>t. tr (RType t)) (fp_exceptions T)))]
     (throw ''unimplemented: exception spec'') (fp_exceptionSpec T)"

definition TraverseFunctionProtoType :: "sub \<Rightarrow> fproto \<Rightarrow> vres" where
  "TraverseFunctionProtoType tr T = steps
     ([add (KApply ''FunctionPrototype'' ATYPE [ATYPE, STRICTLIST, EXCEPTIONSPEC, BOOL]),
       tr (RType (fp_return T)), List (length (fp_params T))] @
      map (\<lambda>t. tr (RType t)) (fp_params T) @
      [TraverseExceptionSpec tr T, VisitBool (fp_variadic T)])"

definition TraverseArrayHelper :: "sub \<Rightarrow> arraytype \<Rightarrow> sort \<Rightarrow> vres" where
  "TraverseArrayHelper tr T s =
     (if ar_sizeModifier T \<noteq> ''Normal'' then throw ''unimplemented: static/* array''
      else steps
        [add (KApply (if s = AEXPR then ''ArrayTypeAExpr'' else ''ArrayType'') ATYPE [ATYPE, s]),
         tr (RType (ar_element T))])"

definition TraverseConstantArrayType :: "sub \<Rightarrow> arraytype \<Rightarrow> nat \<Rightarrow> vres" where
  "TraverseConstantArrayType tr T n = steps [TraverseArrayHelper tr T INT', VisitAPInt n]"

definition TraverseDependentSizedArrayType :: "sub \<Rightarrow> arraytype \<Rightarrow> nat option \<Rightarrow> vres" where
  "TraverseDependentSizedArrayType tr T e = steps [TraverseArrayHelper tr T AEXPR, tr (RStmt e)]"

definition TraverseVariableArrayType :: "sub \<Rightarrow> arraytype \<Rightarrow> nat option \<Rightarrow> vres" where
  "TraverseVariableArrayType tr T e = steps [TraverseArrayHelper tr T AEXPR, tr (RStmt e)]"

definition TraverseIncompleteArrayType :: "sub \<Rightarrow> arraytype \<Rightarrow> vres" where
  "TraverseIncompleteArrayType tr T = steps [TraverseArrayHelper tr T AEXPR, NoExpression]"

definition TraverseSubstTemplateTypeParmType :: "sub \<Rightarrow> qualtype \<Rightarrow> vres" where
  "TraverseSubstTemplateTypeParmType tr replacement = steps [tr (RType replacement)]"

definition TraverseInjectedClassNameType :: "sub \<Rightarrow> qualtype \<Rightarrow> vres" where
  "TraverseInjectedClassNameType tr specialization = steps [tr (RType specialization)]"

definition TraverseDependentTemplateSpecializationType ::
  "env \<Rightarrow> sub \<Rightarrow> nns option \<Rightarrow> string option \<Rightarrow> targ list \<Rightarrow> vres" where
  "TraverseDependentTemplateSpecializationType E tr q i as = steps
     ([add (KApply ''TemplateSpecializationType'' ATYPE [CID, LIST]), Name,
       TraverseNestedNameSpecifier E tr q, TraverseIdentifierInfo E i 0, KSeqList (length as)] @
      map (TraverseTemplateArgument E tr) as)"

definition TraverseTemplateSpecializationType :: "env \<Rightarrow> sub \<Rightarrow> tname \<Rightarrow> targ list \<Rightarrow> vres" where
  "TraverseTemplateSpecializationType E tr n as = steps
     ([add (KApply ''TemplateSpecializationType'' ATYPE [CID, LIST]), TraverseTemplateName E tr n,
       KSeqList (length as)] @ map (TraverseTemplateArgument E tr) as)"

definition TraverseAutoType :: "sub \<Rightarrow> qualtype option \<Rightarrow> bool \<Rightarrow> vres" where
  "TraverseAutoType tr deduced isDecltypeAuto = (case deduced of
     Some t \<Rightarrow> steps [tr (RType t)]
   | None \<Rightarrow> steps [add (KApply ''AutoType'' ATYPE [BOOL]), VisitBool isDecltypeAuto])"

section \<open>Visit methods\<close>

definition builtin_types :: "(string \<times> string) list" where
  "builtin_types =
    [(''Void'', ''Void''), (''Char_S'', ''Char''), (''Char_U'', ''Char''), (''WChar_S'', ''WChar''),
     (''WChar_U'', ''WChar''), (''Char16'', ''Char16''), (''Char32'', ''Char32''), (''Bool'', ''Bool''),
     (''UChar'', ''UChar''), (''UShort'', ''UShort''), (''UInt'', ''UInt''), (''ULong'', ''ULong''),
     (''ULongLong'', ''ULongLong''), (''SChar'', ''SChar''), (''Short'', ''Short''), (''Int'', ''Int''),
     (''Long'', ''Long''), (''LongLong'', ''LongLong''), (''Float'', ''Float''), (''Double'', ''Double''),
     (''LongDouble'', ''LongDouble''), (''Int128'', ''OversizedInt''), (''UInt128'', ''OversizedUInt''),
     (''Dependent'', ''Dependent''), (''NullPtr'', ''NullPtr'')]"

definition VisitBuiltinType :: "type_attrs \<Rightarrow> vres" where
  "VisitBuiltinType T = handled
     [add (KApply ''BuiltinType'' ATYPE [TYPESPECIFIER]),
      case map_of builtin_types (t_kind T) of
        Some l \<Rightarrow> add (KApply l TYPESPECIFIER [])
      | None \<Rightarrow> throw ''unimplemented: basic type'']"

definition VisitTypeKeyword :: "string \<Rightarrow> vres" where
  "VisitTypeKeyword k = switch
     [(''ETK_Struct'', add (KApply ''Struct'' CLASSKEY [])),
      (''ETK_Union'', add (KApply ''Union'' CLASSKEY [])),
      (''ETK_Class'', add (KApply ''Class'' CLASSKEY [])),
      (''ETK_Enum'', add (KApply ''Enum'' TAG [])),
      (''ETK_Typename'', add (KApply ''Typename'' TAG [])),
      (''ETK_None'', add (KApply ''NoTag'' TAG []))]
     (throw ''unimplemented: type keyword'') k"

definition VisitPointerType :: vres where
  "VisitPointerType = handled [add (KApply ''PointerType'' ATYPE [ATYPE])]"

definition VisitMemberPointerType :: vres where
  "VisitMemberPointerType = handled [add (KApply ''MemberPointerType'' ATYPE [ATYPE, ATYPE])]"

definition VisitTypedefType :: "env \<Rightarrow> sub \<Rightarrow> type_attrs \<Rightarrow> vres" where
  "VisitTypedefType E tr T = handled
     [add (KApply ''TypedefType'' ATYPE [CID]), TraverseDeclarationName E tr (t_declName T)]"

definition VisitElaboratedType :: "type_attrs \<Rightarrow> vres" where
  "VisitElaboratedType T = handled
     [add (KApply ''QualifiedTypeName'' ATYPE [TAG, NNS, ATYPE]), VisitTypeKeyword (t_keyword T),
      if \<not> t_qualified T then NoNNS else skip]"

definition VisitDecltypeType :: vres where
  "VisitDecltypeType = handled [add (KApply ''Decltype'' ATYPE [EXPR])]"

definition VisitTemplateTypeParmType :: "env \<Rightarrow> type_attrs \<Rightarrow> vres" where
  "VisitTemplateTypeParmType E T = handled
     [add (KApply ''TemplateParameterType'' ATYPE [CID]), TraverseIdentifierInfo E (t_identifier T) 0]"

definition VisitTagType :: "env \<Rightarrow> sub \<Rightarrow> type_attrs \<Rightarrow> vres" where
  "VisitTagType E tr T = handled
     [Name, NoNNS, TraverseDeclarationAsName E tr (t_declName T) (t_declAddr T)]"

definition VisitLValueReferenceType :: vres where
  "VisitLValueReferenceType = handled [add (KApply ''LValRefType'' ATYPE [ATYPE])]"

definition VisitRValueReferenceType :: vres where
  "VisitRValueReferenceType = handled [add (KApply ''RValRefType'' ATYPE [ATYPE])]"

definition VisitDependentNameType :: "env \<Rightarrow> type_attrs \<Rightarrow> vres" where
  "VisitDependentNameType E T = handled
     [add (KApply ''ElaboratedTypeSpecifier'' ATYPE [TAG, CID, NNS]), VisitTypeKeyword (t_keyword T),
      TraverseIdentifierInfo E (t_identifier T) 0]"

definition VisitPackExpansionType :: vres where
  "VisitPackExpansionType = handled [add (KApply ''PackExpansionType'' ATYPE [ATYPE])]"

definition VisitTypeOfExprType :: vres where
  "VisitTypeOfExprType = handled [add (KApply ''TypeofExpression'' ATYPE [EXPR])]"

definition VisitTypeOfType :: vres where
  "VisitTypeOfType = handled [add (KApply ''TypeofType'' ATYPE [ATYPE])]"

definition VisitUnaryTransformType :: "type_attrs \<Rightarrow> vres" where
  "VisitUnaryTransformType T = handled
     [if t_sugared T then add (KApply ''GnuEnumUnderlyingType2'' ATYPE [ATYPE, ATYPE])
      else add (KApply ''GnuEnumUnderlyingType1'' ATYPE [ATYPE])]"

text \<open>\<open>VisitParenType\<close> and \<open>VisitDecayedType\<close> create no node.\<close>

definition type_methods :: "env \<Rightarrow> sub \<Rightarrow> type_attrs \<Rightarrow> (string \<times> vres) list" where
  "type_methods E tr T =
    [(''BuiltinType'', VisitBuiltinType T), (''PointerType'', VisitPointerType),
     (''MemberPointerType'', VisitMemberPointerType), (''TypedefType'', VisitTypedefType E tr T),
     (''ElaboratedType'', VisitElaboratedType T), (''DecltypeType'', VisitDecltypeType),
     (''TemplateTypeParmType'', VisitTemplateTypeParmType E T), (''TagType'', VisitTagType E tr T),
     (''LValueReferenceType'', VisitLValueReferenceType),
     (''RValueReferenceType'', VisitRValueReferenceType),
     (''DependentNameType'', VisitDependentNameType E T),
     (''PackExpansionType'', VisitPackExpansionType),
     (''ParenType'', handled []), (''DecayedType'', handled []),
     (''TypeOfExprType'', VisitTypeOfExprType), (''TypeOfType'', VisitTypeOfType),
     (''UnaryTransformType'', VisitUnaryTransformType T)]"

definition TraverseTypeNode :: "env \<Rightarrow> sub \<Rightarrow> ty \<Rightarrow> vres" where
  "TraverseTypeNode E tr T = (case T of
     TFunctionProto f \<Rightarrow> TraverseFunctionProtoType tr f
   | TConstantArray a n \<Rightarrow> TraverseConstantArrayType tr a n
   | TDependentSizedArray a e \<Rightarrow> TraverseDependentSizedArrayType tr a e
   | TVariableArray a e \<Rightarrow> TraverseVariableArrayType tr a e
   | TIncompleteArray a \<Rightarrow> TraverseIncompleteArrayType tr a
   | TSubstTemplateTypeParm q \<Rightarrow> TraverseSubstTemplateTypeParmType tr q
   | TInjectedClassName q \<Rightarrow> TraverseInjectedClassNameType tr q
   | TDependentTemplateSpecialization q i as \<Rightarrow> TraverseDependentTemplateSpecializationType E tr q i as
   | TTemplateSpecialization n as \<Rightarrow> TraverseTemplateSpecializationType E tr n as
   | TAuto d b \<Rightarrow> TraverseAutoType tr d b
   | TOther classes a calls \<Rightarrow>
       TraverseDefault E tr (visit_in ''Type'' ''unimplemented type'' (type_methods E tr a)) classes calls)"

text \<open>\<open>TraverseType\<close>, with the node that the pointer of the type leads to.\<close>

definition TraverseType :: "env \<Rightarrow> sub \<Rightarrow> (nat \<Rightarrow> ty) \<Rightarrow> qualtype \<Rightarrow> vres" where
  "TraverseType E tr types T = steps
     [Qualifiers T,
      case q_type T of None \<Rightarrow> skip | Some p \<Rightarrow> TraverseTypeNode E tr (types p)]"

section \<open>Well-formed types\<close>

definition type_slots :: "type_attrs \<Rightarrow> (string \<times> nat) list" where
  "type_slots T =
    [(''BuiltinType'', 0), (''PointerType'', 1), (''MemberPointerType'', 2), (''TypedefType'', 0),
     (''ElaboratedType'', if t_qualified T then 2 else 1), (''DecltypeType'', 1),
     (''TemplateTypeParmType'', 0), (''TagType'', 0), (''LValueReferenceType'', 1),
     (''RValueReferenceType'', 1), (''DependentNameType'', 1), (''PackExpansionType'', 1),
     (''ParenType'', 1), (''DecayedType'', 1), (''TypeOfExprType'', 1), (''TypeOfType'', 1),
     (''UnaryTransformType'', if t_sugared T then 2 else 1)]"

definition ok_fproto :: "count \<Rightarrow> fproto \<Rightarrow> bool" where
  "ok_fproto cnt f \<longleftrightarrow> one cnt (RType (fp_return f)) \<and>
     (\<forall>t\<in>set (fp_params f). one cnt (RType t)) \<and>
     (fp_exceptionSpec f = ''EST_ComputedNoexcept'' \<longrightarrow> one cnt (RStmt (fp_noexcept f))) \<and>
     (fp_exceptionSpec f = ''EST_Dynamic'' \<longrightarrow> (\<forall>t\<in>set (fp_exceptions f). one cnt (RType t)))"

definition ok_array :: "count \<Rightarrow> arraytype \<Rightarrow> bool" where
  "ok_array cnt a \<longleftrightarrow> one cnt (RType (ar_element a))"

definition ok_type :: "count \<Rightarrow> ty \<Rightarrow> bool" where
  "ok_type cnt T = (case T of
     TFunctionProto f \<Rightarrow> ok_fproto cnt f
   | TConstantArray a n \<Rightarrow> ok_array cnt a
   | TDependentSizedArray a e \<Rightarrow> ok_array cnt a \<and> one cnt (RStmt e)
   | TVariableArray a e \<Rightarrow> ok_array cnt a \<and> one cnt (RStmt e)
   | TIncompleteArray a \<Rightarrow> ok_array cnt a
   | TSubstTemplateTypeParm q \<Rightarrow> one cnt (RType q)
   | TInjectedClassName q \<Rightarrow> one cnt (RType q)
   | TDependentTemplateSpecialization q i as \<Rightarrow> ok_qualifier cnt q \<and> (\<forall>a\<in>set as. ok_targ cnt a)
   | TTemplateSpecialization n as \<Rightarrow> ok_tname cnt n \<and> (\<forall>a\<in>set as. ok_targ cnt a)
   | TAuto d b \<Rightarrow> (case d of None \<Rightarrow> True | Some q \<Rightarrow> one cnt (RType q))
   | TOther classes a calls \<Rightarrow>
       ok_name cnt (t_declName a) \<and> ok_other cnt ''Type'' (type_slots a) classes calls)"

section \<open>Each type becomes one term\<close>

lemma emits_TypeKeyword [simp]: "emits (VisitTypeKeyword k) (Suc 0)"
  unfolding VisitTypeKeyword_def by (rule switch_emits) simp_all

lemmas type_method_defs = VisitBuiltinType_def VisitPointerType_def VisitMemberPointerType_def
  VisitTypedefType_def VisitElaboratedType_def VisitDecltypeType_def VisitTemplateTypeParmType_def
  VisitTagType_def VisitLValueReferenceType_def VisitRValueReferenceType_def
  VisitDependentNameType_def VisitPackExpansionType_def VisitTypeOfExprType_def
  VisitTypeOfType_def VisitUnaryTransformType_def

context sub_traversal
begin

lemma type_methods_match: "ok_name cnt (t_declName a) \<Longrightarrow> matches (type_methods E tr a) (type_slots a)"
  unfolding type_methods_def type_slots_def matches_Cons type_method_defs
  by (auto simp: visit_defs split: option.splits)

lemma emits_each_type:
  "\<forall>t\<in>set ts. one cnt (RType t) \<Longrightarrow> \<forall>t\<in>set ts. emits (tr (RType t)) (Suc 0)"
  using sub by auto

lemma emits_ExceptionSpec:
  assumes "ok_fproto cnt f"
  shows "emits (TraverseExceptionSpec tr f) (Suc 0)"
proof -
  have "emits (steps ([add (KApply ''ThrowSpec'' EXCEPTIONSPEC [STRICTLIST]), List (length (fp_exceptions f))] @
      map (\<lambda>t. tr (RType t)) (fp_exceptions f))) (Suc 0)" if "fp_exceptionSpec f = ''EST_Dynamic''"
    using opens_each_last [of "fp_exceptions f" "\<lambda>t. tr (RType t)" 0] that assms
    by (simp add: visit_defs ok_fproto_def sub)
  with assms show ?thesis
    by (auto simp: TraverseExceptionSpec_def switch_def ok_fproto_def visit_defs sub)
qed

lemma emits_FunctionProtoType:
  assumes "ok_fproto cnt f"
  shows "emits (TraverseFunctionProtoType tr f) (Suc 0)"
  using assms emits_ExceptionSpec [OF assms]
  by (simp add: TraverseFunctionProtoType_def visit_defs ok_fproto_def sub opens_each)

lemma opens_ArrayHelper: "ok_array cnt a \<Longrightarrow> opens (TraverseArrayHelper tr a s) (Suc 0) (Suc 0)"
  by (simp add: TraverseArrayHelper_def ok_array_def sub)

lemma emits_array:
  "ok_array cnt a \<Longrightarrow> emits r (Suc 0) \<Longrightarrow> emits (steps [TraverseArrayHelper tr a s, r]) (Suc 0)"
  using opens_try_to [OF opens_ArrayHelper opens_single] by (simp add: steps.simps(2))

lemma emits_TypeNode: "ok_type cnt T \<Longrightarrow> emits (TraverseTypeNode E tr T) (Suc 0)"
proof (cases T)
  case (TDependentTemplateSpecialization q i as)
  moreover assume "ok_type cnt T"
  ultimately show ?thesis using opens_each_last [of as "TraverseTemplateArgument E tr" 0]
    by (simp add: ok_type_def TraverseTypeNode_def TraverseDependentTemplateSpecializationType_def visit_defs)
next
  case (TTemplateSpecialization n as)
  moreover assume "ok_type cnt T"
  ultimately show ?thesis using opens_each_last [of as "TraverseTemplateArgument E tr" 0]
    by (simp add: ok_type_def TraverseTypeNode_def TraverseTemplateSpecializationType_def visit_defs)
next
  case (TOther classes a calls)
  moreover assume "ok_type cnt T"
  ultimately show ?thesis using emits_Default [OF type_methods_match]
    by (simp add: ok_type_def TraverseTypeNode_def)
qed (simp_all add: ok_type_def TraverseTypeNode_def emits_FunctionProtoType emits_array sub
      TraverseConstantArrayType_def TraverseDependentSizedArrayType_def TraverseVariableArrayType_def
      TraverseIncompleteArrayType_def TraverseSubstTemplateTypeParmType_def
      TraverseInjectedClassNameType_def TraverseAutoType_def opens_single visit_defs
    split: option.splits)

lemma opens_Qualifiers: "opens (Qualifiers T) (Suc 0) (Suc 0)"
  by (simp add: Qualifiers_def visit_defs)

lemma emits_Type:
  "q_type T = Some p \<Longrightarrow> ok_type cnt (types p) \<Longrightarrow> emits (TraverseType E tr types T) (Suc 0)"
  using opens_try_to [OF opens_Qualifiers opens_single [OF emits_TypeNode]]
  by (simp add: TraverseType_def steps.simps(2))

end

section \<open>Anonymous unions\<close>

text \<open>
  The source locations of a type as far as the helper reads them: the adjustments it looks
  through, a record with whether it is an anonymous structure or union, any other type.
\<close>

datatype type_loc =
    ParenTypeLoc type_loc
  | AttributedTypeLoc type_loc
  | ElaboratedTypeLoc type_loc
  | AdjustedTypeLoc type_loc
  | RecordTypeLoc bool
  | OtherTypeLoc

text \<open>\<open>getTypeLocAsAdjusted\<close> at \<open>RecordTypeLoc\<close>, the only instance.\<close>

fun getTypeLocAsAdjusted :: "type_loc \<Rightarrow> bool option" where
  "getTypeLocAsAdjusted (RecordTypeLoc anonymous) = Some anonymous"
| "getTypeLocAsAdjusted (ParenTypeLoc inner) = getTypeLocAsAdjusted inner"
| "getTypeLocAsAdjusted (AttributedTypeLoc modified) = getTypeLocAsAdjusted modified"
| "getTypeLocAsAdjusted (ElaboratedTypeLoc named) = getTypeLocAsAdjusted named"
| "getTypeLocAsAdjusted (AdjustedTypeLoc original) = getTypeLocAsAdjusted original"
| "getTypeLocAsAdjusted OtherTypeLoc = None"

text \<open>On a declaration that is no variable (\<open>None\<close>) the answer is false.\<close>

definition isAnonymousUnionVarDecl :: "type_loc option \<Rightarrow> bool" where
  "isAnonymousUnionVarDecl VD = (case VD of None \<Rightarrow> False
     | Some TL \<Rightarrow> (case getTypeLocAsAdjusted TL of Some anonymous \<Rightarrow> anonymous | None \<Rightarrow> False))"

end
