(* ===== verification/VisitStmt.thy ===== *)
theory VisitStmt
  imports VisitorBase
begin

text \<open>
  The methods of GetKastVisitor.h for statements and expressions. As for types, a class that
  the visitor traverses itself is a constructor of \<open>stmt_node\<close>, and any other node is
  \<open>SOther\<close> with its classes up to \<open>Stmt\<close>, its attributes and the calls of clang's
  traversal.
\<close>

section \<open>Statements and expressions\<close>

record member_expr =
  me_implicitAccess :: bool
  me_arrow :: bool
  me_templateKeyword :: bool
  me_qualifier :: "nns option"
  me_name :: dname
  me_base :: "nat option"

record pseudo_destructor =
  pd_base :: "nat option"
  pd_arrow :: bool
  pd_qualifier :: "nns option"
  pd_scopeType :: "qualtype option"
  pd_destroyedType :: "qualtype option"

record new_expr =
  ne_global :: bool
  ne_allocatedType :: qualtype
  ne_arraySize :: "nat option"
  ne_initializer :: "nat option"
  ne_placementArgs :: "nat list"

record capture =
  cap_kind :: string
  cap_explicit :: bool
  cap_variable :: "nat option"
  cap_packExpansion :: bool

record lambda_expr =
  lm_captureDefault :: string
  lm_captures :: "capture list"
  lm_numExplicit :: nat
  lm_callType :: qualtype
  lm_body :: "nat option"

record init_list =
  il_semantic :: bool
  il_syntactic :: "(nat \<times> nat list) option"
  il_self :: "nat \<times> nat list"

record stmt_attrs =
  s_numDecls :: nat
  s_name :: dname
  s_hasValue :: bool
  s_numChildren :: nat
  s_kind :: string
  s_argumentType :: bool
  s_global :: bool
  s_arrayForm :: bool
  s_bytes :: string
  s_charValue :: u32
  s_boolValue :: bool
  s_numArgs :: nat

datatype (plugins only: code) stmt_node =
    SFor "nat option" "nat option" "nat option" "nat option"
  | SWhile "nat option" "nat option" "nat option"
  | SIf "nat option" "nat option" "nat option" "nat option"
  | SSwitch "nat option" "nat option" "nat option"
  | SCase "nat option" "nat option" "nat option"
  | STry "nat option" "nat list"
  | SMember member_expr
  | SCall "nat list" u32
  | SUnresolvedLookup "nns option" dname
  | SOperatorCall string "nat list"
  | SUnresolvedConstruct qualtype "nat list"
  | SFunctionalCast qualtype nat
  | SScalarValueInit qualtype
  | SConstruct bool qualtype "nat list"
  | STemporaryObject qualtype "nat list"
  | SPseudoDestructor pseudo_destructor
  | SNew new_expr
  | SLambda lambda_expr
  | SIntegerLiteral nat qualtype
  | SFloatingLiteral bool apfloat qualtype
  | SInitList init_list
  | SOther "string list" stmt_attrs "call list"

record stmt =
  s_isExpr :: bool
  s_isDefaultArg :: bool
  s_loc :: loc
  s_node :: stmt_node

abbreviation tr_stmt :: "sub \<Rightarrow> nat \<Rightarrow> vres" where
  "tr_stmt tr p \<equiv> tr (RStmt (Some p))"

section \<open>Traverse methods\<close>

definition TraverseForStmt ::
  "sub \<Rightarrow> nat option \<Rightarrow> nat option \<Rightarrow> nat option \<Rightarrow> nat option \<Rightarrow> vres" where
  "TraverseForStmt tr init cond inc body = steps
     [add (KApply ''ForAStmt'' ASTMT [ASTMT, AEXPR, AEXPR, ASTMT]),
      if init \<noteq> None then tr (RStmt init) else NoStatement,
      if cond \<noteq> None then tr (RStmt cond) else NoExpression,
      if inc \<noteq> None then tr (RStmt inc) else NoExpression,
      tr (RStmt body)]"

text \<open>The declaration of a condition, or the condition.\<close>

definition TraverseCondition :: "sub \<Rightarrow> nat option \<Rightarrow> nat option \<Rightarrow> vres" where
  "TraverseCondition tr var cond = (if var \<noteq> None then tr (RDecl var) else tr (RStmt cond))"

definition TraverseWhileStmt :: "sub \<Rightarrow> nat option \<Rightarrow> nat option \<Rightarrow> nat option \<Rightarrow> vres" where
  "TraverseWhileStmt tr var cond body = steps
     [add (KApply ''WhileAStmt'' ASTMT [EXPR, ASTMT]), TraverseCondition tr var cond, tr (RStmt body)]"

definition TraverseIfStmt ::
  "sub \<Rightarrow> nat option \<Rightarrow> nat option \<Rightarrow> nat option \<Rightarrow> nat option \<Rightarrow> vres" where
  "TraverseIfStmt tr var cond thn els = steps
     [add (KApply ''IfAStmt'' ASTMT [DECL, ASTMT, ASTMT]), TraverseCondition tr var cond, tr (RStmt thn),
      if els \<noteq> None then tr (RStmt els) else NoStatement]"

definition TraverseSwitchStmt :: "sub \<Rightarrow> nat option \<Rightarrow> nat option \<Rightarrow> nat option \<Rightarrow> vres" where
  "TraverseSwitchStmt tr var cond body = steps
     [add (KApply ''SwitchAStmt'' ASTMT [DECL, ASTMT]), TraverseCondition tr var cond, tr (RStmt body)]"

definition TraverseCaseStmt :: "sub \<Rightarrow> nat option \<Rightarrow> nat option \<Rightarrow> nat option \<Rightarrow> vres" where
  "TraverseCaseStmt tr lhs rhs substmt = steps
     [add (KApply ''CaseAStmt'' ASTMT [EXPR, ASTMT]),
      if rhs \<noteq> None then throw ''unimplemented: gnu case stmt extensions'' else skip,
      tr (RStmt lhs), tr (RStmt substmt)]"

definition TraverseCXXTryStmt :: "sub \<Rightarrow> nat option \<Rightarrow> nat list \<Rightarrow> vres" where
  "TraverseCXXTryStmt tr block handlers = steps
     ([add (KApply ''TryAStmt'' ASTMT [ASTMT, LIST]), tr (RStmt block), KSeqList (length handlers)] @
      map (tr_stmt tr) handlers)"

definition TraverseMemberHelper :: "env \<Rightarrow> sub \<Rightarrow> member_expr \<Rightarrow> vres" where
  "TraverseMemberHelper E tr e =
     (if me_implicitAccess e then steps
        [Name, TraverseNestedNameSpecifier E tr (me_qualifier e), TraverseDeclarationName E tr (me_name e)]
      else steps
        [add (KApply ''MemberExpr'' EXPR [BOOL, BOOL, NAME, EXPR]), VisitBool (me_arrow e),
         VisitBool (me_templateKeyword e), Name,
         TraverseNestedNameSpecifier E tr (me_qualifier e), TraverseDeclarationName E tr (me_name e),
         tr (RStmt (me_base e))])"

text \<open>The callee is the first child; the list of arguments opens after it.\<close>

definition TraverseCallExpr :: "sub \<Rightarrow> nat list \<Rightarrow> u32 \<Rightarrow> vres" where
  "TraverseCallExpr tr children numArgs = steps
     ([add (KApply ''CallExpr'' RESOLVEDEXPR [EXPR, STRICTLIST, STRICTLISTRESULT]),
       if of_nat (length children) - 1 \<noteq> numArgs then throw ''unimplemented: pre_args???'' else skip] @
      (case children of [] \<Rightarrow> []
       | c # cs \<Rightarrow> [tr_stmt tr c, List (length cs)] @ map (tr_stmt tr) cs) @
      [add (KApply ''krlist'' STRICTLISTRESULT [LIST]), add (KApply ''.List'' LIST [])])"

definition TraverseUnresolvedLookupExpr :: "env \<Rightarrow> sub \<Rightarrow> nns option \<Rightarrow> dname \<Rightarrow> vres" where
  "TraverseUnresolvedLookupExpr E tr q n = steps
     [Name, TraverseNestedNameSpecifier E tr q, TraverseDeclarationName E tr n]"

definition unary_ops :: "(string \<times> string) list" where
  "unary_ops =
    [(''UO_PostInc'', ''_++''), (''UO_PostDec'', ''_--''), (''UO_PreInc'', ''++_''),
     (''UO_PreDec'', ''--_''), (''UO_AddrOf'', ''&''), (''UO_Deref'', ''*''),
     (''UO_Plus'', ''+''), (''UO_Minus'', ''-''), (''UO_Not'', ''~''), (''UO_LNot'', ''!'')]"

definition binary_ops :: "(string \<times> string) list" where
  "binary_ops =
    [(''BO_PtrMemD'', ''.*''), (''BO_PtrMemI'', ''->*''), (''BO_Mul'', ''*''),
     (''BO_Div'', ''/''), (''BO_Rem'', ''%''), (''BO_Add'', ''+''), (''BO_Sub'', ''-''),
     (''BO_Shl'', ''<<''), (''BO_Shr'', ''>>''), (''BO_LT'', ''<''), (''BO_GT'', ''>''),
     (''BO_LE'', ''<=''), (''BO_GE'', ''>=''), (''BO_EQ'', ''==''), (''BO_NE'', ''!=''),
     (''BO_And'', ''&''), (''BO_Xor'', ''^''), (''BO_Or'', ''|''), (''BO_LAnd'', ''&&''),
     (''BO_LOr'', ''||''), (''BO_Assign'', ''=''), (''BO_MulAssign'', ''*=''),
     (''BO_DivAssign'', ''/=''), (''BO_RemAssign'', ''%=''), (''BO_AddAssign'', ''+=''),
     (''BO_SubAssign'', ''-=''), (''BO_ShlAssign'', ''<<=''), (''BO_ShrAssign'', ''>>=''),
     (''BO_AndAssign'', ''&=''), (''BO_XorAssign'', ''^=''), (''BO_OrAssign'', ''|=''),
     (''BO_Comma'', '','')]"

text \<open>\<open>VisitOperator\<close> on the built-in operators.\<close>

definition VisitUnaryOp :: "string \<Rightarrow> vres" where
  "VisitUnaryOp k = (case map_of unary_ops k of
     Some spelling \<Rightarrow> add (KApply (''operator'' @ spelling @ ''_CPP-SYNTAX'') OPID [])
   | None \<Rightarrow> switch
       [(''UO_Real'', add (KApply ''RealOperator'' OPID [])),
        (''UO_Imag'', add (KApply ''ImagOperator'' OPID [])),
        (''UO_Extension'', add (KApply ''ExtensionOperator'' OPID [])),
        (''UO_Coawait'', add (KApply ''CoawaitOperator'' OPID []))]
       (throw ''unsupported unary operator'') k)"

definition VisitBinaryOp :: "string \<Rightarrow> vres" where
  "VisitBinaryOp k = (case map_of binary_ops k of
     Some spelling \<Rightarrow> add (KApply (''operator'' @ spelling @ ''_CPP-SYNTAX'') OPID [])
   | None \<Rightarrow> throw ''unsupported binary operator'')"

definition unary_or_binary_oo :: "string list" where
  "unary_or_binary_oo =
    [''OO_New'', ''OO_Delete'', ''OO_Array_New'', ''OO_Array_Delete'', ''OO_Plus'', ''OO_Minus'',
     ''OO_Star'', ''OO_Amp'']"

definition binary_oo :: "string list" where
  "binary_oo =
    [''OO_Slash'', ''OO_Percent'', ''OO_Caret'', ''OO_Pipe'', ''OO_Equal'', ''OO_Less'', ''OO_Greater'',
     ''OO_PlusEqual'', ''OO_MinusEqual'', ''OO_StarEqual'', ''OO_SlashEqual'', ''OO_PercentEqual'',
     ''OO_CaretEqual'', ''OO_AmpEqual'', ''OO_PipeEqual'', ''OO_LessLess'', ''OO_GreaterGreater'',
     ''OO_LessLessEqual'', ''OO_GreaterGreaterEqual'', ''OO_EqualEqual'', ''OO_ExclaimEqual'',
     ''OO_LessEqual'', ''OO_GreaterEqual'', ''OO_AmpAmp'', ''OO_PipePipe'', ''OO_Comma'',
     ''OO_ArrowStar'', ''OO_Subscript'']"

definition unary_oo :: "string list" where
  "unary_oo = [''OO_Tilde'', ''OO_Exclaim'', ''OO_Coawait'']"

text \<open>Increment and decrement: a second argument marks the postfix form and is not traversed.\<close>

definition TraverseIncDec :: "sub \<Rightarrow> string \<Rightarrow> string \<Rightarrow> nat list \<Rightarrow> vres" where
  "TraverseIncDec tr post pre args =
     (if length args = 2 then steps [UnaryOperator, VisitUnaryOp post, tr_stmt tr (args ! 0)]
      else if length args = 1 then steps [UnaryOperator, VisitUnaryOp pre, tr_stmt tr (args ! 0)]
      else throw ''unexpected number of arguments to operator'')"

definition TraverseCXXOperatorCallExpr :: "env \<Rightarrow> sub \<Rightarrow> string \<Rightarrow> nat list \<Rightarrow> vres" where
  "TraverseCXXOperatorCallExpr E tr oo args =
     (if oo = ''OO_Call'' then add (KApply ''OverloadedCall'' EXPR [])
      else if oo \<in> set unary_or_binary_oo then
        (if length args = 2 then
           steps [BinaryOperator, VisitOverloadedOperator E oo, tr_stmt tr (args ! 0), tr_stmt tr (args ! 1)]
         else if length args = 1 then
           steps [UnaryOperator, VisitOverloadedOperator E oo, tr_stmt tr (args ! 0)]
         else throw ''unexpected number of arguments to operator'')
      else if oo = ''OO_PlusPlus'' then TraverseIncDec tr ''UO_PostInc'' ''UO_PreInc'' args
      else if oo = ''OO_MinusMinus'' then TraverseIncDec tr ''UO_PostDec'' ''UO_PreDec'' args
      else if oo \<in> set binary_oo then
        (if length args \<noteq> 2 then throw ''unexpected number of arguments to operator''
         else steps [BinaryOperator, VisitOverloadedOperator E oo, tr_stmt tr (args ! 0), tr_stmt tr (args ! 1)])
      else if oo \<in> set unary_oo then
        (if length args \<noteq> 1 then throw ''unexpected number of arguments to operator''
         else steps [UnaryOperator, VisitOverloadedOperator E oo, tr_stmt tr (args ! 0)])
      else throw ''unimplemented: overloaded operator'')"

definition TraverseCXXConstructHelper :: "sub \<Rightarrow> qualtype \<Rightarrow> nat list \<Rightarrow> vres" where
  "TraverseCXXConstructHelper tr T args =
     steps ([tr (RType T), KSeqList (length args)] @ map (tr_stmt tr) args)"

definition TraverseCXXUnresolvedConstructExpr :: "sub \<Rightarrow> qualtype \<Rightarrow> nat list \<Rightarrow> vres" where
  "TraverseCXXUnresolvedConstructExpr tr T args = steps
     [add (KApply ''UnresolvedConstructorCall'' EXPR [ATYPE, LIST]), TraverseCXXConstructHelper tr T args]"

definition TraverseCXXFunctionalCastExpr :: "sub \<Rightarrow> qualtype \<Rightarrow> nat \<Rightarrow> vres" where
  "TraverseCXXFunctionalCastExpr tr T arg = steps
     [add (KApply ''FunctionalCast'' EXPR [ATYPE, LIST]), TraverseCXXConstructHelper tr T [arg]]"

definition TraverseCXXScalarValueInitExpr :: "sub \<Rightarrow> qualtype \<Rightarrow> vres" where
  "TraverseCXXScalarValueInitExpr tr T = steps
     [add (KApply ''FunctionalCast'' EXPR [ATYPE, LIST]), TraverseCXXConstructHelper tr T []]"

definition TraverseCXXConstructExpr :: "sub \<Rightarrow> bool \<Rightarrow> qualtype \<Rightarrow> nat list \<Rightarrow> vres" where
  "TraverseCXXConstructExpr tr zeroInit T args = steps
     [add (KApply ''ConstructorCall'' INIT [BOOL, ATYPE, LIST]), VisitBool zeroInit,
      TraverseCXXConstructHelper tr T args]"

definition TraverseCXXTemporaryObjectExpr :: "sub \<Rightarrow> qualtype \<Rightarrow> nat list \<Rightarrow> vres" where
  "TraverseCXXTemporaryObjectExpr tr T args = steps
     [add (KApply ''TemporaryObjectExpr'' EXPR [ATYPE, LIST]), TraverseCXXConstructHelper tr T args]"

definition type_or_none :: "sub \<Rightarrow> qualtype option \<Rightarrow> vres" where
  "type_or_none tr T = (case T of Some t \<Rightarrow> tr (RType t) | None \<Rightarrow> NoType)"

definition TraverseCXXPseudoDestructorExpr :: "env \<Rightarrow> sub \<Rightarrow> pseudo_destructor \<Rightarrow> vres" where
  "TraverseCXXPseudoDestructorExpr E tr e = steps
     [add (KApply ''PseudoDestructor'' EXPR [EXPR, BOOL, NNS, ATYPE, ATYPE]), tr (RStmt (pd_base e)),
      VisitBool (pd_arrow e), TraverseNestedNameSpecifier E tr (pd_qualifier e),
      type_or_none tr (pd_scopeType e), type_or_none tr (pd_destroyedType e)]"

definition TraverseCXXNewExpr :: "sub \<Rightarrow> new_expr \<Rightarrow> vres" where
  "TraverseCXXNewExpr tr e = steps
     ([add (KApply ''NewExpr'' EXPR [BOOL, ATYPE, AEXPR, INIT, LIST]), VisitBool (ne_global e),
       tr (RType (ne_allocatedType e)),
       if ne_arraySize e \<noteq> None then tr (RStmt (ne_arraySize e)) else NoExpression,
       if ne_initializer e \<noteq> None then tr (RStmt (ne_initializer e)) else NoInit,
       KSeqList (length (ne_placementArgs e))] @ map (tr_stmt tr) (ne_placementArgs e))"

definition TraverseLambdaCapture :: "sub \<Rightarrow> capture \<Rightarrow> vres" where
  "TraverseLambdaCapture tr c = steps
     [add (KApply ''LambdaCapture'' CAPTURE [CAPTUREKIND, BOOL]),
      switch
        [(''LCK_This'', add (KApply ''This'' THIS [])),
         (''LCK_ByRef'', add (KApply ''RefCapture'' CAPTUREKIND [DECL])),
         (''LCK_ByCopy'', skip)]
        (throw ''unimplemented: capture kind'') (cap_kind c),
      if cap_variable c \<noteq> None then tr (RDecl (cap_variable c)) else skip,
      VisitBool (cap_packExpansion c)]"

definition TraverseLambdaExpr :: "sub \<Rightarrow> lambda_expr \<Rightarrow> vres" where
  "TraverseLambdaExpr tr e = steps
     ([add (KApply ''Lambda'' EXPR [CAPTUREDEFAULT, LIST, ATYPE, ASTMT]),
       switch
         [(''LCD_None'', add (KApply ''NoCaptureDefault'' CAPTUREDEFAULT [])),
          (''LCD_ByCopy'', add (KApply ''CopyCapture'' CAPTUREDEFAULT [])),
          (''LCD_ByRef'', add (KApply ''RefCapture'' CAPTUREDEFAULT []))]
         skip (lm_captureDefault e),
       KSeqList (length (filter cap_explicit (take (lm_numExplicit e) (lm_captures e))))] @
      map (TraverseLambdaCapture tr) (filter cap_explicit (lm_captures e)) @
      [tr (RType (lm_callType e)), tr (RStmt (lm_body e))])"

definition TraverseIntegerLiteral :: "sub \<Rightarrow> nat \<Rightarrow> qualtype \<Rightarrow> vres" where
  "TraverseIntegerLiteral tr i T = steps
     [add (KApply ''IntegerLiteral'' EXPR [INT', ATYPE]), VisitAPInt i, tr (RType T)]"

definition TraverseFloatingLiteral :: "sub \<Rightarrow> bool \<Rightarrow> apfloat \<Rightarrow> qualtype \<Rightarrow> vres" where
  "TraverseFloatingLiteral tr isFinite f T = steps
     [add (KApply ''FloatingLiteral'' EXPR [FLOAT, ATYPE]), VisitAPFloat isFinite f, tr (RType T)]"

definition syntactic_form :: "init_list \<Rightarrow> nat \<times> nat list" where
  "syntactic_form e =
     (if il_semantic e then (case il_syntactic e of Some s \<Rightarrow> s | None \<Rightarrow> il_self e) else il_self e)"

definition TraverseInitListExpr :: "sub \<Rightarrow> init_list \<Rightarrow> vres" where
  "TraverseInitListExpr tr e = (case syntactic_form e of (numInits, children) \<Rightarrow> steps
     ([add (KApply ''BraceInit'' BRACEINIT [LIST]), KSeqList numInits] @ map (tr_stmt tr) children))"

section \<open>Visit methods\<close>

definition VisitDeclStmt :: "stmt_attrs \<Rightarrow> vres" where
  "VisitDeclStmt S = handled [add (KApply ''DeclStmt'' STMT [LIST]), KSeqList (s_numDecls S)]"

definition VisitBreakStmt :: vres where
  "VisitBreakStmt = handled [add (KApply ''TBreakStmt'' STMT [])]"

definition VisitContinueStmt :: vres where
  "VisitContinueStmt = handled [add (KApply ''ContinueStmt'' STMT [])]"

definition VisitGotoStmt :: "env \<Rightarrow> sub \<Rightarrow> stmt_attrs \<Rightarrow> vres" where
  "VisitGotoStmt E tr S = handled
     [add (KApply ''GotoStmt'' STMT [CID]), TraverseDeclarationName E tr (s_name S)]"

definition VisitReturnStmt :: "stmt_attrs \<Rightarrow> vres" where
  "VisitReturnStmt S = handled
     [add (KApply ''ReturnStmt'' STMT [INIT]), if \<not> s_hasValue S then NoInit else skip]"

definition VisitNullStmt :: vres where
  "VisitNullStmt = handled [add (KApply ''NullStmt'' STMT [])]"

definition StmtChildren :: "stmt_attrs \<Rightarrow> vres" where
  "StmtChildren S = KSeqList (s_numChildren S)"

definition VisitCompoundStmt :: "stmt_attrs \<Rightarrow> vres" where
  "VisitCompoundStmt S = handled [add (KApply ''CompoundAStmt'' ASTMT [LIST]), StmtChildren S]"

definition VisitLabelStmt :: "env \<Rightarrow> sub \<Rightarrow> stmt_attrs \<Rightarrow> vres" where
  "VisitLabelStmt E tr S = handled
     [add (KApply ''LabelAStmt'' ASTMT [CID, LIST]), TraverseDeclarationName E tr (s_name S), StmtChildren S]"

definition VisitDoStmt :: vres where
  "VisitDoStmt = handled [add (KApply ''DoWhileAStmt'' ASTMT [ASTMT, EXPR])]"

definition VisitDefaultStmt :: vres where
  "VisitDefaultStmt = handled [add (KApply ''DefaultAStmt'' ASTMT [ASTMT])]"

definition VisitCXXCatchStmt :: "stmt_attrs \<Rightarrow> vres" where
  "VisitCXXCatchStmt S = handled
     [add (KApply ''CatchAStmt'' ASTMT [CATCHDECL, ASTMT]),
      if \<not> s_hasValue S then add (KApply ''Ellipsis'' CATCHDECL []) else skip]"

definition VisitArraySubscriptExpr :: vres where
  "VisitArraySubscriptExpr = handled [add (KApply ''Subscript'' EXPR [EXPR, EXPR])]"

definition VisitDeclRefExpr :: vres where
  "VisitDeclRefExpr = handled [Name]"

definition VisitDependentScopeDeclRefExpr :: vres where
  "VisitDependentScopeDeclRefExpr = handled [Name]"

definition VisitUnaryOperator :: "stmt_attrs \<Rightarrow> vres" where
  "VisitUnaryOperator S = handled [UnaryOperator, VisitUnaryOp (s_kind S)]"

definition VisitBinaryOperator :: "stmt_attrs \<Rightarrow> vres" where
  "VisitBinaryOperator S = handled [BinaryOperator, VisitBinaryOp (s_kind S)]"

definition VisitConditionalOperator :: vres where
  "VisitConditionalOperator = handled [add (KApply ''ConditionalOperator'' EXPR [EXPR, EXPR, EXPR])]"

definition VisitCStyleCastExpr :: vres where
  "VisitCStyleCastExpr = handled [add (KApply ''ParenthesizedCast'' EXPR [ATYPE, EXPR])]"

definition VisitCXXReinterpretCastExpr :: vres where
  "VisitCXXReinterpretCastExpr = handled [add (KApply ''ReinterpretCast'' RESOLVEDEXPR [ATYPE, EXPR])]"

definition VisitCXXStaticCastExpr :: vres where
  "VisitCXXStaticCastExpr = handled [add (KApply ''StaticCast'' EXPR [ATYPE, EXPR])]"

definition VisitCXXDynamicCastExpr :: vres where
  "VisitCXXDynamicCastExpr = handled [add (KApply ''DynamicCast'' EXPR [ATYPE, EXPR])]"

definition VisitCXXConstCastExpr :: vres where
  "VisitCXXConstCastExpr = handled [add (KApply ''ConstCast'' RESOLVEDEXPR [ATYPE, EXPR])]"

definition VisitUnaryExprOrTypeTraitExpr :: "stmt_attrs \<Rightarrow> vres" where
  "VisitUnaryExprOrTypeTraitExpr S =
     (if s_kind S = ''UETT_SizeOf'' then handled
        [if s_argumentType S then add (KApply ''SizeofType'' EXPR [ATYPE])
         else add (KApply ''SizeofExpr'' EXPR [EXPR])]
      else if s_kind S = ''UETT_AlignOf'' then handled
        [if s_argumentType S then add (KApply ''AlignofType'' EXPR [ATYPE])
         else add (KApply ''AlignofExpr'' EXPR [EXPR])]
      else throw ''unimplemented: ??? expr or type trait'')"

definition VisitSizeOfPackExpr :: "env \<Rightarrow> sub \<Rightarrow> stmt_attrs \<Rightarrow> vres" where
  "VisitSizeOfPackExpr E tr S = handled
     [add (KApply ''SizeofPack'' EXPR [CID]), TraverseDeclarationName E tr (s_name S)]"

definition VisitCXXNoexceptExpr :: vres where
  "VisitCXXNoexceptExpr = handled [add (KApply ''Noexcept'' EXPR [EXPR])]"

definition VisitCXXDeleteExpr :: "stmt_attrs \<Rightarrow> vres" where
  "VisitCXXDeleteExpr S = handled
     [add (KApply ''DeleteExpr'' EXPR [BOOL, BOOL, EXPR]), VisitBool (s_global S), VisitBool (s_arrayForm S)]"

definition VisitCXXThisExpr :: vres where
  "VisitCXXThisExpr = handled [add (KApply ''This'' THIS [])]"

definition VisitCXXThrowExpr :: "stmt_attrs \<Rightarrow> vres" where
  "VisitCXXThrowExpr S = handled
     [add (KApply ''Throw'' EXPR [AEXPR]), if \<not> s_hasValue S then NoExpression else skip]"

definition VisitPackExpansionExpr :: vres where
  "VisitPackExpansionExpr = handled [add (KApply ''PackExpansionExpr'' EXPR [EXPR])]"

definition char_kinds :: "(string \<times> vres) list" where
  "char_kinds =
    [(''Ascii'', add (KApply ''Ascii'' CHARKIND [])), (''Wide'', add (KApply ''Wide'' CHARKIND [])),
     (''UTF8'', add (KApply ''UTF8'' CHARKIND [])), (''UTF16'', add (KApply ''UTF16'' CHARKIND [])),
     (''UTF32'', add (KApply ''UTF32'' CHARKIND []))]"

definition VisitStringLiteral :: "env \<Rightarrow> stmt_attrs \<Rightarrow> vres" where
  "VisitStringLiteral E S = handled
     [add (KApply ''StringLiteral'' EXPR [CHARKIND, STRING]), switch char_kinds skip (s_kind S),
      VisitStringRef E (s_bytes S)]"

definition VisitCharacterLiteral :: "stmt_attrs \<Rightarrow> vres" where
  "VisitCharacterLiteral S = handled
     [add (KApply ''CharacterLiteral'' EXPR [CHARKIND, INT']), switch char_kinds skip (s_kind S),
      tok_unsigned (s_charValue S)]"

definition VisitCXXNullPtrLiteralExpr :: vres where
  "VisitCXXNullPtrLiteralExpr = handled [add (KApply ''NullPointerLiteral'' EXPR [])]"

definition VisitCXXBoolLiteralExpr :: "stmt_attrs \<Rightarrow> vres" where
  "VisitCXXBoolLiteralExpr S = handled
     [add (KApply ''BoolLiteral'' EXPR [BOOL]), VisitBool (s_boolValue S)]"

definition VisitImplicitValueInitExpr :: vres where
  "VisitImplicitValueInitExpr = handled
     [add (KApply ''ExpressionList'' EXPRESSIONLIST [LIST]), KSeqList 0]"

definition type_traits :: "(string \<times> string) list" where
  "type_traits =
    [(''UTT_HasNothrowAssign'', ''HasNothrowAssign''),
     (''UTT_HasNothrowMoveAssign'', ''HasNothrowMoveAssign''),
     (''UTT_HasNothrowCopy'', ''HasNothrowCopy''),
     (''UTT_HasNothrowConstructor'', ''HasNothrowConstructor''),
     (''UTT_HasTrivialAssign'', ''HasTrivialAssign''),
     (''UTT_HasTrivialMoveAssign'', ''HasTrivialMoveAssign''),
     (''UTT_HasTrivialCopy'', ''HasTrivialCopy''),
     (''UTT_HasTrivialDefaultConstructor'', ''HasTrivialDefaultConstructor''),
     (''UTT_HasTrivialMoveConstructor'', ''HasTrivialMoveConstructor''),
     (''UTT_HasTrivialDestructor'', ''HasTrivialDestructor''),
     (''UTT_HasVirtualDestructor'', ''HasVirtualDestructor''),
     (''UTT_IsAbstract'', ''IsAbstract''), (''UTT_IsArithmetic'', ''IsArithmetic''),
     (''UTT_IsArray'', ''IsArray''), (''UTT_IsClass'', ''IsClass''),
     (''UTT_IsCompleteType'', ''IsCompleteType''), (''UTT_IsCompound'', ''IsCompound''),
     (''UTT_IsConst'', ''IsConst''), (''UTT_IsDestructible'', ''IsDestructible''),
     (''UTT_IsEmpty'', ''IsEmpty''), (''UTT_IsEnum'', ''IsEnum''),
     (''UTT_IsFinal'', ''IsFinal''), (''UTT_IsFloatingPoint'', ''IsFloatingPoint''),
     (''UTT_IsFunction'', ''IsFunction''), (''UTT_IsFundamental'', ''IsFundamental''),
     (''UTT_IsIntegral'', ''IsIntegral''), (''UTT_IsInterfaceClass'', ''IsInterfaceClass''),
     (''UTT_IsLiteral'', ''IsLiteral''), (''UTT_IsLvalueReference'', ''IsLvalueReference''),
     (''UTT_IsMemberFunctionPointer'', ''IsMemberFunctionPointer''),
     (''UTT_IsMemberObjectPointer'', ''IsMemberObjectPointer''),
     (''UTT_IsMemberPointer'', ''IsMemberPointer''),
     (''UTT_IsNothrowDestructible'', ''IsNothrowDestructible''),
     (''UTT_IsObject'', ''IsObject''), (''UTT_IsPOD'', ''IsPOD''),
     (''UTT_IsPointer'', ''IsPointer''), (''UTT_IsPolymorphic'', ''IsPolymorphic''),
     (''UTT_IsReference'', ''IsReference''), (''UTT_IsRvalueReference'', ''IsRvalueReference''),
     (''UTT_IsScalar'', ''IsScalar''), (''UTT_IsSealed'', ''IsSealed''),
     (''UTT_IsSigned'', ''IsSigned''), (''UTT_IsStandardLayout'', ''IsStandardLayout''),
     (''UTT_IsTrivial'', ''IsTrivial''), (''UTT_IsTriviallyCopyable'', ''IsTriviallyCopyable''),
     (''UTT_IsUnion'', ''IsUnion''), (''UTT_IsUnsigned'', ''IsUnsigned''),
     (''UTT_IsVoid'', ''IsVoid''), (''UTT_IsVolatile'', ''IsVolatile''),
     (''BTT_IsBaseOf'', ''IsBaseOf''), (''BTT_IsConvertible'', ''IsConvertible''),
     (''BTT_IsConvertibleTo'', ''IsConvertibleTo''), (''BTT_IsSame'', ''IsSame''),
     (''BTT_TypeCompatible'', ''TypeCompatible''), (''BTT_IsAssignable'', ''IsAssignable''),
     (''BTT_IsNothrowAssignable'', ''IsNothrowAssignable''),
     (''BTT_IsTriviallyAssignable'', ''IsTriviallyAssignable''),
     (''TT_IsConstructible'', ''IsConstructible''),
     (''TT_IsNothrowConstructible'', ''IsNothrowConstructible''),
     (''TT_IsTriviallyConstructible'', ''IsTriviallyConstructible'')]"

definition atomic_builtins :: "(string \<times> string) list" where
  "atomic_builtins =
    [(''AO__c11_atomic_init'', ''__c11_atomic_init''),
     (''AO__c11_atomic_load'', ''__c11_atomic_load''),
     (''AO__c11_atomic_store'', ''__c11_atomic_store''),
     (''AO__c11_atomic_exchange'', ''__c11_atomic_exchange''),
     (''AO__c11_atomic_compare_exchange_strong'', ''__c11_atomic_compare_exchange_strong''),
     (''AO__c11_atomic_compare_exchange_weak'', ''__c11_atomic_compare_exchange_weak''),
     (''AO__c11_atomic_fetch_add'', ''__c11_atomic_fetch_add''),
     (''AO__c11_atomic_fetch_sub'', ''__c11_atomic_fetch_sub''),
     (''AO__c11_atomic_fetch_and'', ''__c11_atomic_fetch_and''),
     (''AO__c11_atomic_fetch_or'', ''__c11_atomic_fetch_or''),
     (''AO__c11_atomic_fetch_xor'', ''__c11_atomic_fetch_xor''),
     (''AO__atomic_load'', ''__atomic_load''), (''AO__atomic_load_n'', ''__atomic_load_n''),
     (''AO__atomic_store'', ''__atomic_store''), (''AO__atomic_store_n'', ''__atomic_store_n''),
     (''AO__atomic_exchange'', ''__atomic_exchange''),
     (''AO__atomic_exchange_n'', ''__atomic_exchange_n''),
     (''AO__atomic_compare_exchange'', ''__atomic_compare_exchange''),
     (''AO__atomic_compare_exchange_n'', ''__atomic_compare_exchange_n''),
     (''AO__atomic_fetch_add'', ''__atomic_fetch_add''),
     (''AO__atomic_fetch_sub'', ''__atomic_fetch_sub''),
     (''AO__atomic_fetch_and'', ''__atomic_fetch_and''),
     (''AO__atomic_fetch_or'', ''__atomic_fetch_or''),
     (''AO__atomic_fetch_xor'', ''__atomic_fetch_xor''),
     (''AO__atomic_fetch_nand'', ''__atomic_fetch_nand''),
     (''AO__atomic_add_fetch'', ''__atomic_add_fetch''),
     (''AO__atomic_sub_fetch'', ''__atomic_sub_fetch''),
     (''AO__atomic_and_fetch'', ''__atomic_and_fetch''),
     (''AO__atomic_or_fetch'', ''__atomic_or_fetch''),
     (''AO__atomic_xor_fetch'', ''__atomic_xor_fetch''),
     (''AO__atomic_nand_fetch'', ''__atomic_nand_fetch'')]"

definition VisitTypeTraitExpr :: "env \<Rightarrow> stmt_attrs \<Rightarrow> vres" where
  "VisitTypeTraitExpr E S = handled
     [add (KApply ''GnuTypeTrait'' EXPR [STRING, LIST]),
      case map_of type_traits (s_kind S) of
        Some str \<Rightarrow> tok_string E str
      | None \<Rightarrow> throw ''unimplemented: type trait'',
      KSeqList (s_numArgs S)]"

definition VisitAtomicExpr :: "env \<Rightarrow> stmt_attrs \<Rightarrow> vres" where
  "VisitAtomicExpr E S = handled
     [add (KApply ''GnuAtomicExpr'' EXPR [STRING, LIST]),
      case map_of atomic_builtins (s_kind S) of
        Some str \<Rightarrow> tok_string E str
      | None \<Rightarrow> throw ''unimplemented: atomic builtin'',
      KSeqList (s_numArgs S)]"

definition VisitMaterializeTemporaryExpr :: vres where
  "VisitMaterializeTemporaryExpr = handled [add (KApply ''MaterializeTemporaryExpr'' EXPR [EXPR])]"

definition VisitParenListExpr :: "stmt_attrs \<Rightarrow> vres" where
  "VisitParenListExpr S = handled [add (KApply ''ParenList'' EXPR [LIST]), KSeqList (s_numArgs S)]"

definition VisitCXXDefaultArgExpr :: vres where
  "VisitCXXDefaultArgExpr = handled [add (KSequence 0)]"

text \<open>
  \<open>ImplicitCastExpr\<close>, \<open>ParenExpr\<close>, \<open>ExprWithCleanups\<close>,
  \<open>CXXBindTemporaryExpr\<close>, \<open>SubstNonTypeTemplateParmExpr\<close> and \<open>PredefinedExpr\<close>
  create no node.
\<close>

definition stmt_methods1 :: "env \<Rightarrow> sub \<Rightarrow> stmt_attrs \<Rightarrow> (string \<times> vres) list" where
  "stmt_methods1 E tr S =
    [(''DeclStmt'', VisitDeclStmt S), (''BreakStmt'', VisitBreakStmt),
     (''ContinueStmt'', VisitContinueStmt), (''GotoStmt'', VisitGotoStmt E tr S),
     (''ReturnStmt'', VisitReturnStmt S), (''NullStmt'', VisitNullStmt),
     (''CompoundStmt'', VisitCompoundStmt S), (''LabelStmt'', VisitLabelStmt E tr S),
     (''DoStmt'', VisitDoStmt), (''DefaultStmt'', VisitDefaultStmt),
     (''CXXCatchStmt'', VisitCXXCatchStmt S), (''ArraySubscriptExpr'', VisitArraySubscriptExpr),
     (''ImplicitCastExpr'', handled []), (''ParenExpr'', handled []), (''ExprWithCleanups'', handled []),
     (''CXXBindTemporaryExpr'', handled []), (''SubstNonTypeTemplateParmExpr'', handled []),
     (''DeclRefExpr'', VisitDeclRefExpr),
     (''DependentScopeDeclRefExpr'', VisitDependentScopeDeclRefExpr),
     (''UnaryOperator'', VisitUnaryOperator S), (''BinaryOperator'', VisitBinaryOperator S),
     (''ConditionalOperator'', VisitConditionalOperator)]"

definition stmt_methods2 :: "env \<Rightarrow> sub \<Rightarrow> stmt_attrs \<Rightarrow> (string \<times> vres) list" where
  "stmt_methods2 E tr S =
    [(''CStyleCastExpr'', VisitCStyleCastExpr), (''CXXReinterpretCastExpr'', VisitCXXReinterpretCastExpr),
     (''CXXStaticCastExpr'', VisitCXXStaticCastExpr), (''CXXDynamicCastExpr'', VisitCXXDynamicCastExpr),
     (''CXXConstCastExpr'', VisitCXXConstCastExpr),
     (''UnaryExprOrTypeTraitExpr'', VisitUnaryExprOrTypeTraitExpr S),
     (''SizeOfPackExpr'', VisitSizeOfPackExpr E tr S), (''CXXNoexceptExpr'', VisitCXXNoexceptExpr),
     (''CXXDeleteExpr'', VisitCXXDeleteExpr S), (''CXXThisExpr'', VisitCXXThisExpr),
     (''CXXThrowExpr'', VisitCXXThrowExpr S), (''PackExpansionExpr'', VisitPackExpansionExpr),
     (''StringLiteral'', VisitStringLiteral E S), (''CharacterLiteral'', VisitCharacterLiteral S),
     (''CXXNullPtrLiteralExpr'', VisitCXXNullPtrLiteralExpr),
     (''CXXBoolLiteralExpr'', VisitCXXBoolLiteralExpr S),
     (''ImplicitValueInitExpr'', VisitImplicitValueInitExpr), (''TypeTraitExpr'', VisitTypeTraitExpr E S),
     (''AtomicExpr'', VisitAtomicExpr E S), (''PredefinedExpr'', handled []),
     (''MaterializeTemporaryExpr'', VisitMaterializeTemporaryExpr),
     (''ParenListExpr'', VisitParenListExpr S), (''CXXDefaultArgExpr'', VisitCXXDefaultArgExpr)]"

definition stmt_methods :: "env \<Rightarrow> sub \<Rightarrow> stmt_attrs \<Rightarrow> (string \<times> vres) list" where
  "stmt_methods E tr S = stmt_methods1 E tr S @ stmt_methods2 E tr S"

definition TraverseStmtNode :: "env \<Rightarrow> sub \<Rightarrow> stmt_node \<Rightarrow> vres" where
  "TraverseStmtNode E tr N = (case N of
     SFor i c n b \<Rightarrow> TraverseForStmt tr i c n b
   | SWhile v c b \<Rightarrow> TraverseWhileStmt tr v c b
   | SIf v c t e \<Rightarrow> TraverseIfStmt tr v c t e
   | SSwitch v c b \<Rightarrow> TraverseSwitchStmt tr v c b
   | SCase l r s \<Rightarrow> TraverseCaseStmt tr l r s
   | STry b hs \<Rightarrow> TraverseCXXTryStmt tr b hs
   | SMember e \<Rightarrow> TraverseMemberHelper E tr e
   | SCall cs n \<Rightarrow> TraverseCallExpr tr cs n
   | SUnresolvedLookup q n \<Rightarrow> TraverseUnresolvedLookupExpr E tr q n
   | SOperatorCall oo as \<Rightarrow> TraverseCXXOperatorCallExpr E tr oo as
   | SUnresolvedConstruct T as \<Rightarrow> TraverseCXXUnresolvedConstructExpr tr T as
   | SFunctionalCast T a \<Rightarrow> TraverseCXXFunctionalCastExpr tr T a
   | SScalarValueInit T \<Rightarrow> TraverseCXXScalarValueInitExpr tr T
   | SConstruct z T as \<Rightarrow> TraverseCXXConstructExpr tr z T as
   | STemporaryObject T as \<Rightarrow> TraverseCXXTemporaryObjectExpr tr T as
   | SPseudoDestructor e \<Rightarrow> TraverseCXXPseudoDestructorExpr E tr e
   | SNew e \<Rightarrow> TraverseCXXNewExpr tr e
   | SLambda e \<Rightarrow> TraverseLambdaExpr tr e
   | SIntegerLiteral i T \<Rightarrow> TraverseIntegerLiteral tr i T
   | SFloatingLiteral fin f T \<Rightarrow> TraverseFloatingLiteral tr fin f T
   | SInitList e \<Rightarrow> TraverseInitListExpr tr e
   | SOther classes a calls \<Rightarrow>
       TraverseDefault E tr (visit_in ''Stmt'' ''unimplemented stmt'' (stmt_methods E tr a)) classes calls)"

definition TraverseStmt :: "env \<Rightarrow> sub \<Rightarrow> (nat \<Rightarrow> stmt) \<Rightarrow> nat option \<Rightarrow> vres" where
  "TraverseStmt E tr stmts S = (case S of
     None \<Rightarrow> skip
   | Some p \<Rightarrow> (let s = stmts p in steps
       [if s_isExpr s \<and> \<not> s_isDefaultArg s
        then steps [add (KApply ''ExprLoc'' EXPRLOC [CABSLOC, KITEM]), CabsLoc E (s_loc s)]
        else skip,
        TraverseStmtNode E tr (s_node s)]))"

section \<open>Well-formed statements\<close>

text \<open>
  The switches over the kind of a literal have no default case: a literal of another kind
  would lack a child.
\<close>

definition literal_slots :: "stmt_attrs \<Rightarrow> nat" where
  "literal_slots S = (if s_kind S \<in> set (map fst char_kinds) then 0 else 1)"

definition stmt_slots1 :: "stmt_attrs \<Rightarrow> (string \<times> nat) list" where
  "stmt_slots1 S =
    [(''DeclStmt'', s_numDecls S), (''BreakStmt'', 0), (''ContinueStmt'', 0), (''GotoStmt'', 0),
     (''ReturnStmt'', if s_hasValue S then 1 else 0), (''NullStmt'', 0),
     (''CompoundStmt'', s_numChildren S), (''LabelStmt'', s_numChildren S), (''DoStmt'', 2),
     (''DefaultStmt'', 1), (''CXXCatchStmt'', if s_hasValue S then 2 else 1), (''ArraySubscriptExpr'', 2),
     (''ImplicitCastExpr'', 1), (''ParenExpr'', 1), (''ExprWithCleanups'', 1), (''CXXBindTemporaryExpr'', 1),
     (''SubstNonTypeTemplateParmExpr'', 1), (''DeclRefExpr'', 2), (''DependentScopeDeclRefExpr'', 2),
     (''UnaryOperator'', 1), (''BinaryOperator'', 2), (''ConditionalOperator'', 3)]"

definition stmt_slots2 :: "stmt_attrs \<Rightarrow> (string \<times> nat) list" where
  "stmt_slots2 S =
    [(''CStyleCastExpr'', 2), (''CXXReinterpretCastExpr'', 2), (''CXXStaticCastExpr'', 2),
     (''CXXDynamicCastExpr'', 2), (''CXXConstCastExpr'', 2), (''UnaryExprOrTypeTraitExpr'', 1),
     (''SizeOfPackExpr'', 0), (''CXXNoexceptExpr'', 1), (''CXXDeleteExpr'', 1), (''CXXThisExpr'', 0),
     (''CXXThrowExpr'', if s_hasValue S then 1 else 0), (''PackExpansionExpr'', 1), (''StringLiteral'', literal_slots S),
     (''CharacterLiteral'', literal_slots S), (''CXXNullPtrLiteralExpr'', 0), (''CXXBoolLiteralExpr'', 0),
     (''ImplicitValueInitExpr'', 0), (''TypeTraitExpr'', s_numArgs S), (''AtomicExpr'', s_numArgs S),
     (''PredefinedExpr'', 1), (''MaterializeTemporaryExpr'', 1), (''ParenListExpr'', s_numArgs S),
     (''CXXDefaultArgExpr'', 0)]"

definition ok_stmt_attrs :: "count \<Rightarrow> stmt_attrs \<Rightarrow> bool" where
  "ok_stmt_attrs cnt S \<longleftrightarrow> ok_name cnt (s_name S)"

definition optional :: "count \<Rightarrow> nat option \<Rightarrow> bool" where
  "optional cnt p \<longleftrightarrow> p = None \<or> one cnt (RStmt p)"

definition ok_condition :: "count \<Rightarrow> nat option \<Rightarrow> nat option \<Rightarrow> bool" where
  "ok_condition cnt var cond \<longleftrightarrow> (if var \<noteq> None then one cnt (RDecl var) else one cnt (RStmt cond))"

definition all_one :: "count \<Rightarrow> nat list \<Rightarrow> bool" where
  "all_one cnt ps \<longleftrightarrow> (\<forall>p\<in>set ps. one cnt (RStmt (Some p)))"

definition ok_type_option :: "count \<Rightarrow> qualtype option \<Rightarrow> bool" where
  "ok_type_option cnt T \<longleftrightarrow> (case T of None \<Rightarrow> True | Some t \<Rightarrow> one cnt (RType t))"

definition ok_capture :: "count \<Rightarrow> capture \<Rightarrow> bool" where
  "ok_capture cnt c \<longleftrightarrow>
     (if cap_kind c = ''LCK_This'' then cap_variable c = None
      else cap_variable c \<noteq> None \<and> one cnt (RDecl (cap_variable c)))"

definition ok_lambda :: "count \<Rightarrow> lambda_expr \<Rightarrow> bool" where
  "ok_lambda cnt e \<longleftrightarrow>
     lm_captureDefault e \<in> {''LCD_None'', ''LCD_ByCopy'', ''LCD_ByRef''} \<and>
     filter cap_explicit (take (lm_numExplicit e) (lm_captures e)) = filter cap_explicit (lm_captures e) \<and>
     (\<forall>c\<in>set (lm_captures e). cap_explicit c \<longrightarrow> ok_capture cnt c) \<and>
     one cnt (RType (lm_callType e)) \<and> one cnt (RStmt (lm_body e))"

definition ok_init_list :: "count \<Rightarrow> init_list \<Rightarrow> bool" where
  "ok_init_list cnt e \<longleftrightarrow>
     (case syntactic_form e of (n, cs) \<Rightarrow> n = length cs \<and> all_one cnt cs)"

definition ok_stmt_node :: "count \<Rightarrow> stmt_node \<Rightarrow> bool" where
  "ok_stmt_node cnt N = (case N of
     SFor i c n b \<Rightarrow> optional cnt i \<and> optional cnt c \<and> optional cnt n \<and> one cnt (RStmt b)
   | SWhile v c b \<Rightarrow> ok_condition cnt v c \<and> one cnt (RStmt b)
   | SIf v c t e \<Rightarrow> ok_condition cnt v c \<and> one cnt (RStmt t) \<and> optional cnt e
   | SSwitch v c b \<Rightarrow> ok_condition cnt v c \<and> one cnt (RStmt b)
   | SCase l r s \<Rightarrow> one cnt (RStmt l) \<and> one cnt (RStmt s)
   | STry b hs \<Rightarrow> one cnt (RStmt b) \<and> all_one cnt hs
   | SMember e \<Rightarrow> ok_qualifier cnt (me_qualifier e) \<and> ok_name cnt (me_name e) \<and>
       (\<not> me_implicitAccess e \<longrightarrow> one cnt (RStmt (me_base e)))
   | SCall cs n \<Rightarrow> cs \<noteq> [] \<and> all_one cnt cs
   | SUnresolvedLookup q n \<Rightarrow> ok_qualifier cnt q \<and> ok_name cnt n
   | SOperatorCall oo as \<Rightarrow> all_one cnt as
   | SUnresolvedConstruct T as \<Rightarrow> one cnt (RType T) \<and> all_one cnt as
   | SFunctionalCast T a \<Rightarrow> one cnt (RType T) \<and> all_one cnt [a]
   | SScalarValueInit T \<Rightarrow> one cnt (RType T)
   | SConstruct z T as \<Rightarrow> one cnt (RType T) \<and> all_one cnt as
   | STemporaryObject T as \<Rightarrow> one cnt (RType T) \<and> all_one cnt as
   | SPseudoDestructor e \<Rightarrow> one cnt (RStmt (pd_base e)) \<and> ok_qualifier cnt (pd_qualifier e) \<and>
       ok_type_option cnt (pd_scopeType e) \<and> ok_type_option cnt (pd_destroyedType e)
   | SNew e \<Rightarrow> one cnt (RType (ne_allocatedType e)) \<and> optional cnt (ne_arraySize e) \<and>
       optional cnt (ne_initializer e) \<and> all_one cnt (ne_placementArgs e)
   | SLambda e \<Rightarrow> ok_lambda cnt e
   | SIntegerLiteral i T \<Rightarrow> one cnt (RType T)
   | SFloatingLiteral fin f T \<Rightarrow> one cnt (RType T)
   | SInitList e \<Rightarrow> ok_init_list cnt e
   | SOther classes a calls \<Rightarrow> ok_stmt_attrs cnt a \<and>
       ok_other cnt ''Stmt'' (stmt_slots1 a @ stmt_slots2 a) classes calls)"

section \<open>Each statement becomes one term\<close>

lemmas stmt_method_defs = VisitDeclStmt_def VisitBreakStmt_def VisitContinueStmt_def VisitGotoStmt_def
  VisitReturnStmt_def VisitNullStmt_def VisitCompoundStmt_def VisitLabelStmt_def VisitDoStmt_def
  VisitDefaultStmt_def VisitCXXCatchStmt_def VisitArraySubscriptExpr_def VisitDeclRefExpr_def
  VisitDependentScopeDeclRefExpr_def VisitUnaryOperator_def VisitBinaryOperator_def
  VisitConditionalOperator_def VisitCStyleCastExpr_def VisitCXXReinterpretCastExpr_def
  VisitCXXStaticCastExpr_def VisitCXXDynamicCastExpr_def VisitCXXConstCastExpr_def
  VisitUnaryExprOrTypeTraitExpr_def VisitSizeOfPackExpr_def VisitCXXNoexceptExpr_def
  VisitCXXDeleteExpr_def VisitCXXThisExpr_def VisitCXXThrowExpr_def VisitPackExpansionExpr_def
  VisitStringLiteral_def VisitCharacterLiteral_def VisitCXXNullPtrLiteralExpr_def
  VisitCXXBoolLiteralExpr_def VisitImplicitValueInitExpr_def VisitTypeTraitExpr_def
  VisitAtomicExpr_def VisitMaterializeTemporaryExpr_def VisitParenListExpr_def
  VisitCXXDefaultArgExpr_def StmtChildren_def

lemma emits_UnaryOp [simp]: "emits (VisitUnaryOp k) (Suc 0)"
  by (auto simp: VisitUnaryOp_def intro!: switch_emits split: option.splits)

lemma emits_BinaryOp [simp]: "emits (VisitBinaryOp k) (Suc 0)"
  by (auto simp: VisitBinaryOp_def split: option.splits)

lemma emits_OverloadedOperator [simp]: "emits (VisitOverloadedOperator E k) (Suc 0)"
  by (auto simp: VisitOverloadedOperator_def split: option.splits)

lemma emits_tok_unsigned [simp]: "emits (tok_unsigned i) (Suc 0)"
  by (simp add: tok_unsigned_def)

lemma emits_VisitAPFloat [simp]: "emits (VisitAPFloat fin f) (Suc 0)"
  by (simp add: VisitAPFloat_def)

lemma char_kind_switch:
  "switch char_kinds skip k = (if k \<in> set (map fst char_kinds) then add (KApply k CHARKIND []) else skip)"
  by (auto simp: switch_def char_kinds_def)

lemma leaves_if [simp]:
  "(b \<Longrightarrow> leaves r i) \<Longrightarrow> (\<not> b \<Longrightarrow> leaves s j) \<Longrightarrow> leaves (if b then r else s) (if b then i else j)"
  by simp

context sub_traversal
begin

lemma stmt_methods1_match: "ok_stmt_attrs cnt a \<Longrightarrow> matches (stmt_methods1 E tr a) (stmt_slots1 a)"
  unfolding stmt_methods1_def stmt_slots1_def matches_Cons stmt_method_defs ok_stmt_attrs_def
  by (simp add: visit_defs)

lemma leaves_literal:
  "emits r (Suc 0) \<Longrightarrow>
   leaves (handled [add (KApply l EXPR [CHARKIND, s]), switch char_kinds skip (s_kind a), r]) (literal_slots a)"
  by (simp add: char_kind_switch literal_slots_def)

lemma stmt_methods2_match: "ok_stmt_attrs cnt a \<Longrightarrow> matches (stmt_methods2 E tr a) (stmt_slots2 a)"
  unfolding stmt_methods2_def stmt_slots2_def matches_Cons stmt_method_defs ok_stmt_attrs_def
  by (simp add: leaves_literal visit_defs split: option.splits)

lemma stmt_methods_match:
  "ok_stmt_attrs cnt a \<Longrightarrow> matches (stmt_methods E tr a) (stmt_slots1 a @ stmt_slots2 a)"
  unfolding stmt_methods_def by (intro matches_append stmt_methods1_match stmt_methods2_match)

lemma emits_all_one: "all_one cnt ps \<Longrightarrow> \<forall>p\<in>set ps. emits (tr_stmt tr p) (Suc 0)"
  using sub by (auto simp: all_one_def)

lemma emits_all_one_last: "all_one cnt ps \<Longrightarrow> opens (steps (map (tr_stmt tr) ps)) (length ps) 0"
  using opens_each_last [OF emits_all_one, of ps 0] by simp

lemma emits_optional: "optional cnt p \<Longrightarrow> emits r (Suc 0) \<Longrightarrow>
    emits (if p \<noteq> None then tr (RStmt p) else r) (Suc 0)"
  by (auto simp: optional_def sub)

lemma emits_Condition [simp]: "ok_condition cnt v c \<Longrightarrow> emits (TraverseCondition tr v c) (Suc 0)"
  by (auto simp: ok_condition_def TraverseCondition_def sub split: if_splits)

lemma emits_type_or_none [simp]: "ok_type_option cnt T \<Longrightarrow> emits (type_or_none tr T) (Suc 0)"
  by (auto simp: ok_type_option_def type_or_none_def visit_defs sub split: option.splits)

lemma opens_ConstructHelper:
  "one cnt (RType T) \<Longrightarrow> all_one cnt as \<Longrightarrow> emits (TraverseCXXConstructHelper tr T as) (Suc (Suc 0))"
  by (simp add: TraverseCXXConstructHelper_def visit_defs sub emits_all_one_last)

lemma emits_ConstructHelper:
  "one cnt (RType T) \<Longrightarrow> all_one cnt as \<Longrightarrow>
   emits (steps [TraverseCXXConstructHelper tr T as]) (Suc (Suc 0))"
  by (rule opens_single [OF opens_ConstructHelper])

lemma all_one_Nil [simp]: "all_one cnt []"
  by (simp add: all_one_def)

lemma emits_CallExpr: "cs \<noteq> [] \<Longrightarrow> all_one cnt cs \<Longrightarrow> emits (TraverseCallExpr tr cs n) (Suc 0)"
  by (cases cs) (auto simp: TraverseCallExpr_def all_one_def visit_defs sub)

lemma emits_Capture: "ok_capture cnt c \<Longrightarrow> emits (TraverseLambdaCapture tr c) (Suc 0)"
  by (auto simp: TraverseLambdaCapture_def ok_capture_def switch_def visit_defs sub split: if_splits)

lemma emits_LambdaExpr: "ok_lambda cnt e \<Longrightarrow> emits (TraverseLambdaExpr tr e) (Suc 0)"
  by (auto simp: TraverseLambdaExpr_def ok_lambda_def switch_def visit_defs sub emits_Capture)

lemma emits_binary_call:
  "all_one cnt as \<Longrightarrow> length as = 2 \<Longrightarrow> emits r (Suc 0) \<Longrightarrow>
   emits (steps [BinaryOperator, r, tr_stmt tr (as ! 0), tr_stmt tr (as ! Suc 0)]) (Suc 0)"
  using emits_all_one [of as] by (simp add: visit_defs)

lemma emits_unary_call:
  "all_one cnt as \<Longrightarrow> as \<noteq> [] \<Longrightarrow> emits r (Suc 0) \<Longrightarrow>
   emits (steps [UnaryOperator, r, tr_stmt tr (as ! 0)]) (Suc 0)"
  using emits_all_one [of as] by (simp add: visit_defs)

lemma emits_IncDec: "all_one cnt as \<Longrightarrow> emits (TraverseIncDec tr post pre as) (Suc 0)"
  unfolding TraverseIncDec_def by (auto intro!: emits_unary_call)

lemma emits_OperatorCall: "all_one cnt as \<Longrightarrow> emits (TraverseCXXOperatorCallExpr E tr oo as) (Suc 0)"
  unfolding TraverseCXXOperatorCallExpr_def
  by (auto simp: emits_IncDec intro!: emits_unary_call emits_binary_call)

end

context sub_traversal
begin

lemma emits_control:
  "optional cnt i \<Longrightarrow> optional cnt c \<Longrightarrow> optional cnt n \<Longrightarrow> one cnt (RStmt b) \<Longrightarrow>
   emits (TraverseForStmt tr i c n b) (Suc 0)"
  "ok_condition cnt v c \<Longrightarrow> one cnt (RStmt b) \<Longrightarrow> emits (TraverseWhileStmt tr v c b) (Suc 0)"
  "ok_condition cnt v c \<Longrightarrow> one cnt (RStmt t) \<Longrightarrow> optional cnt e \<Longrightarrow> emits (TraverseIfStmt tr v c t e) (Suc 0)"
  "ok_condition cnt v c \<Longrightarrow> one cnt (RStmt b) \<Longrightarrow> emits (TraverseSwitchStmt tr v c b) (Suc 0)"
  "one cnt (RStmt l) \<Longrightarrow> one cnt (RStmt s) \<Longrightarrow> emits (TraverseCaseStmt tr l r s) (Suc 0)"
  "one cnt (RStmt b) \<Longrightarrow> all_one cnt hs \<Longrightarrow> emits (TraverseCXXTryStmt tr b hs) (Suc 0)"
  unfolding TraverseForStmt_def TraverseWhileStmt_def TraverseIfStmt_def TraverseSwitchStmt_def
    TraverseCaseStmt_def TraverseCXXTryStmt_def
  by (auto simp: optional_def visit_defs sub emits_all_one_last)

lemma emits_MemberHelper:
  "ok_qualifier cnt (me_qualifier e) \<Longrightarrow> ok_name cnt (me_name e) \<Longrightarrow>
   (\<not> me_implicitAccess e \<longrightarrow> one cnt (RStmt (me_base e))) \<Longrightarrow>
   emits (TraverseMemberHelper E tr e) (Suc 0)"
  by (auto simp: TraverseMemberHelper_def visit_defs sub)

lemma emits_NewExpr:
  "one cnt (RType (ne_allocatedType e)) \<Longrightarrow> optional cnt (ne_arraySize e) \<Longrightarrow>
   optional cnt (ne_initializer e) \<Longrightarrow> all_one cnt (ne_placementArgs e) \<Longrightarrow>
   emits (TraverseCXXNewExpr tr e) (Suc 0)"
  by (auto simp: TraverseCXXNewExpr_def optional_def visit_defs sub emits_all_one_last)

lemma emits_InitListExpr: "ok_init_list cnt e \<Longrightarrow> emits (TraverseInitListExpr tr e) (Suc 0)"
  by (auto simp: TraverseInitListExpr_def ok_init_list_def visit_defs emits_all_one_last)

lemma emits_StmtNode: "ok_stmt_node cnt N \<Longrightarrow> emits (TraverseStmtNode E tr N) (Suc 0)"
proof (cases N)
  case (SOther classes a calls)
  moreover assume "ok_stmt_node cnt N"
  ultimately show ?thesis using emits_Default [OF stmt_methods_match]
    by (simp add: ok_stmt_node_def TraverseStmtNode_def)
qed (simp_all add: ok_stmt_node_def TraverseStmtNode_def emits_control emits_MemberHelper emits_CallExpr
      emits_OperatorCall emits_ConstructHelper emits_NewExpr emits_LambdaExpr emits_InitListExpr
      TraverseUnresolvedLookupExpr_def TraverseCXXUnresolvedConstructExpr_def
      TraverseCXXFunctionalCastExpr_def TraverseCXXScalarValueInitExpr_def
      TraverseCXXTemporaryObjectExpr_def TraverseCXXPseudoDestructorExpr_def TraverseIntegerLiteral_def
      TraverseFloatingLiteral_def TraverseCXXConstructExpr_def visit_defs sub)

lemma emits_Stmt:
  "ok_stmt_node cnt (s_node (stmts p)) \<Longrightarrow> emits (TraverseStmt E tr stmts (Some p)) (Suc 0)"
  using emits_StmtNode by (simp add: TraverseStmt_def Let_def)

end

end
