(* ===== verification/VisitDecl.thy ===== *)
theory VisitDecl
  imports VisitorBase
begin

text \<open>
  The methods of GetKastVisitor.h for declarations: functions with their template
  specialisations, variables, fields, classes, enumerations, templates and their parameters,
  and the \<open>Visit\<close> methods of the other declarations.
\<close>

section \<open>Declarations\<close>

datatype ctor_init_kind =
    InitBase qualtype bool bool
  | InitMember dname
  | InitDelegating
  | InitOther

record ctor_init =
  ci_written :: bool
  ci_kind :: ctor_init_kind
  ci_init :: "nat option"

record method_decl =
  mt_instance :: bool
  mt_refQualifier :: string
  mt_userProvided :: bool
  mt_thisType :: qualtype
  mt_virtual :: bool
  mt_pure :: bool
  mt_explicitConversion :: bool
  mt_explicitCtor :: bool

record specialization_info =
  si_kind :: string
  si_template :: dname
  si_args :: "targ list option"

record function_decl =
  fd_specialization :: "specialization_info option"
  fd_storageClass :: string
  fd_inline :: bool
  fd_constexpr :: bool
  fd_definition :: bool
  fd_defaulted :: bool
  fd_deleted :: bool
  fd_qualifier :: "nns option"
  fd_name :: dname
  fd_mangling :: mangling
  fd_typeSourceInfo :: bool
  fd_method :: "method_decl option"
  fd_isCtor :: bool
  fd_inits :: "ctor_init list"
  fd_type :: qualtype
  fd_params :: "nat list"
  fd_body :: "nat option"

record var_decl =
  vd_storageClass :: string
  vd_tscSpec :: string
  vd_constexpr :: bool
  vd_maxAlign :: u32
  vd_qualifier :: "nns option"
  vd_name :: dname
  vd_mangling :: mangling
  vd_type :: qualtype
  vd_init :: "nat option"
  vd_directInit :: bool

record field_decl =
  fl_mutable :: bool
  fl_bitField :: bool
  fl_qualifier :: "nns option"
  fl_name :: dname
  fl_type :: qualtype
  fl_bitWidth :: "nat option"
  fl_hasInit :: bool
  fl_init :: "nat option"

datatype template_kind = ClassTemplate | FunctionTemplate | TypeAliasTemplate | VarTemplate

record template_decl =
  td_kind :: template_kind
  td_templated :: "nat option"
  td_params :: "nat list option"
  td_specializations :: "(string \<times> nat) list"

record type_parm =
  tp_typename :: bool
  tp_pack :: bool
  tp_type :: "nat option"
  tp_hasDefault :: bool
  tp_inherited :: bool
  tp_default :: qualtype

record nontype_parm =
  np_pack :: bool
  np_qualifier :: "nns option"
  np_name :: dname
  np_type :: qualtype
  np_hasDefault :: bool
  np_inherited :: bool
  np_default :: "nat option"

record template_parm =
  tt_pack :: bool
  tt_name :: dname
  tt_hasDefault :: bool
  tt_inherited :: bool
  tt_default :: targ
  tt_params :: "nat list option"

datatype access = AS_public | AS_protected | AS_private | AS_none

record base_spec =
  b_virtual :: bool
  b_pack :: bool
  b_access :: access
  b_type :: qualtype

record record_decl =
  rd_complete :: bool
  rd_tagKind :: string
  rd_name :: dname
  rd_addr :: u64
  rd_qualifier :: "nns option"
  rd_bases :: "base_spec list"
  rd_decls :: "nat list"
  rd_anonymous :: bool

record enum_decl =
  en_complete :: bool
  en_name :: dname
  en_addr :: u64
  en_qualifier :: "nns option"
  en_scoped :: bool
  en_fixed :: bool
  en_integerType :: qualtype
  en_decls :: "nat list"

record decl_attrs =
  d_name :: dname
  d_language :: string
  d_braces :: bool
  d_inline :: bool
  d_namespace :: dname
  d_namespaceAddr :: u64
  d_qualifier :: "nns option"
  d_decls :: "nat list"
  d_access :: access
  d_hasInit :: bool
  d_typename :: bool

datatype (plugins only: code) decl_node =
    DFunction function_decl
  | DVar var_decl
  | DField field_decl
  | DTemplate template_decl
  | DTemplateTypeParm type_parm
  | DNonTypeTemplateParm nontype_parm
  | DTemplateTemplateParm template_parm
  | DRecord record_decl
  | DEnum enum_decl
  | DClassTemplateSpecialization string "nat option" record_decl
  | DClassTemplatePartialSpecialization "nat list" "targ list" record_decl
  | DOther "string list" decl_attrs "call list"

record decl =
  d_implicit :: bool
  d_outside :: bool
  d_loc :: loc
  d_node :: decl_node

definition excludedDecl :: "decl \<Rightarrow> bool" where
  "excludedDecl d \<longleftrightarrow> d_implicit d \<and> d_outside d"

abbreviation tr_decl :: "sub \<Rightarrow> nat \<Rightarrow> vres" where
  "tr_decl tr p \<equiv> tr (RDecl (Some p))"

section \<open>Functions\<close>

definition TraverseConstructorInitializer :: "env \<Rightarrow> sub \<Rightarrow> ctor_init \<Rightarrow> vres" where
  "TraverseConstructorInitializer E tr i = (case ci_kind i of
     InitBase T virt pack \<Rightarrow> steps
       [add (KApply ''ConstructorBase'' CTORINIT [ATYPE, BOOL, BOOL, INIT]), tr (RType T), VisitBool virt,
        VisitBool pack, tr (RStmt (ci_init i))]
   | InitMember n \<Rightarrow> steps
       [add (KApply ''ConstructorMember'' CTORINIT [CID, INIT]), TraverseDeclarationName E tr n,
        tr (RStmt (ci_init i))]
   | InitDelegating \<Rightarrow> steps
       [add (KApply ''ConstructorDelegating'' CTORINIT [INIT]), tr (RStmt (ci_init i))]
   | InitOther \<Rightarrow> throw ''unimplemented: ctor initializer'')"

text \<open>The type of a specialisation: the template's name and, when written, its arguments.\<close>

definition specialization_type :: "env \<Rightarrow> sub \<Rightarrow> specialization_info \<Rightarrow> vres list" where
  "specialization_type E tr si = (case si_args si of
     Some as \<Rightarrow>
       [add (KApply ''TemplateSpecializationType'' ATYPE [CID, LIST]),
        TraverseDeclarationName E tr (si_template si), KSeqList (length as),
        TraverseTemplateArgumentLocs E tr as]
   | None \<Rightarrow>
       [add (KApply ''TemplateSpecializationType2'' ATYPE [CID]),
        TraverseDeclarationName E tr (si_template si)])"

definition TraverseSpecializationInfo :: "env \<Rightarrow> sub \<Rightarrow> specialization_info option \<Rightarrow> vres" where
  "TraverseSpecializationInfo E tr FTSI = (case FTSI of
     None \<Rightarrow> skip
   | Some si \<Rightarrow>
       if si_kind si = ''TSK_ExplicitSpecialization'' then
         steps (add (KApply ''TemplateSpecialization'' DECL [ATYPE, DECL]) # specialization_type E tr si)
       else if si_kind si \<noteq> ''TSK_Undeclared'' \<and> si_kind si \<noteq> ''TSK_ImplicitInstantiation'' then
         steps (add (KApply
             (if si_kind si = ''TSK_ExplicitInstantiationDefinition'' then ''TemplateInstantiationDefinition''
              else ''TemplateInstantiationDeclaration'') DECL [ATYPE, DECL]) # specialization_type E tr si)
       else skip)"

definition TraverseMethodType :: "sub \<Rightarrow> bool \<Rightarrow> method_decl \<Rightarrow> vres" where
  "TraverseMethodType tr isCtor m =
     (if mt_instance m then steps
        [switch
           [(''RQ_LValue'', steps [add (KApply ''RefQualifier'' ATYPE [REFQUALIFIER, ATYPE]),
                add (KApply ''RefLValue'' REFQUALIFIER [])]),
            (''RQ_RValue'', steps [add (KApply ''RefQualifier'' ATYPE [REFQUALIFIER, ATYPE]),
                add (KApply ''RefRValue'' REFQUALIFIER [])]),
            (''RQ_None'', skip)] skip (mt_refQualifier m),
         add (KApply ''MethodPrototype'' ATYPE [BOOL, BOOL, ATYPE, ATYPE]), VisitBool (mt_userProvided m),
         VisitBool isCtor, tr (RType (mt_thisType m)),
         if mt_virtual m then add (KApply ''Virtual'' ATYPE [ATYPE]) else skip,
         if mt_pure m then add (KApply ''Pure'' ATYPE [ATYPE]) else skip,
         if mt_explicitConversion m then add (KApply ''Explicit'' ATYPE [ATYPE]) else skip,
         if mt_explicitCtor m then add (KApply ''Explicit'' ATYPE [ATYPE]) else skip]
      else add (KApply ''StaticMethodPrototype'' ATYPE [ATYPE]))"

definition TraverseFunctionType :: "sub \<Rightarrow> function_decl \<Rightarrow> vres" where
  "TraverseFunctionType tr D =
     (if fd_typeSourceInfo D then steps
        [case fd_method D of None \<Rightarrow> skip | Some m \<Rightarrow> TraverseMethodType tr (fd_isCtor D) m, tr (RType (fd_type D))]
      else throw ''something implicit in functions??'')"

definition TraverseFunctionBody :: "env \<Rightarrow> sub \<Rightarrow> function_decl \<Rightarrow> vres" where
  "TraverseFunctionBody E tr D = steps
     [if fd_definition D then steps
        ((if fd_isCtor D then
            [add (KApply ''Constructor'' STMT [LIST, STMT]), KSeqList (length (filter ci_written (fd_inits D)))] @
            map (TraverseConstructorInitializer E tr) (filter ci_written (fd_inits D))
          else []) @ [tr (RStmt (fd_body D))])
      else skip,
      if fd_defaulted D then add (KApply ''Defaulted'' STMT [])
      else if fd_deleted D then add (KApply ''Deleted'' STMT []) else skip]"

definition TraverseFunctionHelper :: "env \<Rightarrow> sub \<Rightarrow> function_decl \<Rightarrow> vres" where
  "TraverseFunctionHelper E tr D = steps
     ([TraverseSpecializationInfo E tr (fd_specialization D), StorageClass (fd_storageClass D),
       if fd_inline D then Specifier ''Inline'' FUNCTIONSPECIFIER else skip,
       if fd_constexpr D then Specifier ''Constexpr'' SPECIFIER else skip,
       if fd_definition D \<or> fd_defaulted D
       then add (KApply ''FunctionDefinition'' DECLARATOR [NNS, CID, CID, ATYPE, LIST, ASTMT])
       else add (KApply ''FunctionDecl'' DECLARATOR [NNS, CID, CID, ATYPE, LIST]),
       TraverseNestedNameSpecifier E tr (fd_qualifier D), TraverseDeclarationName E tr (fd_name D),
       mangledIdentifier E (fd_mangling D), TraverseFunctionType tr D, KSeqList (length (fd_params D))] @
      map (tr_decl tr) (fd_params D) @ [TraverseFunctionBody E tr D])"

section \<open>Variables and fields\<close>

definition TraverseVarHelper :: "env \<Rightarrow> sub \<Rightarrow> var_decl \<Rightarrow> vres" where
  "TraverseVarHelper E tr D = steps
     [StorageClass (vd_storageClass D), ThreadStorageClass (vd_tscSpec D),
      if vd_constexpr D then Specifier ''Constexpr'' SPECIFIER else skip,
      if vd_maxAlign D \<noteq> 0 then AlignasSpecifier (ucast (vd_maxAlign D div 8)) else skip,
      add (KApply ''VarDecl'' DECLARATOR [NNS, CID, CID, ATYPE, INIT, BOOL]),
      TraverseNestedNameSpecifier E tr (vd_qualifier D), TraverseDeclarationName E tr (vd_name D),
      mangledIdentifier E (vd_mangling D), tr (RType (vd_type D)),
      if vd_init D \<noteq> None then tr (RStmt (vd_init D)) else NoInit, VisitBool (vd_directInit D)]"

definition TraverseFieldDecl :: "env \<Rightarrow> sub \<Rightarrow> field_decl \<Rightarrow> vres" where
  "TraverseFieldDecl E tr D = steps
     [if fl_mutable D then Specifier ''Mutable'' STORAGECLASSSPECIFIER else skip,
      if fl_bitField D then add (KApply ''BitFieldDecl'' DECLARATOR [NNS, CID, ATYPE, EXPR])
      else add (KApply ''FieldDecl'' DECLARATOR [NNS, CID, ATYPE, INIT]),
      TraverseNestedNameSpecifier E tr (fl_qualifier D), TraverseDeclarationName E tr (fl_name D),
      tr (RType (fl_type D)),
      if fl_bitField D then tr (RStmt (fl_bitWidth D))
      else if fl_hasInit D then tr (RStmt (fl_init D)) else NoInit]"

section \<open>Templates\<close>

definition instantiated :: "string \<Rightarrow> bool" where
  "instantiated k \<longleftrightarrow> k \<in> {''TSK_ImplicitInstantiation'', ''TSK_ExplicitInstantiationDeclaration'',
     ''TSK_ExplicitInstantiationDefinition''}"

definition TraverseTemplateInstantiations :: "sub \<Rightarrow> template_decl \<Rightarrow> vres" where
  "TraverseTemplateInstantiations tr D =
     (if td_kind D = TypeAliasTemplate then KSeqList 0
      else (let fds = filter (\<lambda>(k, p). instantiated k) (td_specializations D) in
        steps (KSeqList (length fds) # map (\<lambda>(k, p). tr_decl tr p) fds)))"

definition TraverseTemplateParameters :: "sub \<Rightarrow> nat list option \<Rightarrow> vres" where
  "TraverseTemplateParameters tr TPL = (case TPL of
     None \<Rightarrow> skip
   | Some ps \<Rightarrow> steps (KSeqList (length ps) # map (tr_decl tr) ps))"

definition TraverseTemplateDecl :: "sub \<Rightarrow> template_decl \<Rightarrow> vres" where
  "TraverseTemplateDecl tr D = steps
     [add (KApply ''TemplateWithInstantiations'' DECL [DECL, LIST, LIST]), tr (RDecl (td_templated D)),
      TraverseTemplateParameters tr (td_params D), TraverseTemplateInstantiations tr D]"

definition TraverseTemplateTypeParmDecl :: "sub \<Rightarrow> type_parm \<Rightarrow> vres" where
  "TraverseTemplateTypeParmDecl tr D = steps
     [add (KApply ''TypeTemplateParam'' TEMPLATEPARAMETER [BOOL, BOOL, ATYPE, ATYPE]),
      VisitBool (tp_typename D), VisitBool (tp_pack D),
      case tp_type D of Some p \<Rightarrow> tr (RType (plain p)) | None \<Rightarrow> NoType,
      if tp_hasDefault D \<and> \<not> tp_inherited D then tr (RType (tp_default D)) else NoType]"

definition TraverseNonTypeTemplateParmDecl :: "env \<Rightarrow> sub \<Rightarrow> nontype_parm \<Rightarrow> vres" where
  "TraverseNonTypeTemplateParmDecl E tr D = steps
     [add (KApply ''ValueTemplateParam'' TEMPLATEPARAMETER [BOOL, NNS, CID, ATYPE, AEXPR]),
      VisitBool (np_pack D), TraverseNestedNameSpecifier E tr (np_qualifier D),
      TraverseDeclarationName E tr (np_name D), tr (RType (np_type D)),
      if np_hasDefault D \<and> \<not> np_inherited D then tr (RStmt (np_default D)) else NoExpression]"

definition TraverseTemplateTemplateParmDecl :: "env \<Rightarrow> sub \<Rightarrow> template_parm \<Rightarrow> vres" where
  "TraverseTemplateTemplateParmDecl E tr D = steps
     [add (KApply ''TemplateTemplateParam'' TEMPLATEPARAMETER [BOOL, CID, ATYPE, LIST]),
      VisitBool (tt_pack D), TraverseDeclarationName E tr (tt_name D),
      if tt_hasDefault D \<and> \<not> tt_inherited D then TraverseTemplateArgument E tr (tt_default D) else NoType,
      TraverseTemplateParameters tr (tt_params D)]"

section \<open>Classes and enumerations\<close>

definition VisitAccessSpecifier :: "access \<Rightarrow> vres" where
  "VisitAccessSpecifier a = add (KApply (case a of
     AS_public \<Rightarrow> ''Public'' | AS_protected \<Rightarrow> ''Protected'' | AS_private \<Rightarrow> ''Private''
   | AS_none \<Rightarrow> ''NoAccessSpec'') ACCESSSPECIFIER [])"

definition VisitTagKind :: "string \<Rightarrow> vres" where
  "VisitTagKind t = switch
     [(''TTK_Struct'', add (KApply ''Struct'' CLASSKEY [])), (''TTK_Union'', add (KApply ''Union'' CLASSKEY [])),
      (''TTK_Class'', add (KApply ''Class'' CLASSKEY [])), (''TTK_Enum'', add (KApply ''Enum'' TAG []))]
     (throw ''unimplemented: tag kind'') t"

text \<open>The declarations of a context that are not excluded: how many there are, and their
  traversal.\<close>

definition DeclContext :: "(nat \<Rightarrow> decl) \<Rightarrow> nat list \<Rightarrow> vres" where
  "DeclContext decls ds = KSeqList (length (filter (\<lambda>p. \<not> excludedDecl (decls p)) ds))"

definition TraverseDeclContextNode :: "sub \<Rightarrow> (nat \<Rightarrow> decl) \<Rightarrow> nat list \<Rightarrow> vres" where
  "TraverseDeclContextNode tr decls ds =
     steps (map (\<lambda>p. if \<not> excludedDecl (decls p) then tr_decl tr p else skip) ds)"

definition TraverseBase :: "sub \<Rightarrow> base_spec \<Rightarrow> vres" where
  "TraverseBase tr b = steps
     [add (KApply ''BaseClass'' BASESPECIFIER [BOOL, BOOL, ACCESSSPECIFIER, ATYPE]), VisitBool (b_virtual b),
      VisitBool (b_pack b), VisitAccessSpecifier (b_access b), tr (RType (b_type b))]"

definition TraverseCXXRecordHelper :: "env \<Rightarrow> sub \<Rightarrow> (nat \<Rightarrow> decl) \<Rightarrow> record_decl \<Rightarrow> vres" where
  "TraverseCXXRecordHelper E tr decls D = steps
     ((if rd_complete D then [add (KApply ''ClassDef'' DECL [TAG, CID, NNS, LIST, LIST, BOOL])]
       else [add (KApply ''TypeDecl'' DECL [ATYPE]),
             add (KApply ''ElaboratedTypeSpecifier'' ATYPE [TAG, CID, NNS])]) @
      [VisitTagKind (rd_tagKind D), TraverseDeclarationAsName E tr (rd_name D) (rd_addr D),
       TraverseNestedNameSpecifier E tr (rd_qualifier D)] @
      (if rd_complete D then
         KSeqList (length (rd_bases D)) # map (TraverseBase tr) (rd_bases D) @
         [DeclContext decls (rd_decls D), discard (TraverseDeclContextNode tr decls (rd_decls D)),
          VisitBool (rd_anonymous D)]
       else []))"

definition TraverseEnumDecl :: "env \<Rightarrow> sub \<Rightarrow> (nat \<Rightarrow> decl) \<Rightarrow> enum_decl \<Rightarrow> vres" where
  "TraverseEnumDecl E tr decls D =
     (if \<not> en_complete D then steps
        [add (KApply ''OpaqueEnumDeclaration'' DECL [CID, BOOL, ATYPE]),
         TraverseDeclarationName E tr (en_name D), VisitBool (en_scoped D),
         discard (tr (RType (en_integerType D)))]
      else steps
        [add (KApply ''EnumDef'' DECL [CID, NNS, BOOL, BOOL, ATYPE, LIST]),
         TraverseDeclarationAsName E tr (en_name D) (en_addr D),
         TraverseNestedNameSpecifier E tr (en_qualifier D), VisitBool (en_scoped D), VisitBool (en_fixed D),
         discard (tr (RType (en_integerType D))),
         DeclContext decls (en_decls D), discard (TraverseDeclContextNode tr decls (en_decls D))])"

definition TraverseClassTemplateSpecializationDecl ::
  "env \<Rightarrow> sub \<Rightarrow> (nat \<Rightarrow> decl) \<Rightarrow> string \<Rightarrow> nat option \<Rightarrow> record_decl \<Rightarrow> vres" where
  "TraverseClassTemplateSpecializationDecl E tr decls kind T D = steps
     [switch
        [(''TSK_ExplicitSpecialization'', add (KApply ''TemplateSpecialization'' DECL [ATYPE, DECL])),
         (''TSK_ExplicitInstantiationDeclaration'',
            add (KApply ''TemplateInstantiationDeclaration'' DECL [ATYPE, DECL])),
         (''TSK_ImplicitInstantiation'', add (KApply ''TemplateInstantiationDefinition'' DECL [ATYPE, DECL])),
         (''TSK_ExplicitInstantiationDefinition'',
            add (KApply ''TemplateInstantiationDefinition'' DECL [ATYPE, DECL]))]
        (throw ''unimplemented: implicit template instantiation'') kind,
      case T of Some p \<Rightarrow> tr (RType (plain p)) | None \<Rightarrow> NoType,
      TraverseCXXRecordHelper E tr decls D]"

definition TraverseClassTemplatePartialSpecializationDecl ::
  "env \<Rightarrow> sub \<Rightarrow> (nat \<Rightarrow> decl) \<Rightarrow> nat list \<Rightarrow> targ list \<Rightarrow> record_decl \<Rightarrow> vres" where
  "TraverseClassTemplatePartialSpecializationDecl E tr decls ps as D = steps
     ([add (KApply ''PartialSpecialization'' DECL [LIST, LIST, DECL]), KSeqList (length ps)] @
      map (tr_decl tr) ps @ [KSeqList (length as), TraverseTemplateArgumentLocs E tr as,
      TraverseCXXRecordHelper E tr decls D])"

section \<open>Visit methods\<close>

definition VisitTranslationUnitDecl :: "env \<Rightarrow> (nat \<Rightarrow> decl) \<Rightarrow> decl_attrs \<Rightarrow> vres" where
  "VisitTranslationUnitDecl E decls D = handled
     [add (KApply ''TranslationUnit'' DECL [STRING, LIST]), tok_string E (InFile E), DeclContext decls (d_decls D)]"

definition VisitTypedefDecl :: "env \<Rightarrow> sub \<Rightarrow> decl_attrs \<Rightarrow> vres" where
  "VisitTypedefDecl E tr D = handled
     [add (KApply ''TypedefDecl'' DECL [CID, ATYPE]), TraverseDeclarationName E tr (d_name D)]"

definition VisitTypeAliasDecl :: "env \<Rightarrow> sub \<Rightarrow> decl_attrs \<Rightarrow> vres" where
  "VisitTypeAliasDecl E tr D = handled
     [add (KApply ''TypeAliasDecl'' DECL [CID, ATYPE]), TraverseDeclarationName E tr (d_name D)]"

definition VisitLinkageSpecDecl :: "env \<Rightarrow> (nat \<Rightarrow> decl) \<Rightarrow> decl_attrs \<Rightarrow> vres" where
  "VisitLinkageSpecDecl E decls D = handled
     [add (KApply ''LinkageSpec'' DECL [STRING, BOOL, LIST]),
      tok_string E (if d_language D = ''lang_c'' then ''C''
        else if d_language D = ''lang_cxx'' then ''C++'' else ''''),
      VisitBool (d_braces D), DeclContext decls (d_decls D)]"

definition VisitNamespaceDecl :: "env \<Rightarrow> sub \<Rightarrow> (nat \<Rightarrow> decl) \<Rightarrow> decl_attrs \<Rightarrow> vres" where
  "VisitNamespaceDecl E tr decls D = handled
     [add (KApply ''NamespaceDecl'' DECL [CID, BOOL, LIST]), TraverseDeclarationName E tr (d_name D),
      VisitBool (d_inline D), DeclContext decls (d_decls D)]"

definition VisitNamespaceAliasDecl :: "env \<Rightarrow> sub \<Rightarrow> decl_attrs \<Rightarrow> vres" where
  "VisitNamespaceAliasDecl E tr D = handled
     [add (KApply ''NamespaceAliasDecl'' DECL [CID, CID, NNS]), TraverseDeclarationName E tr (d_name D),
      TraverseDeclarationAsName E tr (d_namespace D) (d_namespaceAddr D),
      TraverseNestedNameSpecifier E tr (d_qualifier D)]"

definition VisitFriendDecl :: vres where
  "VisitFriendDecl = handled [add (KApply ''FriendDecl'' DECL [DECL])]"

definition VisitEnumConstantDecl :: "env \<Rightarrow> sub \<Rightarrow> decl_attrs \<Rightarrow> vres" where
  "VisitEnumConstantDecl E tr D = handled
     [add (KApply ''Enumerator'' ENUMERATOR [CID, AEXPR]), discard (TraverseDeclarationName E tr (d_name D)),
      if \<not> d_hasInit D then NoExpression else skip]"

definition VisitAccessSpecDecl :: "decl_attrs \<Rightarrow> vres" where
  "VisitAccessSpecDecl D = handled
     [add (KApply ''AccessSpec'' DECL [ACCESSSPECIFIER]), VisitAccessSpecifier (d_access D)]"

definition VisitStaticAssertDecl :: vres where
  "VisitStaticAssertDecl = handled [add (KApply ''StaticAssert'' DECL [EXPR, EXPR])]"

definition VisitUsingDecl :: "decl_attrs \<Rightarrow> vres" where
  "VisitUsingDecl D = handled
     [add (KApply ''UsingDecl'' DECL [BOOL, NNS, CID]), VisitBool (d_typename D)]"

definition VisitUnresolvedUsingValueDecl :: vres where
  "VisitUnresolvedUsingValueDecl = handled
     [add (KApply ''UsingDecl'' DECL [BOOL, NNS, CID]), VisitBool False]"

definition VisitUsingDirectiveDecl :: "env \<Rightarrow> sub \<Rightarrow> decl_attrs \<Rightarrow> vres" where
  "VisitUsingDirectiveDecl E tr D = handled
     [add (KApply ''UsingDirective'' DECL [CID, NNS]), TraverseDeclarationName E tr (d_namespace D)]"

definition decl_methods :: "env \<Rightarrow> sub \<Rightarrow> (nat \<Rightarrow> decl) \<Rightarrow> decl_attrs \<Rightarrow> (string \<times> vres) list" where
  "decl_methods E tr decls D =
    [(''TranslationUnitDecl'', VisitTranslationUnitDecl E decls D), (''TypedefDecl'', VisitTypedefDecl E tr D),
     (''TypeAliasDecl'', VisitTypeAliasDecl E tr D), (''LinkageSpecDecl'', VisitLinkageSpecDecl E decls D),
     (''NamespaceDecl'', VisitNamespaceDecl E tr decls D),
     (''NamespaceAliasDecl'', VisitNamespaceAliasDecl E tr D), (''FriendDecl'', VisitFriendDecl),
     (''EnumConstantDecl'', VisitEnumConstantDecl E tr D), (''AccessSpecDecl'', VisitAccessSpecDecl D),
     (''StaticAssertDecl'', VisitStaticAssertDecl), (''UsingDecl'', VisitUsingDecl D),
     (''UnresolvedUsingValueDecl'', VisitUnresolvedUsingValueDecl),
     (''UsingDirectiveDecl'', VisitUsingDirectiveDecl E tr D)]"

definition TraverseDeclNode :: "env \<Rightarrow> sub \<Rightarrow> (nat \<Rightarrow> decl) \<Rightarrow> decl_node \<Rightarrow> vres" where
  "TraverseDeclNode E tr decls N = (case N of
     DFunction f \<Rightarrow> TraverseFunctionHelper E tr f
   | DVar v \<Rightarrow> TraverseVarHelper E tr v
   | DField f \<Rightarrow> TraverseFieldDecl E tr f
   | DTemplate t \<Rightarrow> if td_kind t = VarTemplate then throw ''unimplemented decl'' else TraverseTemplateDecl tr t
   | DTemplateTypeParm t \<Rightarrow> TraverseTemplateTypeParmDecl tr t
   | DNonTypeTemplateParm t \<Rightarrow> TraverseNonTypeTemplateParmDecl E tr t
   | DTemplateTemplateParm t \<Rightarrow> TraverseTemplateTemplateParmDecl E tr t
   | DRecord r \<Rightarrow> TraverseCXXRecordHelper E tr decls r
   | DEnum e \<Rightarrow> TraverseEnumDecl E tr decls e
   | DClassTemplateSpecialization k T r \<Rightarrow> TraverseClassTemplateSpecializationDecl E tr decls k T r
   | DClassTemplatePartialSpecialization ps as r \<Rightarrow>
       TraverseClassTemplatePartialSpecializationDecl E tr decls ps as r
   | DOther classes a calls \<Rightarrow>
       TraverseDefault E tr (visit_in ''Decl'' ''unimplemented decl'' (decl_methods E tr decls a)) classes calls)"

definition TraverseDecl :: "env \<Rightarrow> sub \<Rightarrow> (nat \<Rightarrow> decl) \<Rightarrow> nat option \<Rightarrow> vres" where
  "TraverseDecl E tr decls D = (case D of
     None \<Rightarrow> skip
   | Some p \<Rightarrow> (let d = decls p in
       if excludedDecl d then skip
       else steps [add (KApply ''DeclLoc'' DECL [CABSLOC, DECL]), CabsLoc E (d_loc d),
         TraverseDeclNode E tr decls (d_node d)]))"

section \<open>Well-formed declarations\<close>

definition ok_ctor_init :: "count \<Rightarrow> ctor_init \<Rightarrow> bool" where
  "ok_ctor_init cnt i = (case ci_kind i of
     InitBase T v p \<Rightarrow> one cnt (RType T) \<and> one cnt (RStmt (ci_init i))
   | InitMember n \<Rightarrow> ok_name cnt n \<and> one cnt (RStmt (ci_init i))
   | InitDelegating \<Rightarrow> one cnt (RStmt (ci_init i))
   | InitOther \<Rightarrow> True)"

definition ok_specialization :: "count \<Rightarrow> specialization_info option \<Rightarrow> bool" where
  "ok_specialization cnt FTSI = (case FTSI of
     None \<Rightarrow> True
   | Some si \<Rightarrow> ok_name cnt (si_template si) \<and>
       (case si_args si of None \<Rightarrow> True | Some as \<Rightarrow> \<forall>a\<in>set as. ok_targ cnt a))"

text \<open>
  A definition has a body, or it is defaulted or deleted and has none; a declaration that is
  no definition is not deleted. Clang gives an explicitly defaulted function that is used a body
  of its own making; such a tree is not well-formed here, because the code then adds both the
  body and \<open>Defaulted\<close> where one statement is expected (\<open>surplus_terms\<close> of
  Visitor.thy).
\<close>

definition ok_body :: "count \<Rightarrow> function_decl \<Rightarrow> bool" where
  "ok_body cnt D \<longleftrightarrow>
     (if fd_definition D then
        (fd_isCtor D \<longrightarrow> (\<forall>i\<in>set (fd_inits D). ci_written i \<longrightarrow> ok_ctor_init cnt i)) \<and>
        (if fd_defaulted D \<or> fd_deleted D then cnt (RStmt (fd_body D)) = Some 0 else one cnt (RStmt (fd_body D)))
      else fd_defaulted D \<or> \<not> fd_deleted D)"

definition all_decls :: "count \<Rightarrow> nat list \<Rightarrow> bool" where
  "all_decls cnt ps \<longleftrightarrow> (\<forall>p\<in>set ps. one cnt (RDecl (Some p)))"

definition ok_function :: "count \<Rightarrow> function_decl \<Rightarrow> bool" where
  "ok_function cnt D \<longleftrightarrow> ok_specialization cnt (fd_specialization D) \<and> ok_qualifier cnt (fd_qualifier D) \<and>
     ok_name cnt (fd_name D) \<and>
     (case fd_method D of None \<Rightarrow> True | Some m \<Rightarrow> mt_instance m \<longrightarrow> one cnt (RType (mt_thisType m))) \<and>
     one cnt (RType (fd_type D)) \<and> all_decls cnt (fd_params D) \<and> ok_body cnt D"

definition ok_var :: "count \<Rightarrow> var_decl \<Rightarrow> bool" where
  "ok_var cnt D \<longleftrightarrow> ok_qualifier cnt (vd_qualifier D) \<and> ok_name cnt (vd_name D) \<and> one cnt (RType (vd_type D)) \<and>
     (vd_init D \<noteq> None \<longrightarrow> one cnt (RStmt (vd_init D)))"

definition ok_field :: "count \<Rightarrow> field_decl \<Rightarrow> bool" where
  "ok_field cnt D \<longleftrightarrow> ok_qualifier cnt (fl_qualifier D) \<and> ok_name cnt (fl_name D) \<and> one cnt (RType (fl_type D)) \<and>
     (if fl_bitField D then one cnt (RStmt (fl_bitWidth D))
      else fl_hasInit D \<longrightarrow> one cnt (RStmt (fl_init D)))"

definition ok_parameters :: "count \<Rightarrow> nat list option \<Rightarrow> bool" where
  "ok_parameters cnt TPL = (case TPL of None \<Rightarrow> False | Some ps \<Rightarrow> all_decls cnt ps)"

definition ok_template :: "count \<Rightarrow> template_decl \<Rightarrow> bool" where
  "ok_template cnt D \<longleftrightarrow> one cnt (RDecl (td_templated D)) \<and> ok_parameters cnt (td_params D) \<and>
     (\<forall>(k, p)\<in>set (td_specializations D). instantiated k \<longrightarrow> one cnt (RDecl (Some p)))"

definition ok_context :: "count \<Rightarrow> (nat \<Rightarrow> decl) \<Rightarrow> nat list \<Rightarrow> bool" where
  "ok_context cnt decls ds \<longleftrightarrow> (\<forall>p\<in>set ds. \<not> excludedDecl (decls p) \<longrightarrow> one cnt (RDecl (Some p)))"

definition ok_record :: "count \<Rightarrow> (nat \<Rightarrow> decl) \<Rightarrow> record_decl \<Rightarrow> bool" where
  "ok_record cnt decls D \<longleftrightarrow> ok_name cnt (rd_name D) \<and> ok_qualifier cnt (rd_qualifier D) \<and>
     (rd_complete D \<longrightarrow> (\<forall>b\<in>set (rd_bases D). one cnt (RType (b_type b))) \<and> ok_context cnt decls (rd_decls D))"

definition ok_enum :: "count \<Rightarrow> (nat \<Rightarrow> decl) \<Rightarrow> enum_decl \<Rightarrow> bool" where
  "ok_enum cnt decls D \<longleftrightarrow> ok_name cnt (en_name D) \<and> ok_qualifier cnt (en_qualifier D) \<and>
     one cnt (RType (en_integerType D)) \<and> (en_complete D \<longrightarrow> ok_context cnt decls (en_decls D))"

definition decl_slots :: "(nat \<Rightarrow> decl) \<Rightarrow> decl_attrs \<Rightarrow> (string \<times> nat) list" where
  "decl_slots decls D =
    (let n = length (filter (\<lambda>p. \<not> excludedDecl (decls p)) (d_decls D)) in
    [(''TranslationUnitDecl'', n), (''TypedefDecl'', 1), (''TypeAliasDecl'', 1), (''LinkageSpecDecl'', n),
     (''NamespaceDecl'', n), (''NamespaceAliasDecl'', 0), (''FriendDecl'', 1),
     (''EnumConstantDecl'', if d_hasInit D then 1 else 0), (''AccessSpecDecl'', 0), (''StaticAssertDecl'', 2),
     (''UsingDecl'', 2), (''UnresolvedUsingValueDecl'', 2), (''UsingDirectiveDecl'', 1)])"

definition ok_decl_node :: "count \<Rightarrow> (nat \<Rightarrow> decl) \<Rightarrow> decl_node \<Rightarrow> bool" where
  "ok_decl_node cnt decls N = (case N of
     DFunction f \<Rightarrow> ok_function cnt f
   | DVar v \<Rightarrow> ok_var cnt v
   | DField f \<Rightarrow> ok_field cnt f
   | DTemplate t \<Rightarrow> ok_template cnt t
   | DTemplateTypeParm t \<Rightarrow> (case tp_type t of None \<Rightarrow> True | Some p \<Rightarrow> one cnt (RType (plain p))) \<and>
       (tp_hasDefault t \<and> \<not> tp_inherited t \<longrightarrow> one cnt (RType (tp_default t)))
   | DNonTypeTemplateParm t \<Rightarrow> ok_qualifier cnt (np_qualifier t) \<and> ok_name cnt (np_name t) \<and>
       one cnt (RType (np_type t)) \<and>
       (np_hasDefault t \<and> \<not> np_inherited t \<longrightarrow> one cnt (RStmt (np_default t)))
   | DTemplateTemplateParm t \<Rightarrow> ok_name cnt (tt_name t) \<and>
       (tt_hasDefault t \<and> \<not> tt_inherited t \<longrightarrow> ok_targ cnt (tt_default t)) \<and> ok_parameters cnt (tt_params t)
   | DRecord r \<Rightarrow> ok_record cnt decls r
   | DEnum e \<Rightarrow> ok_enum cnt decls e
   | DClassTemplateSpecialization k T r \<Rightarrow>
       (case T of None \<Rightarrow> True | Some p \<Rightarrow> one cnt (RType (plain p))) \<and> ok_record cnt decls r
   | DClassTemplatePartialSpecialization ps as r \<Rightarrow>
       all_decls cnt ps \<and> (\<forall>a\<in>set as. ok_targ cnt a) \<and> ok_record cnt decls r
   | DOther classes a calls \<Rightarrow> ok_name cnt (d_name a) \<and> ok_name cnt (d_namespace a) \<and>
       ok_qualifier cnt (d_qualifier a) \<and> ok_other cnt ''Decl'' (decl_slots decls a) classes calls)"

section \<open>Each declaration becomes one term\<close>

lemma opens_keep [simp]:
  "opens a (Suc 0) (Suc 0) \<Longrightarrow> opens (steps as) (Suc 0) j \<Longrightarrow> opens (steps (a # as)) (Suc 0) j"
  by (simp add: steps.simps(2) opens_try_to)

lemma opens_keep_more:
  "opens a (Suc 0) (Suc 0) \<Longrightarrow> opens (steps as) (Suc k) j \<Longrightarrow> opens (steps (a # as)) (Suc k) j"
  using opens_shift [of a "Suc 0" "Suc 0" k] by (simp add: steps.simps(2) opens_try_to)

lemma emits_discard [simp]: "opens a k j \<Longrightarrow> opens (discard a) k j"
  by (rule opens_discard)

lemma opens_StorageClass [simp]: "opens (StorageClass sc) (Suc 0) (Suc 0)"
  unfolding StorageClass_def by (rule switch_emits) (simp_all add: visit_defs)

lemma opens_ThreadStorageClass [simp]: "opens (ThreadStorageClass sc) (Suc 0) (Suc 0)"
  unfolding ThreadStorageClass_def by (rule switch_emits) (simp_all add: visit_defs)

lemma opens_Specifier [simp]: "opens (Specifier l s) (Suc 0) (Suc 0)"
  by (simp add: visit_defs)

lemma opens_Alignas [simp]: "opens (AlignasSpecifier n) (Suc 0) (Suc 0)"
  by (simp add: AlignasSpecifier_def visit_defs)

lemma emits_mangled [simp]: "emits (mangledIdentifier E m) (Suc 0)"
  by (simp add: mangledIdentifier_def visit_defs)

lemma emits_TagKind [simp]: "emits (VisitTagKind t) (Suc 0)"
  unfolding VisitTagKind_def by (rule switch_emits) simp_all

lemma emits_AccessSpecifier [simp]: "emits (VisitAccessSpecifier a) (Suc 0)"
  by (simp add: VisitAccessSpecifier_def)

lemma steps_filter:
  "steps (map (\<lambda>p. if P p then f p else skip) ds) = steps (map f (filter P ds))"
  by (induction ds) (simp_all add: steps.simps(2) try_to_def split: vres.splits)

context sub_traversal
begin

lemma emits_all_decls: "all_decls cnt ps \<Longrightarrow> \<forall>p\<in>set ps. emits (tr_decl tr p) (Suc 0)"
  using sub by (auto simp: all_decls_def)

lemma emits_ConstructorInitializer:
  "ok_ctor_init cnt i \<Longrightarrow> emits (TraverseConstructorInitializer E tr i) (Suc 0)"
  by (auto simp: ok_ctor_init_def TraverseConstructorInitializer_def visit_defs sub split: ctor_init_kind.splits)

lemma opens_SpecializationInfo [simp]:
  "ok_specialization cnt s \<Longrightarrow> opens (TraverseSpecializationInfo E tr s) (Suc 0) (Suc 0)"
  by (auto simp: ok_specialization_def TraverseSpecializationInfo_def specialization_type_def
      TraverseTemplateArgumentLocs_def visit_defs split: option.splits)

lemma opens_MethodType:
  "mt_instance m \<longrightarrow> one cnt (RType (mt_thisType m)) \<Longrightarrow>
   opens (TraverseMethodType tr c m) (Suc 0) (Suc 0)"
  by (auto simp: TraverseMethodType_def switch_def visit_defs sub)

lemma emits_FunctionType:
  assumes "ok_function cnt D"
  shows "emits (TraverseFunctionType tr D) (Suc 0)"
proof -
  have "opens (case fd_method D of None \<Rightarrow> skip | Some m \<Rightarrow> TraverseMethodType tr (fd_isCtor D) m) (Suc 0) (Suc 0)"
    using assms opens_MethodType by (auto simp: ok_function_def split: option.splits)
  with assms show ?thesis by (simp add: TraverseFunctionType_def ok_function_def sub)
qed

lemma opens_FunctionBody:
  assumes "ok_body cnt D"
  shows "emits (TraverseFunctionBody E tr D) (if fd_definition D \<or> fd_defaulted D then Suc 0 else 0)"
proof (cases "fd_definition D")
  case False
  with assms show ?thesis by (auto simp: TraverseFunctionBody_def ok_body_def)
next
  case True
  define last where "last = (if fd_defaulted D then add (KApply ''Defaulted'' STMT [])
      else if fd_deleted D then add (KApply ''Deleted'' STMT []) else skip)"
  have body: "emits (steps [tr (RStmt (fd_body D)), last]) (Suc 0)"
  proof (cases "fd_defaulted D \<or> fd_deleted D")
    case True
    with assms \<open>fd_definition D\<close> have "emits (tr (RStmt (fd_body D))) 0" by (simp add: ok_body_def sub)
    from opens_some [OF this, of "[last]" "Suc 0" 0] True show ?thesis by (auto simp: last_def)
  next
    case False
    with assms \<open>fd_definition D\<close> show ?thesis by (simp add: ok_body_def sub last_def)
  qed
  with assms True show ?thesis
    by (auto simp: TraverseFunctionBody_def ok_body_def last_def [symmetric] visit_defs
        emits_ConstructorInitializer)
qed

end

lemmas decl_method_defs = VisitTranslationUnitDecl_def VisitTypedefDecl_def VisitTypeAliasDecl_def
  VisitLinkageSpecDecl_def VisitNamespaceDecl_def VisitNamespaceAliasDecl_def VisitFriendDecl_def
  VisitEnumConstantDecl_def VisitAccessSpecDecl_def VisitStaticAssertDecl_def VisitUsingDecl_def
  VisitUnresolvedUsingValueDecl_def VisitUsingDirectiveDecl_def DeclContext_def

context sub_traversal
begin

lemma emits_FunctionHelper:
  assumes "ok_function cnt D"
  shows "emits (TraverseFunctionHelper E tr D) (Suc 0)"
proof -
  have "ok_body cnt D" using assms by (simp add: ok_function_def)
  from opens_single [OF opens_FunctionBody [OF this, of E]]
  have "opens (steps [TraverseFunctionBody E tr D]) (if fd_definition D \<or> fd_defaulted D then Suc 0 else 0) 0" .
  moreover have "ok_specialization cnt (fd_specialization D)" "ok_qualifier cnt (fd_qualifier D)"
    "ok_name cnt (fd_name D)" "\<forall>p\<in>set (fd_params D). emits (tr_decl tr p) (Suc 0)"
    using assms emits_all_decls [of "fd_params D"] by (simp_all add: ok_function_def)
  ultimately show ?thesis
    using emits_FunctionType [OF assms]
    by (cases "fd_definition D \<or> fd_defaulted D")
       (simp_all add: TraverseFunctionHelper_def KSeqList_def opens_each [where k = 0, simplified])
qed

text \<open>A defaulted function that has a body all the same.\<close>

lemma defaulted_with_body:
  assumes "ok_function cnt (D\<lparr>fd_body := None\<rparr>)" and "fd_definition D" and "fd_defaulted D"
    and "one cnt (RStmt (fd_body D))"
  shows "emits (TraverseFunctionHelper E tr D) (Suc (Suc 0))"
proof -
  have parts: "ok_specialization cnt (fd_specialization D)" "ok_qualifier cnt (fd_qualifier D)"
    "ok_name cnt (fd_name D)" "\<forall>p\<in>set (fd_params D). emits (tr_decl tr p) (Suc 0)"
    using assms(1) emits_all_decls [of "fd_params D"] by (simp_all add: ok_function_def)
  have "TraverseFunctionType tr (D\<lparr>fd_body := None\<rparr>) = TraverseFunctionType tr D"
    by (simp add: TraverseFunctionType_def split: option.split)
  with emits_FunctionType [OF assms(1)] have type: "emits (TraverseFunctionType tr D) (Suc 0)" by simp
  have "emits (TraverseFunctionBody E tr D) (Suc (Suc 0))"
    using assms by (auto simp: TraverseFunctionBody_def ok_function_def ok_body_def sub visit_defs
        emits_ConstructorInitializer)
  from opens_single [OF this] parts type assms(2) show ?thesis
    by (simp add: TraverseFunctionHelper_def KSeqList_def opens_keep_more)
qed

lemma emits_VarHelper: "ok_var cnt D \<Longrightarrow> emits (TraverseVarHelper E tr D) (Suc 0)"
  by (simp add: TraverseVarHelper_def ok_var_def sub NoInit_def VisitBool_def)

lemma emits_FieldDecl: "ok_field cnt D \<Longrightarrow> emits (TraverseFieldDecl E tr D) (Suc 0)"
  by (auto simp: TraverseFieldDecl_def ok_field_def sub NoInit_def split: if_splits)

lemma emits_TemplateParameters: "ok_parameters cnt TPL \<Longrightarrow> emits (TraverseTemplateParameters tr TPL) (Suc 0)"
  by (auto simp: TraverseTemplateParameters_def ok_parameters_def visit_defs emits_all_decls split: option.splits)

lemma emits_TemplateInstantiations:
  assumes "ok_template cnt D"
  shows "emits (TraverseTemplateInstantiations tr D) (Suc 0)"
proof -
  have "\<forall>x\<in>set (filter (\<lambda>(k, p). instantiated k) (td_specializations D)).
      emits ((\<lambda>(k, p). tr_decl tr p) x) (Suc 0)"
    using assms by (auto simp: ok_template_def sub)
  then show ?thesis by (auto simp: TraverseTemplateInstantiations_def Let_def visit_defs)
qed

lemma emits_TemplateDecl: "ok_template cnt D \<Longrightarrow> emits (TraverseTemplateDecl tr D) (Suc 0)"
  using emits_TemplateInstantiations [of D] emits_TemplateParameters [of "td_params D"]
  by (simp add: TraverseTemplateDecl_def ok_template_def sub)

lemma opens_context:
  assumes "ok_context cnt decls ds" and "opens (steps as) k j"
  shows "opens (steps (DeclContext decls ds # discard (TraverseDeclContextNode tr decls ds) # as)) (Suc k) j"
proof -
  let ?ps = "filter (\<lambda>p. \<not> excludedDecl (decls p)) ds"
  have "emits (TraverseDeclContextNode tr decls ds) (length ?ps)"
    unfolding TraverseDeclContextNode_def steps_filter
    using assms(1) by (intro opens_each_last_Suc) (auto simp: ok_context_def sub)
  from opens_some [OF opens_discard [OF this] assms(2)] show ?thesis
    by (simp add: DeclContext_def visit_defs)
qed

lemma emits_Base: "one cnt (RType (b_type b)) \<Longrightarrow> emits (TraverseBase tr b) (Suc 0)"
  by (simp add: TraverseBase_def visit_defs sub)

lemma emits_RecordHelper:
  assumes "ok_record cnt decls D"
  shows "emits (TraverseCXXRecordHelper E tr decls D) (Suc 0)"
proof (cases "rd_complete D")
  case False
  with assms show ?thesis by (simp add: TraverseCXXRecordHelper_def ok_record_def)
next
  case True
  with assms have bases: "\<forall>b\<in>set (rd_bases D). emits (TraverseBase tr b) (Suc 0)"
    and "ok_context cnt decls (rd_decls D)" by (simp_all add: ok_record_def emits_Base)
  from opens_context [OF this(2), of "[VisitBool (rd_anonymous D)]" "Suc 0" 0]
  have "opens (steps [DeclContext decls (rd_decls D), discard (TraverseDeclContextNode tr decls (rd_decls D)),
      VisitBool (rd_anonymous D)]) (Suc (Suc 0)) 0" by (simp add: VisitBool_def)
  with bases True assms show ?thesis
    by (simp add: TraverseCXXRecordHelper_def ok_record_def KSeqList_def)
qed

lemma emits_EnumDecl:
  assumes "ok_enum cnt decls D"
  shows "emits (TraverseEnumDecl E tr decls D) (Suc 0)"
  using assms opens_context [of decls "en_decls D" "[]" 0 0]
  by (auto simp: TraverseEnumDecl_def ok_enum_def sub VisitBool_def)

lemma decl_methods_match:
  "ok_name cnt (d_name a) \<Longrightarrow> ok_name cnt (d_namespace a) \<Longrightarrow> ok_qualifier cnt (d_qualifier a) \<Longrightarrow>
   matches (decl_methods E tr decls a) (decl_slots decls a)"
  unfolding decl_methods_def decl_slots_def Let_def matches_Cons decl_method_defs
  by (simp add: visit_defs)

lemma emits_DeclNode: "ok_decl_node cnt decls N \<Longrightarrow> emits (TraverseDeclNode E tr decls N) (Suc 0)"
proof (cases N)
  case (DOther classes a calls)
  moreover assume "ok_decl_node cnt decls N"
  ultimately show ?thesis using emits_Default [OF decl_methods_match]
    by (simp add: ok_decl_node_def TraverseDeclNode_def)
next
  case (DClassTemplateSpecialization k T r)
  moreover assume "ok_decl_node cnt decls N"
  ultimately show ?thesis
    by (auto simp: ok_decl_node_def TraverseDeclNode_def TraverseClassTemplateSpecializationDecl_def
        switch_def emits_RecordHelper sub NoType_def split: option.splits)
next
  case (DClassTemplatePartialSpecialization ps as r)
  moreover assume "ok_decl_node cnt decls N"
  ultimately show ?thesis
    using emits_all_decls [of ps]
    by (simp add: ok_decl_node_def TraverseDeclNode_def TraverseClassTemplatePartialSpecializationDecl_def
        emits_RecordHelper TraverseTemplateArgumentLocs_def visit_defs)
qed (auto simp: ok_decl_node_def TraverseDeclNode_def emits_FunctionHelper emits_VarHelper emits_FieldDecl
      emits_TemplateDecl emits_RecordHelper emits_EnumDecl TraverseTemplateTypeParmDecl_def
      TraverseNonTypeTemplateParmDecl_def TraverseTemplateTemplateParmDecl_def emits_TemplateParameters
      sub visit_defs split: option.splits)

lemma emits_Decl:
  assumes "excludedDecl (decls p) \<or> ok_decl_node cnt decls (d_node (decls p))"
  shows "emits (TraverseDecl E tr decls (Some p)) (if excludedDecl (decls p) then 0 else Suc 0)"
  using assms emits_DeclNode by (auto simp: TraverseDecl_def Let_def)

end

end
