(* ===== verification/VisitMono.thy ===== *)
theory VisitMono
  imports VisitType VisitStmt VisitDecl
begin

text \<open>
  What a greater depth changes: nothing. A tree that is well-formed for one count of the parts
  is well-formed for every count that extends it, and a method that returns or throws with one
  traversal of the parts does the same with every traversal that goes deeper. Both are stated
  as locales over the two counts and the two traversals; Visitor.thy interprets them at the
  depths of the recursion.
\<close>

section \<open>Counts\<close>

locale more_counts =
  fixes cnt cnt' :: count
  assumes more: "cnt r = Some m \<Longrightarrow> cnt' r = Some m"
begin

lemma more_name: "ok_name cnt n \<Longrightarrow> ok_name cnt' n"
  by (cases n) (simp_all add: more)

lemma more_nns_kind: "ok_nns_kind cnt k \<Longrightarrow> ok_nns_kind cnt' k"
  by (cases k) (simp_all add: more more_name)

lemma more_nns: "ok_nns cnt n \<Longrightarrow> ok_nns cnt' n"
  by (induction n) (simp_all add: more_nns_kind)

lemma more_qualifier: "ok_qualifier cnt n \<Longrightarrow> ok_qualifier cnt' n"
  by (auto simp: ok_qualifier_def more_nns split: option.splits)

lemma more_tname: "ok_tname cnt n \<Longrightarrow> ok_tname cnt' n"
  by (cases n) (simp_all add: more_name)

lemma more_targ: "ok_targ cnt a \<Longrightarrow> ok_targ cnt' a"
  by (induction a) (simp_all add: more more_tname)

lemmas more_parts = more more_name more_qualifier more_tname more_targ

lemma more_call: "call_count cnt c = Some m \<Longrightarrow> call_count cnt' c = Some m"
  by (cases c) (auto simp: call_count_def more_parts split: if_splits)

lemma more_calls: "calls_count cnt cs = Some m \<Longrightarrow> calls_count cnt' cs = Some m"
  by (induction cs arbitrary: m) (auto simp: more_call split: option.splits)

lemma more_other: "ok_other cnt root slots cs calls \<Longrightarrow> ok_other cnt' root slots cs calls"
  by (induction cs) (auto simp: more_calls split: option.splits if_splits)

lemma more_type: "ok_type cnt T \<Longrightarrow> ok_type cnt' T"
  by (cases T) (auto simp: ok_type_def ok_fproto_def ok_array_def more_parts more_other split: option.splits)

lemma more_all_one: "all_one cnt ps \<Longrightarrow> all_one cnt' ps"
  by (simp add: all_one_def more)

lemma more_optional: "optional cnt p \<Longrightarrow> optional cnt' p"
  by (auto simp: optional_def more)

lemma more_condition: "ok_condition cnt v c \<Longrightarrow> ok_condition cnt' v c"
  by (auto simp: ok_condition_def more split: if_splits)

lemma more_type_option: "ok_type_option cnt T \<Longrightarrow> ok_type_option cnt' T"
  by (auto simp: ok_type_option_def more split: option.splits)

lemma more_lambda: "ok_lambda cnt e \<Longrightarrow> ok_lambda cnt' e"
  by (auto simp: ok_lambda_def ok_capture_def more split: if_splits)

lemma more_init_list: "ok_init_list cnt e \<Longrightarrow> ok_init_list cnt' e"
  by (auto simp: ok_init_list_def more_all_one split: prod.splits)

lemma more_stmt_node: "ok_stmt_node cnt N \<Longrightarrow> ok_stmt_node cnt' N"
  by (cases N) (auto simp: ok_stmt_node_def ok_stmt_attrs_def more_parts more_other more_all_one
      more_optional more_condition more_type_option more_lambda more_init_list)

lemma more_all_decls: "all_decls cnt ps \<Longrightarrow> all_decls cnt' ps"
  by (simp add: all_decls_def more)

lemma more_ctor_init: "ok_ctor_init cnt i \<Longrightarrow> ok_ctor_init cnt' i"
  by (auto simp: ok_ctor_init_def more_parts split: ctor_init_kind.splits)

lemma more_body: "ok_body cnt D \<Longrightarrow> ok_body cnt' D"
  by (auto simp: ok_body_def more more_ctor_init split: if_splits)

lemma more_function: "ok_function cnt D \<Longrightarrow> ok_function cnt' D"
  by (auto simp: ok_function_def ok_specialization_def more_parts more_body more_all_decls split: option.splits)

lemma more_var: "ok_var cnt D \<Longrightarrow> ok_var cnt' D"
  by (auto simp: ok_var_def more_parts)

lemma more_field: "ok_field cnt D \<Longrightarrow> ok_field cnt' D"
  by (auto simp: ok_field_def more_parts split: if_splits)

lemma more_parameters: "ok_parameters cnt ps \<Longrightarrow> ok_parameters cnt' ps"
  by (auto simp: ok_parameters_def more_all_decls split: option.splits)

lemma more_template: "ok_template cnt D \<Longrightarrow> ok_template cnt' D"
  by (auto simp: ok_template_def more more_parameters)

lemma more_record: "ok_record cnt decls D \<Longrightarrow> ok_record cnt' decls D"
  by (auto simp: ok_record_def ok_context_def more_parts)

lemma more_enum: "ok_enum cnt decls D \<Longrightarrow> ok_enum cnt' decls D"
  by (auto simp: ok_enum_def ok_context_def more_parts)

lemma more_decl_node: "ok_decl_node cnt decls N \<Longrightarrow> ok_decl_node cnt' decls N"
  by (cases N) (auto simp: ok_decl_node_def more_parts more_other more_all_decls more_function more_var
      more_field more_template more_record more_enum more_parameters split: option.splits)

end

section \<open>Traversals\<close>

text \<open>The order of results: running out of fuel is below everything else.\<close>

definition below :: "vres \<Rightarrow> vres \<Rightarrow> bool" where
  "below r r' \<longleftrightarrow> r = Throw OutOfFuel \<or> r = r'"

lemma below_refl [simp]: "below r r"
  by (simp add: below_def)

lemma below_try_to: "below a a' \<Longrightarrow> below k k' \<Longrightarrow> below (try_to a k) (try_to a' k')"
  by (auto simp: below_def try_to_def split: vres.splits)

lemma below_steps [simp]: "list_all2 below as bs \<Longrightarrow> below (steps as) (steps bs)"
  by (induction rule: list_all2_induct) (simp_all add: steps.simps(2) below_try_to)

lemma below_discard [simp]: "below a a' \<Longrightarrow> below (discard a) (discard a')"
  by (auto simp: below_def)

lemma below_return_false [simp]: "below a a' \<Longrightarrow> below (return_false a) (return_false a')"
  by (auto simp: below_def)

lemma below_each [simp]:
  "list_all2 below (map f xs) (map g xs) \<longleftrightarrow> (\<forall>x\<in>set xs. below (f x) (g x))"
  by (induction xs) simp_all

lemma below_list [simp]: "list_all2 below xs xs"
  by (induction xs) simp_all

lemma below_append [simp]:
  "length as = length bs \<Longrightarrow> list_all2 below (as @ xs) (bs @ ys) \<longleftrightarrow> list_all2 below as bs \<and> list_all2 below xs ys"
  by (rule list_all2_append)

lemma below_if [simp]:
  "below (if b then x else y) (if b then x' else y') \<longleftrightarrow> (if b then below x x' else below y y')"
  by simp

definition below_table :: "(string \<times> vres) list \<Rightarrow> (string \<times> vres) list \<Rightarrow> bool" where
  "below_table = list_all2 (\<lambda>(c, r) (d, s). c = d \<and> below r s)"

lemma below_table_Cons [simp]:
  "below_table [] []"
  "below_table ((c, r) # t) ((d, s) # u) \<longleftrightarrow> c = d \<and> below r s \<and> below_table t u"
  by (simp_all add: below_table_def)

lemma below_table_append: "below_table t t' \<Longrightarrow> below_table u u' \<Longrightarrow> below_table (t @ u) (t' @ u')"
  by (simp add: below_table_def list_all2_appendI)

lemma below_switch:
  "below_table t u \<Longrightarrow> below d d' \<Longrightarrow> below (switch t d c) (switch u d' c)"
  unfolding below_table_def switch_def by (induction rule: list_all2_induct) auto

lemma below_walk_up:
  "(\<And>c. below (visit c) (visit' c)) \<Longrightarrow> below (walk_up visit cs) (walk_up visit' cs)"
proof (induction cs)
  case (Cons c cs)
  from Cons.prems [of c] Cons.IH [OF Cons.prems] show ?case
    by (auto simp: below_def split: vres.splits)
qed simp

lemma below_visit_in: "below_table t u \<Longrightarrow> below (visit_in root msg t c) (visit_in root msg u c)"
  by (simp add: visit_in_def below_switch)

locale deeper =
  fixes tr tr' :: sub
  assumes deep [simp]: "below (tr r) (tr' r)"
begin

lemma deep_DeclarationName2 [simp]: "below (TraverseDeclarationName2 E tr n d) (TraverseDeclarationName2 E tr' n d)"
  by (cases n) (simp_all add: TraverseDeclarationName2_def)

lemma deep_DeclarationName [simp]: "below (TraverseDeclarationName E tr n) (TraverseDeclarationName E tr' n)"
  by (simp add: TraverseDeclarationName_def)

lemma deep_DeclarationAsName [simp]:
  "below (TraverseDeclarationAsName E tr n a) (TraverseDeclarationAsName E tr' n a)"
  by (simp add: TraverseDeclarationAsName_def)

lemma deep_NNSKind [simp]: "below (TraverseNNSKind E tr k) (TraverseNNSKind E tr' k)"
  by (cases k) (simp_all add: TraverseNNSKind_def)

lemma deep_NNS [simp]: "below (TraverseNNS E tr n) (TraverseNNS E tr' n)"
  by (induction n) simp_all

lemma deep_NestedNameSpecifier [simp]:
  "below (TraverseNestedNameSpecifier E tr n) (TraverseNestedNameSpecifier E tr' n)"
  by (cases n) (simp_all add: TraverseNestedNameSpecifier_def)

lemma deep_TemplateName [simp]: "below (TraverseTemplateName E tr n) (TraverseTemplateName E tr' n)"
  by (cases n) (simp_all add: TraverseTemplateName_def)

lemma deep_TemplateArgument [simp]: "below (TraverseTemplateArgument E tr a) (TraverseTemplateArgument E tr' a)"
  by (induction a) simp_all

lemma deep_TemplateArgumentLocs [simp]:
  "below (TraverseTemplateArgumentLocs E tr as) (TraverseTemplateArgumentLocs E tr' as)"
  by (simp add: TraverseTemplateArgumentLocs_def)

lemma deep_perform [simp]: "below (perform E tr c) (perform E tr' c)"
  by (cases c) (simp_all add: perform_def)

lemma deep_Default:
  "below_table t u \<Longrightarrow>
   below (TraverseDefault E tr (visit_in root msg t) cs calls) (TraverseDefault E tr' (visit_in root msg u) cs calls)"
  by (simp add: TraverseDefault_def below_walk_up below_visit_in)

lemma deep_ExceptionSpec [simp]: "below (TraverseExceptionSpec tr f) (TraverseExceptionSpec tr' f)"
  unfolding TraverseExceptionSpec_def by (rule below_switch) simp_all

lemma deep_type_methods: "below_table (type_methods E tr a) (type_methods E tr' a)"
  by (simp add: type_methods_def VisitTypedefType_def VisitTagType_def)

lemma deep_type: "below (TraverseTypeNode E tr T) (TraverseTypeNode E tr' T)"
proof (cases T)
  case (TOther classes a calls)
  then show ?thesis by (simp add: TraverseTypeNode_def deep_Default deep_type_methods)
qed (auto simp: TraverseTypeNode_def TraverseFunctionProtoType_def TraverseArrayHelper_def
    TraverseConstantArrayType_def TraverseDependentSizedArrayType_def TraverseVariableArrayType_def
    TraverseIncompleteArrayType_def TraverseSubstTemplateTypeParmType_def
    TraverseInjectedClassNameType_def TraverseAutoType_def
    TraverseDependentTemplateSpecializationType_def TraverseTemplateSpecializationType_def
    split: option.splits)

lemma deep_Type: "below (TraverseType E tr types T) (TraverseType E tr' types T)"
  by (simp add: TraverseType_def deep_type split: option.splits)

end

section \<open>Statements and declarations\<close>

context deeper
begin

lemma deep_stmt_methods: "below_table (stmt_methods E tr a) (stmt_methods E tr' a)"
  unfolding stmt_methods_def stmt_methods1_def stmt_methods2_def
  by (intro below_table_append) (simp_all add: VisitGotoStmt_def VisitLabelStmt_def VisitSizeOfPackExpr_def)

lemma deep_Condition [simp]: "below (TraverseCondition tr v c) (TraverseCondition tr' v c)"
  by (simp add: TraverseCondition_def)

lemma deep_type_or_none [simp]: "below (type_or_none tr T) (type_or_none tr' T)"
  by (simp add: type_or_none_def split: option.splits)

lemma deep_ConstructHelper [simp]:
  "below (TraverseCXXConstructHelper tr T as) (TraverseCXXConstructHelper tr' T as)"
  by (simp add: TraverseCXXConstructHelper_def)

lemma deep_LambdaCapture [simp]: "below (TraverseLambdaCapture tr c) (TraverseLambdaCapture tr' c)"
  by (simp add: TraverseLambdaCapture_def)

lemma deep_CallExpr: "below (TraverseCallExpr tr cs n) (TraverseCallExpr tr' cs n)"
  by (cases cs) (simp_all add: TraverseCallExpr_def)

lemma deep_IncDec [simp]: "below (TraverseIncDec tr post pre as) (TraverseIncDec tr' post pre as)"
  by (simp add: TraverseIncDec_def)

lemma deep_stmt: "below (TraverseStmtNode E tr N) (TraverseStmtNode E tr' N)"
proof (cases N)
  case (SOther classes a calls)
  then show ?thesis by (simp add: TraverseStmtNode_def deep_Default deep_stmt_methods)
next
  case (SOperatorCall oo as)
  then show ?thesis by (simp add: TraverseStmtNode_def TraverseCXXOperatorCallExpr_def)
qed (simp_all add: TraverseStmtNode_def deep_CallExpr TraverseForStmt_def TraverseWhileStmt_def
    TraverseIfStmt_def TraverseSwitchStmt_def TraverseCaseStmt_def TraverseCXXTryStmt_def
    TraverseMemberHelper_def TraverseUnresolvedLookupExpr_def TraverseCXXUnresolvedConstructExpr_def
    TraverseCXXFunctionalCastExpr_def TraverseCXXScalarValueInitExpr_def TraverseCXXConstructExpr_def
    TraverseCXXTemporaryObjectExpr_def TraverseCXXPseudoDestructorExpr_def TraverseCXXNewExpr_def
    TraverseLambdaExpr_def TraverseIntegerLiteral_def TraverseFloatingLiteral_def TraverseInitListExpr_def
    split: prod.splits)

lemma deep_Stmt: "below (TraverseStmt E tr stmts S) (TraverseStmt E tr' stmts S)"
  by (simp add: TraverseStmt_def deep_stmt Let_def split: option.splits)

lemma deep_ConstructorInitializer [simp]:
  "below (TraverseConstructorInitializer E tr i) (TraverseConstructorInitializer E tr' i)"
  by (simp add: TraverseConstructorInitializer_def split: ctor_init_kind.splits)

lemma deep_specialization_type [simp]:
  "list_all2 below (specialization_type E tr si) (specialization_type E tr' si)"
  by (simp add: specialization_type_def split: option.splits)

lemma deep_SpecializationInfo [simp]:
  "below (TraverseSpecializationInfo E tr s) (TraverseSpecializationInfo E tr' s)"
  by (simp add: TraverseSpecializationInfo_def split: option.splits)

lemma deep_MethodType [simp]: "below (TraverseMethodType tr c m) (TraverseMethodType tr' c m)"
  by (simp add: TraverseMethodType_def)

lemma deep_FunctionType [simp]: "below (TraverseFunctionType tr D) (TraverseFunctionType tr' D)"
  by (simp add: TraverseFunctionType_def split: option.splits)

lemma deep_FunctionBody [simp]: "below (TraverseFunctionBody E tr D) (TraverseFunctionBody E tr' D)"
  by (simp add: TraverseFunctionBody_def)

lemma deep_TemplateParameters [simp]:
  "below (TraverseTemplateParameters tr TPL) (TraverseTemplateParameters tr' TPL)"
  by (simp add: TraverseTemplateParameters_def split: option.splits)

lemma deep_TemplateInstantiations [simp]:
  "below (TraverseTemplateInstantiations tr D) (TraverseTemplateInstantiations tr' D)"
  by (simp add: TraverseTemplateInstantiations_def Let_def split: prod.splits)

lemma deep_DeclContextNode [simp]:
  "below (TraverseDeclContextNode tr decls ds) (TraverseDeclContextNode tr' decls ds)"
  by (simp add: TraverseDeclContextNode_def)

lemma deep_Base [simp]: "below (TraverseBase tr b) (TraverseBase tr' b)"
  by (simp add: TraverseBase_def)

lemma deep_RecordHelper [simp]:
  "below (TraverseCXXRecordHelper E tr decls D) (TraverseCXXRecordHelper E tr' decls D)"
  by (simp add: TraverseCXXRecordHelper_def)

lemma deep_decl_methods: "below_table (decl_methods E tr decls a) (decl_methods E tr' decls a)"
  by (simp add: decl_methods_def VisitTypedefDecl_def VisitTypeAliasDecl_def VisitNamespaceDecl_def
      VisitNamespaceAliasDecl_def VisitEnumConstantDecl_def VisitUsingDirectiveDecl_def)

lemma deep_decl: "below (TraverseDeclNode E tr decls N) (TraverseDeclNode E tr' decls N)"
proof (cases N)
  case (DOther classes a calls)
  then show ?thesis by (simp add: TraverseDeclNode_def deep_Default deep_decl_methods)
qed (simp_all add: TraverseDeclNode_def TraverseFunctionHelper_def TraverseVarHelper_def
    TraverseFieldDecl_def TraverseTemplateDecl_def TraverseTemplateTypeParmDecl_def
    TraverseNonTypeTemplateParmDecl_def TraverseTemplateTemplateParmDecl_def TraverseEnumDecl_def
    TraverseClassTemplateSpecializationDecl_def TraverseClassTemplatePartialSpecializationDecl_def
    split: option.splits)

lemma deep_Decl: "below (TraverseDecl E tr decls D) (TraverseDecl E tr' decls D)"
  by (simp add: TraverseDecl_def deep_decl Let_def split: option.splits)

end

end
