(* ===== verification/Visitor.thy ===== *)
theory Visitor
  imports VisitMono
begin

text \<open>
  The visitor as a whole: the recursion of GetKastVisitor.h over a syntax tree given by
  pointers, and the tool of ClangKast.cc that traverses a translation unit and prints the
  nodes it collected. The recursion is bounded by a depth. The count of terms below defines,
  for a depth, which trees are well-formed; it is defined on finite trees, from their height
  on, and from there on neither the count nor the traversal depends on the depth any more.
\<close>

record ast =
  stmts :: "nat \<Rightarrow> stmt"
  decls :: "nat \<Rightarrow> decl"
  types :: "nat \<Rightarrow> ty"

fun traverse :: "nat \<Rightarrow> env \<Rightarrow> ast \<Rightarrow> ref \<Rightarrow> vres" where
  "traverse 0 E A r = Throw OutOfFuel"
| "traverse (Suc k) E A r = (case r of
     RStmt s \<Rightarrow> TraverseStmt E (traverse k E A) (stmts A) s
   | RDecl d \<Rightarrow> TraverseDecl E (traverse k E A) (decls A) d
   | RType T \<Rightarrow> TraverseType E (traverse k E A) (types A) T)"

fun count_terms :: "nat \<Rightarrow> ast \<Rightarrow> ref \<Rightarrow> nat option" where
  "count_terms 0 A r = None"
| "count_terms (Suc k) A r = (case r of
     RStmt None \<Rightarrow> Some 0
   | RStmt (Some p) \<Rightarrow> if ok_stmt_node (count_terms k A) (s_node (stmts A p)) then Some 1 else None
   | RDecl None \<Rightarrow> Some 0
   | RDecl (Some p) \<Rightarrow>
       if excludedDecl (decls A p) then Some 0
       else if ok_decl_node (count_terms k A) (decls A) (d_node (decls A p)) then Some 1 else None
   | RType T \<Rightarrow> (case q_type T of None \<Rightarrow> None
       | Some p \<Rightarrow> if ok_type (count_terms k A) (types A p) then Some 1 else None))"

lemma traverse_counts: "count_terms k A r = Some m \<Longrightarrow> emits (traverse k E A r) m"
proof (induction k arbitrary: r m)
  case 0
  then show ?case by simp
next
  case (Suc k)
  have sub: "sub_traversal (traverse k E A) (count_terms k A)"
    by unfold_locales (rule Suc.IH)
  show ?case
  proof (cases r)
    case (RStmt s)
    with Suc.prems show ?thesis
      by (cases s) (auto simp: TraverseStmt_def [of _ _ _ None] split: if_splits
          intro: sub_traversal.emits_Stmt [OF sub])
  next
    case (RDecl d)
    with Suc.prems sub_traversal.emits_Decl [OF sub, of "decls A" _ E] show ?thesis
      by (cases d) (fastforce simp: TraverseDecl_def [of _ _ _ None] split: if_splits)+
  next
    case (RType T)
    with Suc.prems show ?thesis
      by (auto split: if_splits option.splits intro: sub_traversal.emits_Type [OF sub])
  qed
qed

interpretation visitor: sub_traversal "traverse k E A" "count_terms k A" for k E A
  by unfold_locales (rule traverse_counts)

section \<open>The depth\<close>

lemma count_terms_Suc: "count_terms k A r = Some m \<Longrightarrow> count_terms (Suc k) A r = Some m"
proof (induction k arbitrary: r m)
  case (Suc k)
  have more: "more_counts (count_terms k A) (count_terms (Suc k) A)"
    by unfold_locales (rule Suc.IH)
  from Suc.prems show ?case
    by (auto simp del: count_terms.simps simp: count_terms.simps(2) [of k] count_terms.simps(2) [of "Suc k"]
        split: ref.splits option.splits if_splits
        intro: more_counts.more_stmt_node [OF more] more_counts.more_decl_node [OF more]
          more_counts.more_type [OF more])
qed simp

lemma count_terms_mono: "count_terms k A r = Some m \<Longrightarrow> k \<le> j \<Longrightarrow> count_terms j A r = Some m"
  by (rotate_tac, induction j rule: dec_induct) (simp_all add: count_terms_Suc del: count_terms.simps)

interpretation counts: more_counts "count_terms k A" "count_terms (Suc k) A" for k A
  by unfold_locales (rule count_terms_Suc)

lemma traverse_Suc: "below (traverse k E A r) (traverse (Suc k) E A r)"
proof (induction k arbitrary: r)
  case 0
  then show ?case by (simp add: below_def)
next
  case (Suc k)
  have deep: "deeper (traverse k E A) (traverse (Suc k) E A)"
    by unfold_locales (rule Suc.IH)
  show ?case
    using deeper.deep_Stmt [OF deep, of E "stmts A"] deeper.deep_Decl [OF deep, of E "decls A"]
      deeper.deep_Type [OF deep, of E "types A"]
    by (simp split: ref.splits)
qed

interpretation depths: deeper "traverse k E A" "traverse (Suc k) E A" for k E A
  by unfold_locales (rule traverse_Suc)

lemma traverse_mono:
  assumes "traverse k E A r \<noteq> Throw OutOfFuel" and "k \<le> j"
  shows "traverse j E A r = traverse k E A r"
  using assms(2,1)
proof (induction j rule: dec_induct)
  case (step j)
  with traverse_Suc [of j E A r] show ?case by (simp add: below_def)
qed simp

lemma traverse_depth:
  "count_terms k A r = Some m \<Longrightarrow> k \<le> j \<Longrightarrow> traverse j E A r = traverse k E A r"
  using visitor.sub [of k A r m E] by (intro traverse_mono) (auto simp: opens_def)

lemma traverse_term:
  assumes "count_terms k A r = Some 1" and "traverse k E A r = Ret ns b"
  shows "b \<and> (\<exists>t. wf_term t \<and> flatten t = ns)"
  using visitor.sub [OF assms(1), of E] assms(2) terms_tree [of ns]
  by (simp add: opens_def pending_terms)

section \<open>The tool\<close>

text \<open>
  \<open>HandleTranslationUnit\<close> for each translation unit, in the order of the command line,
  then \<open>Kast::print\<close> and a line end. An exception ends the program.
\<close>

fun collect :: "nat \<Rightarrow> env \<Rightarrow> (ast \<times> nat) list \<Rightarrow> (verr, node list) res" where
  "collect k E [] = Inr []"
| "collect k E ((A, tu) # us) = (case traverse k E A (RDecl (Some tu)) of
     Throw e \<Rightarrow> Inl e
   | Ret ns b \<Rightarrow> bindr (collect k E us) (\<lambda>ms. Inr (ns @ ms)))"

definition clang_kast :: "nat \<Rightarrow> env \<Rightarrow> (ast \<times> nat) list \<Rightarrow> (verr, string) res" where
  "clang_kast k E us = bindr (collect k E us) (\<lambda>ns.
     case kast_print (kore E) ns of
       Inl e \<Rightarrow> Inl (TokenError e)
     | Inr s \<Rightarrow> Inr (s @ [CHR 0x0A]))"

text \<open>
  \<open>main\<close> with the status that clang's \<open>Tool.run\<close> returns: a status other than zero ends the
  program before anything is printed.
\<close>

definition clang_kast_main :: "int \<Rightarrow> nat \<Rightarrow> env \<Rightarrow> (ast \<times> nat) list \<Rightarrow> (verr, int \<times> string) res" where
  "clang_kast_main run k E us = bindr (collect k E us) (\<lambda>ns.
     if run \<noteq> 0 then Inr (run, [])
     else case kast_print (kore E) ns of
       Inl e \<Rightarrow> Inl (TokenError e)
     | Inr s \<Rightarrow> Inr (0, s @ [CHR 0x0A]))"

lemma clang_kast_main_ok: "clang_kast_main 0 k E us = bindr (clang_kast k E us) (\<lambda>s. Inr (0, s))"
  by (auto simp: clang_kast_main_def clang_kast_def bindr_def split: sum.splits)

lemma clang_kast_main_failed:
  "run \<noteq> 0 \<Longrightarrow> clang_kast_main run k E us = bindr (collect k E us) (\<lambda>_. Inr (run, []))"
  by (simp add: clang_kast_main_def)

lemma kast_print_first:
  assumes "wf_term t"
  shows "kast_print kr (flatten t @ ms) = Inr (pp kr K t)"
proof -
  have "kast_print_at (length (flatten t @ ms) + 1) kr (flatten t @ ms) K (length ([] :: node list)) =
      Inr (pp kr K t, length ([] :: node list) + length (flatten t) - 1)"
    by (rule kast_print_at_term [OF assms]) simp_all
  then show ?thesis by (auto simp: kast_print_def simp del: kast_print_at.simps)
qed

text \<open>
  The units on the command line: \<open>unit_term\<close> relates a unit to the term that its traversal
  collects. The traversals of well-formed units collect their terms one after the other, or one
  of them throws.
\<close>

definition wf_units :: "nat \<Rightarrow> (ast \<times> nat) list \<Rightarrow> bool" where
  "wf_units k us \<longleftrightarrow> (\<forall>(A, tu)\<in>set us. count_terms k A (RDecl (Some tu)) = Some 1)"

definition unit_term :: "nat \<Rightarrow> env \<Rightarrow> ast \<times> nat \<Rightarrow> kterm \<Rightarrow> bool" where
  "unit_term k E u t \<longleftrightarrow> wf_term t \<and> traverse k E (fst u) (RDecl (Some (snd u))) = Ret (flatten t) True"

definition unit_throws :: "nat \<Rightarrow> env \<Rightarrow> (ast \<times> nat) list \<Rightarrow> verr \<Rightarrow> bool" where
  "unit_throws k E us e \<longleftrightarrow> raised e \<and> (\<exists>(A, tu)\<in>set us. traverse k E A (RDecl (Some tu)) = Throw e)"

lemma wf_units_simps [simp]:
  "wf_units k []"
  "wf_units k ((A, tu) # us) \<longleftrightarrow> count_terms k A (RDecl (Some tu)) = Some 1 \<and> wf_units k us"
  by (auto simp: wf_units_def)

lemma collect_units:
  "wf_units k us \<Longrightarrow> (\<exists>e. collect k E us = Inl e \<and> unit_throws k E us e) \<or>
    (\<exists>ts. list_all2 (unit_term k E) us ts \<and> collect k E us = Inr (concat (map flatten ts)))"
proof (induction us)
  case (Cons u us)
  obtain A tu where u: "u = (A, tu)" by fastforce
  with Cons.prems have wf: "count_terms k A (RDecl (Some tu)) = Some 1" and "wf_units k us" by simp_all
  from Cons.IH [OF this(2)] have IH: "(\<exists>e. collect k E us = Inl e \<and> unit_throws k E (u # us) e) \<or>
      (\<exists>ts. list_all2 (unit_term k E) us ts \<and> collect k E us = Inr (concat (map flatten ts)))"
    by (auto simp: unit_throws_def)
  show ?case
  proof (cases "traverse k E A (RDecl (Some tu))")
    case (Throw e)
    with visitor.sub [OF wf, of E] show ?thesis by (auto simp: u opens_def unit_throws_def)
  next
    case (Ret ns b)
    from traverse_term [OF wf Ret] obtain t where "b" "wf_term t" "flatten t = ns" by blast
    with Ret have "unit_term k E u t" by (simp add: unit_term_def u)
    then have "list_all2 (unit_term k E) (u # us) (t # ts)" if "list_all2 (unit_term k E) us ts" for ts
      using that by simp
    moreover have "collect k E (u # us) = bindr (collect k E us) (\<lambda>ms. Inr (flatten t @ ms))"
      using Ret \<open>flatten t = ns\<close> by (simp add: u)
    ultimately show ?thesis using IH by (elim disjE exE conjE) force+
  qed
qed simp

lemma collect_depth: "wf_units k us \<Longrightarrow> k \<le> j \<Longrightarrow> collect j E us = collect k E us"
proof (induction us)
  case (Cons u us)
  obtain A tu where u: "u = (A, tu)" by fastforce
  with Cons.prems have "traverse j E A (RDecl (Some tu)) = traverse k E A (RDecl (Some tu))"
    by (intro traverse_depth [where m = 1]) simp_all
  with Cons u show ?case by (cases "traverse k E A (RDecl (Some tu))") simp_all
qed simp

section \<open>Unsupported nodes\<close>

lemma walk_up_unsupported:
  "\<forall>c\<in>set cs. c \<noteq> root \<and> map_of tbl c = None \<Longrightarrow>
   walk_up (visit_in root msg tbl) (cs @ root # ds) = throw msg"
proof (induction cs)
  case Nil
  then show ?case by (simp add: visit_in_def throw_def)
next
  case (Cons c cs)
  then have "visit_in root msg tbl c = skip" by (simp add: visit_in_def switch_def)
  with Cons show ?case by (simp add: throw_def del: walk_up.simps)
qed


section \<open>Trees on which the code adds too many terms\<close>

lemma calls_args: "\<forall>b\<in>set bs. ok_targ cnt b \<Longrightarrow> calls_count cnt (map CArg bs) = Some (length bs)"
  by (induction bs) (simp_all add: call_count_def)

lemma name_methods:
  assumes "c = ''DeclRefExpr'' \<or> c = ''DependentScopeDeclRefExpr''"
  shows "map_of (stmt_methods E tr a) c = Some (handled [Name])"
  using assms by (elim disjE) (simp_all add: stmt_methods_def stmt_methods1_def VisitDeclRefExpr_def
      VisitDependentScopeDeclRefExpr_def del: return_false.simps)

lemma reference_surplus:
  assumes "c = ''DeclRefExpr'' \<or> c = ''DependentScopeDeclRefExpr''"
    and "ok_qualifier (count_terms k A) q" and "ok_name (count_terms k A) n"
    and "\<forall>b\<in>set bs. ok_targ (count_terms k A) b"
  shows "emits (TraverseStmtNode E (traverse k E A) (SOther (c # cs) a (CNns q # CName n # map CArg bs)))
    (Suc (length bs))"
proof -
  have "calls_count (count_terms k A) (CNns q # CName n # map CArg bs) = Some (2 + length bs)"
    using assms(2,3) calls_args [OF assms(4)] by (simp add: call_count_def)
  moreover have "leaves (handled [Name]) 2" by (simp add: Name_def)
  moreover have "c \<noteq> ''Stmt''" using assms(1) by auto
  ultimately show ?thesis
    using visitor.emits_Default_surplus [OF _ name_methods [OF assms(1)]] by (simp add: TraverseStmtNode_def)
qed

lemma emits_exact:
  "emits (traverse k E A r) m \<longleftrightarrow>
    (\<exists>e. traverse k E A r = Throw e \<and> raised e) \<or> (\<exists>ns. traverse k E A r = Ret ns True \<and> terms m ns)"
  by (cases "traverse k E A r") (auto simp: opens_def pending_terms)

section \<open>Properties\<close>

text \<open>
  The tree of the translation unit \<open>int x = 1;\<close>, the example of this section: declaration
  0 is the unit, declaration 1 the variable, type 0 its type, statement 0 its initializer.
\<close>

definition demo_env :: env where
  "demo_env = \<lparr>kore = True, InFile = ''a.cpp'', oo_spelling = Map.empty\<rparr>"

definition demo_unit :: decl where
  "demo_unit = \<lparr>d_implicit = False, d_outside = False, d_loc = None, d_node = DOther [''TranslationUnitDecl'', ''Decl'']
     \<lparr>d_name = NameOther, d_language = '''', d_braces = False, d_inline = False, d_namespace = NameOther,
      d_namespaceAddr = 0, d_qualifier = None, d_decls = [1], d_access = AS_none, d_hasInit = False,
      d_typename = False\<rparr> [CRef (RDecl (Some 1))]\<rparr>"

definition demo_var :: decl where
  "demo_var = \<lparr>d_implicit = False, d_outside = False, d_loc = None, d_node = DVar
     \<lparr>vd_storageClass = ''SC_None'', vd_tscSpec = ''TSCS_unspecified'', vd_constexpr = False, vd_maxAlign = 0,
      vd_qualifier = None, vd_name = NameIdentifier (Some ''x''),
      vd_mangling = \<lparr>hasLinkage = True, m_isCtor = False, m_isDtor = False, mangleCXXCtor = '''',
        mangleCXXDtor = '''', mangleName = ''x''\<rparr>,
      vd_type = plain 0, vd_init = Some 0, vd_directInit = False\<rparr>\<rparr>"

definition demo_int :: ty where
  "demo_int = TOther [''BuiltinType'', ''Type'']
     \<lparr>t_kind = ''Int'', t_declName = NameOther, t_declAddr = 0, t_keyword = '''', t_qualified = False,
      t_identifier = None, t_sugared = False\<rparr> []"

definition demo_one :: stmt where
  "demo_one = \<lparr>s_isExpr = True, s_isDefaultArg = False, s_loc = None, s_node = SIntegerLiteral 1 (plain 0)\<rparr>"

definition demo_ast :: ast where
  "demo_ast = \<lparr>stmts = (\<lambda>_. demo_one), decls = (\<lambda>p. if p = 0 then demo_unit else demo_var), types = (\<lambda>_. demo_int)\<rparr>"

lemma demo_count: "count_terms 5 demo_ast (RDecl (Some 0)) = Some 1"
  by code_simp

definition demo_nodes :: "node list" where
  "demo_nodes =
    [KApply ''DeclLoc'' DECL [CABSLOC, DECL], KApply ''UnknownCabsLoc_COMMON-SYNTAX'' CABSLOC [],
     KApply ''TranslationUnit'' DECL [STRING, LIST], KToken (toKString_string True ''a.cpp'') STRING,
     KApply ''kSeqToList'' LIST [K], KSequence 1,
     KApply ''DeclLoc'' DECL [CABSLOC, DECL], KApply ''UnknownCabsLoc_COMMON-SYNTAX'' CABSLOC [],
     KApply ''VarDecl'' DECLARATOR [NNS, CID, CID, ATYPE, INIT, BOOL], KApply ''NoNNS'' NNS [],
     KApply ''Identifier'' CID [STRING], KToken (toKString_string True ''x'') STRING,
     KApply ''Identifier'' CID [STRING], KToken (toKString_string True ''x'') STRING,
     KApply ''BuiltinType'' ATYPE [TYPESPECIFIER], KApply ''Int'' TYPESPECIFIER [],
     KApply ''ExprLoc'' EXPRLOC [CABSLOC, KITEM], KApply ''UnknownCabsLoc_COMMON-SYNTAX'' CABSLOC [],
     KApply ''IntegerLiteral'' EXPR [INT', ATYPE], KToken ''1'' INT',
     KApply ''BuiltinType'' ATYPE [TYPESPECIFIER], KApply ''Int'' TYPESPECIFIER [], KToken ''false'' BOOL]"

lemma demo_traverse: "traverse 5 demo_env demo_ast (RDecl (Some 0)) = Ret demo_nodes True"
  by code_simp

lemma demo_kore: "kore demo_env = True"
  by (simp add: demo_env_def)

lemma demo_print: "\<not> isl (kast_print True demo_nodes)"
  by code_simp

text \<open>
  C1: the tool (\<open>main\<close> of ClangKast.cc with the visitor of GetKastVisitor.h) on one or
  more well-formed translation units either prints exactly one term and a line end, or ends with
  an exception that the traversal of one of the units threw: a \<open>logic_error\<close> of the visitor,
  or a number too long for the buffer of \<open>toKString\<close>; the printer itself never fails. When it
  prints, the nodes that each traversal collected are, in preorder, those of one complete term,
  every label with as many children as it has sorts, and the term of the first unit is what is
  printed. The outcome is the same at every depth from the one on at which the units are
  well-formed.
\<close>

theorem clang_kast_one_term:
  assumes "wf_units k us" and "us \<noteq> []" and "k \<le> j"
  shows "clang_kast j E us = clang_kast k E us \<and>
    ((\<exists>e. clang_kast k E us = Inl e \<and> unit_throws k E us e) \<or>
     (\<exists>ts. list_all2 (unit_term k E) us ts \<and>
        clang_kast k E us = Inr (pp (kore E) K (hd ts) @ [CHR 0x0A])))"
proof -
  have "clang_kast k E us = Inr (pp (kore E) K (hd ts) @ [CHR 0x0A])"
    if "list_all2 (unit_term k E) us ts" "collect k E us = Inr (concat (map flatten ts))" for ts
  proof -
    from that(1) assms(2) obtain t ts' where "ts = t # ts'" "wf_term t"
      by (cases us; cases ts) (auto simp: unit_term_def)
    with that(2) kast_print_first [of t "kore E"] show ?thesis by (simp add: clang_kast_def)
  qed
  with collect_units [OF assms(1), of E] collect_depth [OF assms(1,3), of E] show ?thesis
    by (auto simp: clang_kast_def)
qed

theorem clang_kast_one_term_witness:
  "\<exists>t. wf_term t \<and> flatten t = demo_nodes \<and>
     clang_kast 9 demo_env [(demo_ast, 0), (demo_ast, 0)] = Inr (pp True K t @ [CHR 0x0A])"
proof -
  have "wf_units 5 [(demo_ast, 0), (demo_ast, 0)]" using demo_count by simp
  from clang_kast_one_term [OF this, of 9 demo_env] show ?thesis
    by (auto simp: unit_throws_def unit_term_def list_all2_Cons1 demo_traverse demo_kore)
qed

text \<open>
  C2: the traversal of any statement, declaration or type whose tree is well-formed returns
  true and adds exactly as many complete terms as the parent has to count for it: one, or none
  for an absent statement and for an excluded declaration; or it throws one of the errors that
  the code raises, and never for want of depth.
\<close>

theorem traverse_exact:
  assumes "count_terms k A r = Some m"
  shows "(\<exists>e. traverse k E A r = Throw e \<and> raised e \<and> e \<noteq> OutOfFuel) \<or>
    (\<exists>ns. traverse k E A r = Ret ns True \<and> terms m ns)"
  using visitor.sub [OF assms, of E] by (cases "traverse k E A r") (auto simp: opens_def pending_terms)

theorem traverse_exact_witness:
  "traverse 5 demo_env demo_ast (RDecl (Some 0)) = Ret demo_nodes True \<and> terms 1 demo_nodes"
  using traverse_exact [OF demo_count, of demo_env] by (simp add: demo_traverse)

text \<open>
  C40: two kinds of trees of valid programs on which the visitor adds more terms than the parent
  counts, so that the output is not the tree's. A reference with explicit template arguments, a
  \<open>DeclRefExpr\<close> or \<open>DependentScopeDeclRefExpr\<close> for which clang's traversal calls for the
  qualifier, the name and each argument, becomes one term for the name and one more for every
  argument. A function that is explicitly defaulted and has a body, as clang makes one when the
  function is used, becomes the definition with that body and a further term \<open>Defaulted\<close>, if
  without the body it becomes one term. Otherwise the traversals throw.
\<close>

theorem surplus_terms:
  "(s_node (stmts A p) = SOther (c # cs) a (CNns q # CName n # map CArg bs) \<and>
    (c = ''DeclRefExpr'' \<or> c = ''DependentScopeDeclRefExpr'') \<and>
    ok_qualifier (count_terms k A) q \<and> ok_name (count_terms k A) n \<and>
    (\<forall>b\<in>set bs. ok_targ (count_terms k A) b) \<longrightarrow>
      (\<exists>e. traverse (Suc k) E A (RStmt (Some p)) = Throw e \<and> raised e) \<or>
      (\<exists>ns. traverse (Suc k) E A (RStmt (Some p)) = Ret ns True \<and> terms (1 + length bs) ns)) \<and>
   (d_node (decls A d) = DFunction D \<and> \<not> excludedDecl (decls A d) \<and>
    ok_function (count_terms k A) (D\<lparr>fd_body := None\<rparr>) \<and> fd_definition D \<and> fd_defaulted D \<and>
    count_terms k A (RStmt (fd_body D)) = Some 1 \<longrightarrow>
      (\<exists>e. traverse (Suc k) E A (RDecl (Some d)) = Throw e \<and> raised e) \<or>
      (\<exists>ns. traverse (Suc k) E A (RDecl (Some d)) = Ret ns True \<and> terms 2 ns))"
  unfolding emits_exact [symmetric]
proof (intro conjI impI; elim conjE)
  assume node: "s_node (stmts A p) = SOther (c # cs) a (CNns q # CName n # map CArg bs)"
    and "c = ''DeclRefExpr'' \<or> c = ''DependentScopeDeclRefExpr''"
    "ok_qualifier (count_terms k A) q" "ok_name (count_terms k A) n" "\<forall>b\<in>set bs. ok_targ (count_terms k A) b"
  from reference_surplus [OF this(2-5)] show "emits (traverse (Suc k) E A (RStmt (Some p))) (1 + length bs)"
    by (simp add: TraverseStmt_def Let_def node opens_single)
next
  assume node: "d_node (decls A d) = DFunction D" and inside: "\<not> excludedDecl (decls A d)"
    and "ok_function (count_terms k A) (D\<lparr>fd_body := None\<rparr>)" "fd_definition D" "fd_defaulted D"
    and "count_terms k A (RStmt (fd_body D)) = Some 1"
  then have "emits (TraverseDeclNode E (traverse k E A) (decls A) (d_node (decls A d))) (Suc (Suc 0))"
    using visitor.defaulted_with_body by (simp add: TraverseDeclNode_def)
  with inside show "emits (traverse (Suc k) E A (RDecl (Some d))) 2"
    by (simp add: TraverseDecl_def Let_def opens_single numeral_2_eq_2)
qed

text \<open>
  An example of both: statement 0 is the reference \<open>f<int>\<close>, declaration 0 the destructor of
  \<open>struct S { ~S() = default; };\<close> with the body, statement 1, that clang gives it when it is
  used.
\<close>

definition demo_attrs :: stmt_attrs where
  "demo_attrs = \<lparr>s_numDecls = 0, s_name = NameOther, s_hasValue = False, s_numChildren = 0, s_kind = [],
     s_argumentType = False, s_global = False, s_arrayForm = False, s_bytes = [], s_charValue = 0,
     s_boolValue = False, s_numArgs = 0\<rparr>"

definition demo_type :: "string list \<Rightarrow> string \<Rightarrow> dname \<Rightarrow> call list \<Rightarrow> ty" where
  "demo_type classes kind n calls = TOther classes
     \<lparr>t_kind = kind, t_declName = n, t_declAddr = 0, t_keyword = [], t_qualified = False,
      t_identifier = None, t_sugared = False\<rparr> calls"

definition demo_ref :: stmt where
  "demo_ref = \<lparr>s_isExpr = True, s_isDefaultArg = False, s_loc = None, s_node =
     SOther [''DeclRefExpr'', ''Expr'', ''Stmt''] demo_attrs
       [CNns None, CName (NameIdentifier (Some ''f'')), CArg (ArgType (plain 0))]\<rparr>"

definition demo_body :: stmt where
  "demo_body = \<lparr>s_isExpr = False, s_isDefaultArg = False, s_loc = None, s_node =
     SOther [''CompoundStmt'', ''Stmt''] demo_attrs []\<rparr>"

definition demo_dtor :: function_decl where
  "demo_dtor = \<lparr>fd_specialization = None, fd_storageClass = ''SC_None'', fd_inline = False, fd_constexpr = False,
     fd_definition = True, fd_defaulted = True, fd_deleted = False, fd_qualifier = None,
     fd_name = NameDestructor (plain 2),
     fd_mangling = \<lparr>hasLinkage = True, m_isCtor = False, m_isDtor = True, mangleCXXCtor = [],
       mangleCXXDtor = ''_ZN1SD1Ev'', mangleName = []\<rparr>,
     fd_typeSourceInfo = True,
     fd_method = Some \<lparr>mt_instance = True, mt_refQualifier = ''RQ_None'', mt_userProvided = False,
       mt_thisType = plain 3, mt_virtual = False, mt_pure = False, mt_explicitConversion = False,
       mt_explicitCtor = False\<rparr>,
     fd_isCtor = False, fd_inits = [], fd_type = plain 1, fd_params = [], fd_body = Some 1\<rparr>"

definition demo_surplus :: ast where
  "demo_surplus = \<lparr>stmts = (\<lambda>p. if p = 0 then demo_ref else demo_body),
     decls = (\<lambda>_. \<lparr>d_implicit = False, d_outside = False, d_loc = None, d_node = DFunction demo_dtor\<rparr>),
     types = (\<lambda>p.
       if p = 0 then demo_type [''BuiltinType'', ''Type''] ''Int'' NameOther []
       else if p = 1 then TFunctionProto \<lparr>fp_return = plain 0, fp_params = [], fp_exceptionSpec = ''EST_None'',
         fp_noexcept = None, fp_exceptions = [], fp_variadic = False\<rparr>
       else if p = 2 then demo_type [''RecordType'', ''TagType'', ''Type''] [] (NameIdentifier (Some ''S'')) []
       else demo_type [''PointerType'', ''Type''] [] NameOther [CRef (RType (plain 2))])\<rparr>"

fun is_ret :: "vres \<Rightarrow> bool" where
  "is_ret (Ret ns b) = True"
| "is_ret (Throw e) = False"

lemma demo_surplus_facts:
  "ok_targ (count_terms 3 demo_surplus) (ArgType (plain 0))"
  "ok_function (count_terms 3 demo_surplus) (demo_dtor\<lparr>fd_body := None\<rparr>)"
  "count_terms 3 demo_surplus (RStmt (fd_body demo_dtor)) = Some 1"
  "is_ret (traverse 4 demo_env demo_surplus (RStmt (Some 0)))"
  "is_ret (traverse 4 demo_env demo_surplus (RDecl (Some 0)))"
  by code_simp+

theorem surplus_terms_witness:
  "(\<exists>ns. traverse 4 demo_env demo_surplus (RStmt (Some 0)) = Ret ns True \<and> terms 2 ns) \<and>
   (\<exists>ns. traverse 4 demo_env demo_surplus (RDecl (Some 0)) = Ret ns True \<and> terms 2 ns)"
proof -
  have ref: "s_node (stmts demo_surplus 0) = SOther (''DeclRefExpr'' # [''Expr'', ''Stmt'']) demo_attrs
      (CNns None # CName (NameIdentifier (Some ''f'')) # map CArg [ArgType (plain 0)])"
    by (simp add: demo_surplus_def demo_ref_def)
  have fn: "d_node (decls demo_surplus 0) = DFunction demo_dtor" "\<not> excludedDecl (decls demo_surplus 0)"
    "fd_definition demo_dtor" "fd_defaulted demo_dtor"
    by (simp_all add: demo_surplus_def excludedDecl_def demo_dtor_def)
  have four: "Suc 3 = 4" and two: "1 + length [ArgType (plain 0)] = 2" by simp_all
  note surplus = surplus_terms [of demo_surplus 0 "''DeclRefExpr''" "[''Expr'', ''Stmt'']" demo_attrs None
      "NameIdentifier (Some ''f'')" "[ArgType (plain 0)]" 3 demo_env 0 demo_dtor, unfolded four two]
  have "(\<exists>e. r = Throw e \<and> raised e) \<or> (\<exists>ns. r = Ret ns True \<and> terms m ns) \<Longrightarrow> is_ret r \<Longrightarrow>
      \<exists>ns. r = Ret ns True \<and> terms m ns" for r m by auto
  note ret = this [OF _ demo_surplus_facts(4)] this [OF _ demo_surplus_facts(5)]
  show ?thesis
    using surplus ref fn demo_surplus_facts(1-3)
    by (intro conjI ret) (simp_all add: ok_qualifier_def del: traverse.simps count_terms.simps)
qed

text \<open>
  A statement of a class for which the visitor has no method, and none for its bases,
  makes the traversal throw; it is never left out of the output silently.
\<close>

lemma unsupported_stmt_throws:
  assumes "\<forall>c\<in>set cs. c \<noteq> ''Stmt'' \<and> map_of (stmt_methods E tr a) c = None"
  shows "TraverseStmtNode E tr (SOther (cs @ ''Stmt'' # ds) a calls) = throw ''unimplemented stmt''"
  using walk_up_unsupported [OF assms] by (simp add: TraverseStmtNode_def TraverseDefault_def)

end
