(* ===== verification/CallSites.thy ===== *)
theory CallSites
  imports KastPrint
begin

text \<open>
  The tool src/clang-tools/CallSites/CallSites.cc: for every call in a translation unit it
  prints one line that describes the types of the call, and for every use of a name with
  external linkage a line with the name. The driver sorts the lines, drops duplicates and makes
  one trampoline for the native server from each, so two calls must have the same line exactly
  when they pass the same kinds of values.

  clang's types are trees here: the tool stops at pointers, arrays and functions, and a type
  has finitely many nodes above them. What a method writes is kept with the exception that
  ended it, if any, because the text written before stays written.
\<close>

section \<open>Types\<close>

datatype record_kind = IsStruct | IsUnion | IsClass

text \<open>
  The types by their class, with what the tool reads: the kind of a builtin type, the element,
  value or underlying type (of an enumeration the promotion type, which an incomplete one lacks),
  the fields of a record. Any other type is \<open>OtherType\<close>.
\<close>

datatype ctype =
    ConstantArrayType
  | IncompleteArrayType
  | VariableArrayType
  | FunctionNoProtoType
  | FunctionProtoType
  | PointerType
  | DecayedType
  | BuiltinType string
  | ComplexType ctype
  | AtomicType ctype
  | EnumType "ctype option"
  | ElaboratedType ctype
  | TypedefType ctype
  | RecordType record_kind "ctype list"
  | OtherType

section \<open>Output\<close>

datatype cs_error =
    CsLogicError string
  | NullType

type_synonym written = "string \<times> cs_error option"

definition outs :: "string \<Rightarrow> written" where
  "outs s = (s, None)"

definition raise :: "cs_error \<Rightarrow> written" where
  "raise e = ('''', Some e)"

definition andthen :: "written \<Rightarrow> written \<Rightarrow> written" where
  "andthen a b = (case snd a of Some e \<Rightarrow> a | None \<Rightarrow> (fst a @ fst b, snd b))"

fun in_order :: "written list \<Rightarrow> written" where
  "in_order [] = outs ''''"
| "in_order (a # as) = andthen a (in_order as)"

section \<open>ProcessTypeVisitor\<close>

definition builtin_codes :: "string \<Rightarrow> (string \<times> string) list" where
  "builtin_codes char_type =
    [(''Void'', ''v''), (''SChar'', ''sc''), (''Char_S'', char_type), (''Char_U'', char_type),
     (''Bool'', ''b''), (''UChar'', ''uc''), (''UShort'', ''us''), (''UInt'', ''ui''), (''ULong'', ''ul''),
     (''ULongLong'', ''ull''), (''Short'', ''ss''), (''Int'', ''si''), (''Long'', ''sl''),
     (''LongLong'', ''ll''), (''Float'', ''f''), (''Double'', ''d''), (''LongDouble'', ''ld'')]"

definition VisitBuiltin :: "string \<Rightarrow> string \<Rightarrow> written" where
  "VisitBuiltin char_type kind = (case map_of (builtin_codes char_type) kind of
     Some code \<Rightarrow> outs (code @ ''_'')
   | None \<Rightarrow> raise (CsLogicError ''unimplemented: basic type''))"

text \<open>\<open>processRecord\<close>, with what each field writes.\<close>

definition processRecord :: "record_kind \<Rightarrow> written list \<Rightarrow> written" where
  "processRecord k fs = andthen
     (case k of IsStruct \<Rightarrow> outs ''s'' | IsUnion \<Rightarrow> outs ''u''
      | IsClass \<Rightarrow> raise (CsLogicError ''unimplemented: record type''))
     (andthen (outs (show_nat (length fs) @ ''_'')) (in_order fs))"

text \<open>
  The visitor on a type. Where the code discards the result of a traversal, an exception still
  passes; a class without a method reaches \<open>VisitType\<close>.
\<close>

fun processType :: "string \<Rightarrow> ctype \<Rightarrow> written" where
  "processType ct ConstantArrayType = outs ''p_''"
| "processType ct IncompleteArrayType = outs ''p_''"
| "processType ct VariableArrayType = outs ''p_''"
| "processType ct FunctionNoProtoType = outs ''p_''"
| "processType ct FunctionProtoType = outs ''p_''"
| "processType ct PointerType = outs ''p_''"
| "processType ct DecayedType = outs ''p_''"
| "processType ct (BuiltinType kind) = VisitBuiltin ct kind"
| "processType ct (ComplexType T) = andthen (outs ''c'') (processType ct T)"
| "processType ct (AtomicType T) = andthen (outs ''a_'') (processType ct T)"
| "processType ct (EnumType (Some T)) = processType ct T"
| "processType ct (EnumType None) = outs ''''"
| "processType ct (ElaboratedType T) = processType ct T"
| "processType ct (TypedefType T) = processType ct T"
| "processType ct (RecordType k fs) = processRecord k (map (processType ct) fs)"
| "processType ct OtherType = raise (CsLogicError ''unsupported type'')"

section \<open>GetCallSitesVisitor\<close>

datatype function_type =
    NoProto ctype
  | Proto ctype nat bool

text \<open>
  A call: the function type that the callee points to, if it points to one, and the types of the
  arguments. Without a function type the code dereferences a null pointer.
\<close>

record call_expr =
  ce_function :: "function_type option"
  ce_args :: "ctype list"

text \<open>
  Without a function type the code calls a method through the null pointer that the cast gave
  (CallSites.cc:234-235); that is the error \<open>NullType\<close> here, no exception of the program.
\<close>

definition VisitCallExpr :: "string \<Rightarrow> call_expr \<Rightarrow> written" where
  "VisitCallExpr ct E = (case ce_function E of
     None \<Rightarrow> raise NullType
   | Some (Proto ret nparams variadic) \<Rightarrow> in_order
       ([processType ct ret] @ map (processType ct) (ce_args E) @
        [outs (show_nat nparams @ ''_'' @ (if variadic then ''v'' else ''f'') @ [CHR 0x0A])])
   | Some (NoProto ret) \<Rightarrow> in_order
       ([processType ct ret] @ map (processType ct) (ce_args E) @
        [outs (show_nat (length (ce_args E)) @ ''_f'' @ [CHR 0x0A])]))"

definition VisitNameRef :: "bool \<Rightarrow> string \<Rightarrow> written" where
  "VisitNameRef externalLinkage name =
     (if externalLinkage then outs ([CHR 0x09] @ name @ [CHR 0x0A]) else outs '''')"

text \<open>
  The calls and name references of a translation unit, in the order in which clang's traversal
  visits them.
\<close>

datatype visit = VCall call_expr | VNameRef bool string

fun visit_output :: "string \<Rightarrow> visit \<Rightarrow> written" where
  "visit_output ct (VCall E) = VisitCallExpr ct E"
| "visit_output ct (VNameRef l n) = VisitNameRef l n"

definition call_sites :: "string \<Rightarrow> visit list \<Rightarrow> written" where
  "call_sites char_type vs = in_order (map (visit_output char_type) vs)"

section \<open>What a line stands for\<close>

text \<open>
  The kinds of values that the lines tell apart: a pointer, a builtin type by its code, a complex
  or atomic type, a structure or union with its fields.
\<close>

datatype desc =
    DPointer
  | DBuiltin string
  | DComplex desc
  | DAtomic desc
  | DRecord bool "desc list"

definition codes :: "string list" where
  "codes = [''v'', ''sc'', ''b'', ''uc'', ''us'', ''ui'', ''ul'', ''ull'', ''ss'', ''si'', ''sl'', ''ll'', ''f'',
     ''d'', ''ld'']"

fun wf_desc :: "desc \<Rightarrow> bool" where
  "wf_desc DPointer \<longleftrightarrow> True"
| "wf_desc (DBuiltin c) \<longleftrightarrow> c \<in> set codes"
| "wf_desc (DComplex d) \<longleftrightarrow> wf_desc d"
| "wf_desc (DAtomic d) \<longleftrightarrow> wf_desc d"
| "wf_desc (DRecord s ds) \<longleftrightarrow> (\<forall>d\<in>set ds. wf_desc d)"

fun desc_text :: "desc \<Rightarrow> string" where
  "desc_text DPointer = ''p_''"
| "desc_text (DBuiltin c) = c @ ''_''"
| "desc_text (DComplex d) = ''c'' @ desc_text d"
| "desc_text (DAtomic d) = ''a_'' @ desc_text d"
| "desc_text (DRecord s ds) =
     (if s then ''s'' else ''u'') @ show_nat (length ds) @ ''_'' @ concat (map desc_text ds)"

text \<open>The kind of value of a type; \<open>None\<close> for a type the tool does not support.\<close>

fun all_some :: "'a option list \<Rightarrow> 'a list option" where
  "all_some [] = Some []"
| "all_some (x # xs) = (case x of None \<Rightarrow> None | Some a \<Rightarrow> map_option ((#) a) (all_some xs))"

fun desc_of :: "string \<Rightarrow> ctype \<Rightarrow> desc option" where
  "desc_of ct (BuiltinType kind) = map_option DBuiltin (map_of (builtin_codes ct) kind)"
| "desc_of ct (ComplexType T) = map_option DComplex (desc_of ct T)"
| "desc_of ct (AtomicType T) = map_option DAtomic (desc_of ct T)"
| "desc_of ct (EnumType (Some T)) = desc_of ct T"
| "desc_of ct (EnumType None) = None"
| "desc_of ct (ElaboratedType T) = desc_of ct T"
| "desc_of ct (TypedefType T) = desc_of ct T"
| "desc_of ct (RecordType k fs) = (case k of
     IsClass \<Rightarrow> None
   | _ \<Rightarrow> map_option (DRecord (k = IsStruct)) (all_some (map (desc_of ct) fs)))"
| "desc_of ct OtherType = None"
| "desc_of ct _ = Some DPointer"

lemma andthen_outs [simp]: "andthen (outs a) (outs b) = outs (a @ b)"
  by (simp add: andthen_def outs_def)

lemma andthen_nothing [simp]: "andthen a (outs []) = a"
  by (cases a) (simp add: andthen_def outs_def split: option.split)

lemma andthen_raise [simp]: "andthen (raise e) b = raise e"
  by (simp add: andthen_def raise_def)

lemma in_order_outs [simp]: "in_order (map (\<lambda>x. outs (f x)) xs) = outs (concat (map f xs))"
  by (induction xs) simp_all

lemma in_order_append: "in_order (xs @ ys) = andthen (in_order xs) (in_order ys)"
  by (induction xs) (auto simp: andthen_def outs_def split: option.splits)

lemma all_some_Some: "all_some xs = Some ys \<longleftrightarrow> xs = map Some ys"
  by (induction xs arbitrary: ys) (auto split: option.splits)

lemma map_eq_outs: "map f xs = map (\<lambda>d. outs (g d)) ds \<Longrightarrow> in_order (map f xs) = outs (concat (map g ds))"
  by simp

lemma processType_desc: "desc_of ct T = Some d \<Longrightarrow> processType ct T = outs (desc_text d)"
proof (induction ct T arbitrary: d rule: processType.induct)
  case (8 ct kind)
  then show ?case by (auto simp: VisitBuiltin_def)
next
  case (15 ct k fs)
  then obtain ds where ds: "map (desc_of ct) fs = map Some ds" and k: "k \<noteq> IsClass"
    and d: "d = DRecord (k = IsStruct) ds"
    by (cases k) (auto simp: all_some_Some)
  have len: "length fs = length ds" using arg_cong [OF ds, of length] by simp
  have "processType ct (fs ! i) = outs (desc_text (ds ! i))" if "i < length ds" for i
    using "15.IH" [of "fs ! i" "ds ! i"] arg_cong [OF ds, of "\<lambda>xs. xs ! i"] that len by simp
  then have "map (processType ct) fs = map (\<lambda>d. outs (desc_text d)) ds"
    using len by (auto intro: nth_equalityI)
  from map_eq_outs [OF this] show ?case
    using k len by (cases k) (simp_all add: d processRecord_def)
qed auto

lemma builtin_code:
  "char_type \<in> {''sc'', ''uc''} \<Longrightarrow> map_of (builtin_codes char_type) k = Some c \<Longrightarrow> c \<in> set codes"
  by (auto simp: builtin_codes_def codes_def split: if_splits)

lemma desc_of_wf: "ct \<in> {''sc'', ''uc''} \<Longrightarrow> desc_of ct T = Some d \<Longrightarrow> wf_desc d"
proof (induction ct T arbitrary: d rule: processType.induct)
  case (8 ct kind)
  then show ?case using builtin_code [of ct kind] by auto
next
  case (15 ct k fs)
  then obtain ds where ds: "map (desc_of ct) fs = map Some ds" and d: "d = DRecord (k = IsStruct) ds"
    by (cases k) (auto simp: all_some_Some)
  have "wf_desc e" if "e \<in> set ds" for e
  proof -
    have "Some e \<in> set (map (desc_of ct) fs)" unfolding ds using that by simp
    then obtain T where "T \<in> set fs" "desc_of ct T = Some e" by auto
    with "15.IH" "15.prems"(1) show ?thesis by blast
  qed
  then show ?case by (simp add: d)
qed auto

section \<open>Reading a line back\<close>

text \<open>The text up to the next underscore, and what follows it.\<close>

definition token :: "string \<Rightarrow> string \<times> string" where
  "token s = (let t = takeWhile (\<lambda>c. c \<noteq> CHR ''_'') s in (t, drop (Suc (length t)) s))"

fun read_desc :: "nat \<Rightarrow> string \<Rightarrow> (desc \<times> string) option"
  and read_descs :: "nat \<Rightarrow> nat \<Rightarrow> string \<Rightarrow> (desc list \<times> string) option" where
  "read_desc 0 s = None"
| "read_desc (Suc k) s = (case s of [] \<Rightarrow> None | c # r \<Rightarrow>
     if c = CHR ''c'' then map_option (apfst DComplex) (read_desc k r)
     else let (t, r') = token s in
       if t = ''p'' then Some (DPointer, r')
       else if t = ''a'' then map_option (apfst DAtomic) (read_desc k r')
       else if t \<in> set codes then Some (DBuiltin t, r')
       else if c = CHR ''s'' \<or> c = CHR ''u''
       then map_option (apfst (DRecord (c = CHR ''s''))) (read_descs k (read_nat 0 (tl t)) r')
       else None)"
| "read_descs k 0 s = Some ([], s)"
| "read_descs k (Suc n) s = (case read_desc k s of None \<Rightarrow> None
     | Some (d, r) \<Rightarrow> map_option (apfst ((#) d)) (read_descs k n r))"

declare read_desc.simps [simp del] read_descs.simps [simp del]

lemma token_text: "CHR ''_'' \<notin> set t \<Longrightarrow> token (t @ CHR ''_'' # r) = (t, r)"
proof -
  assume t: "CHR ''_'' \<notin> set t"
  then have "takeWhile (\<lambda>c. c \<noteq> CHR ''_'') (t @ CHR ''_'' # r) = t" by (induction t) auto
  then show ?thesis by (simp add: token_def)
qed

lemma not_digit: "digit c \<Longrightarrow> c \<noteq> CHR ''_''" "digit c \<Longrightarrow> c \<noteq> CHR ''c''" "digit c \<Longrightarrow> c \<noteq> CHR ''s''"
  by (auto simp: digit_def)

lemma codes_shape: "list_all (\<lambda>t. t \<noteq> [] \<and> list_all (\<lambda>c. \<not> digit c \<and> c \<notin> {CHR ''_'', CHR 0x09, CHR 0x0A}) t \<and>
    hd t \<noteq> CHR ''c'' \<and> t \<noteq> ''p'' \<and> t \<noteq> ''a'') codes"
  by code_simp

lemma codes_head: "t \<in> set codes \<Longrightarrow> t \<noteq> [] \<and> list_all (\<lambda>c. \<not> digit c \<and> c \<notin> {CHR ''_'', CHR 0x09, CHR 0x0A}) t \<and>
    hd t \<noteq> CHR ''c'' \<and> t \<noteq> ''p'' \<and> t \<noteq> ''a''"
  using codes_shape by (simp add: list_all_iff)

lemma record_token: "digit c \<Longrightarrow> x # c # cs \<notin> set codes"
  using codes_head [of "x # c # cs"] by auto

lemma read_descs_text:
  "(\<And>d r. d \<in> set ds \<Longrightarrow> read_desc k (desc_text d @ r) = Some (d, r)) \<Longrightarrow>
   read_descs k (length ds) (concat (map desc_text ds) @ r) = Some (ds, r)"
  by (induction ds) (simp_all add: read_descs.simps)

lemma length_desc_text: "d \<in> set ds \<Longrightarrow> length (desc_text d) \<le> length (concat (map desc_text ds))"
  by (induction ds) auto

lemma read_desc_text:
  "wf_desc d \<Longrightarrow> length (desc_text d) \<le> k \<Longrightarrow> read_desc k (desc_text d @ r) = Some (d, r)"
proof (induction d arbitrary: k r)
  case DPointer
  then obtain j where "k = Suc j" by (cases k) auto
  with token_text [of "''p''" r] show ?case by (simp add: read_desc.simps)
next
  case (DBuiltin t)
  then obtain j where "k = Suc j" by (cases k) auto
  moreover have t: "t \<in> set codes" using DBuiltin by simp
  moreover obtain c cs where "t = c # cs" using codes_head [OF t] by (cases t) auto
  moreover have "token (t @ CHR ''_'' # r) = (t, r)"
    using codes_head [OF t] by (intro token_text) (auto simp: list_all_iff)
  ultimately show ?case using codes_head [OF t] by (simp add: read_desc.simps)
next
  case (DComplex d)
  then obtain j where "k = Suc j" by (cases k) auto
  with DComplex show ?case by (simp add: read_desc.simps)
next
  case (DAtomic d)
  then obtain j where "k = Suc j" by (cases k) auto
  with DAtomic token_text [of "''a''" "desc_text d @ r"] show ?case by (simp add: read_desc.simps)
next
  case (DRecord s ds)
  then obtain j where k: "k = Suc j" by (cases k) (auto split: if_splits)
  obtain c cs where n: "show_nat (length ds) = c # cs" "digit c" using show_nat_Cons by blast
  let ?x = "if s then CHR ''s'' else CHR ''u''"
  let ?t = "?x # show_nat (length ds)"
  have "CHR ''_'' \<notin> set ?t" using show_nat_digits not_digit(1) by auto
  then have tok: "token (?t @ CHR ''_'' # concat (map desc_text ds) @ r) = (?t, concat (map desc_text ds) @ r)"
    by (rule token_text)
  have "read_desc j (desc_text d @ r') = Some (d, r')" if "d \<in> set ds" for d r'
    using DRecord.IH [OF that] DRecord.prems that length_desc_text [OF that] k by auto
  then have "read_descs j (length ds) (concat (map desc_text ds) @ r) = Some (ds, r)"
    by (rule read_descs_text)
  moreover have "read_nat (of_char c - 48) cs = length ds"
    using read_show_nat [of "length ds"] n(1) by simp
  ultimately show ?case using tok n record_token [OF n(2)]
    by (cases s) (simp_all add: k read_desc.simps)
qed

text \<open>A whole line: the types of the result and of the arguments, a number, and \<open>v\<close> or \<open>f\<close>.\<close>

definition call_text :: "desc list \<times> nat \<times> bool \<Rightarrow> string" where
  "call_text = (\<lambda>(ds, n, v). concat (map desc_text ds) @ show_nat n @ ''_'' @
     (if v then ''v'' else ''f'') @ [CHR 0x0A])"

fun read_call :: "nat \<Rightarrow> string \<Rightarrow> (desc list \<times> nat \<times> bool) option" where
  "read_call 0 s = None"
| "read_call (Suc k) s = (case s of [] \<Rightarrow> None | c # _ \<Rightarrow>
     if digit c then (case token s of (t, r) \<Rightarrow> Some ([], read_nat 0 t, r = ''v'' @ [CHR 0x0A]))
     else (case read_desc (length s) s of None \<Rightarrow> None
       | Some (d, r) \<Rightarrow> map_option (apfst ((#) d)) (read_call k r)))"

lemma desc_text_head: "wf_desc d \<Longrightarrow> \<exists>c cs. desc_text d = c # cs \<and> \<not> digit c \<and> c \<noteq> CHR 0x09"
proof (induction d)
  case (DBuiltin t)
  with codes_head [of t] show ?case by (cases t) auto
qed (auto simp: digit_def)

lemma read_call_text:
  "\<forall>d\<in>set ds. wf_desc d \<Longrightarrow> length ds < k \<Longrightarrow> read_call k (call_text (ds, n, v)) = Some (ds, n, v)"
proof (induction ds arbitrary: k)
  case Nil
  then obtain j where "k = Suc j" by (cases k) auto
  moreover obtain c cs where "show_nat n = c # cs" "digit c" using show_nat_Cons by blast
  moreover have "CHR ''_'' \<notin> set (show_nat n)" using show_nat_digits not_digit(1) by blast
  moreover have "read_nat 0 (show_nat n) = n" by (rule read_show_nat)
  ultimately show ?case
    using token_text [of "show_nat n" "(if v then ''v'' else ''f'') @ [CHR 0x0A]"]
    by (cases v) (simp_all add: call_text_def)
next
  case (Cons d ds)
  then obtain j where "k = Suc j" by (cases k) auto
  moreover obtain c cs where "desc_text d = c # cs" "\<not> digit c" using desc_text_head [of d] Cons.prems by auto
  moreover have "call_text (d # ds, n, v) = desc_text d @ call_text (ds, n, v)" by (simp add: call_text_def)
  moreover have "read_desc (length (desc_text d @ call_text (ds, n, v))) (desc_text d @ call_text (ds, n, v)) =
      Some (d, call_text (ds, n, v))"
    using Cons.prems by (intro read_desc_text) simp_all
  ultimately show ?case using Cons by simp
qed

lemma call_text_inject:
  assumes "\<forall>d\<in>set (fst s). wf_desc d" and "\<forall>d\<in>set (fst t). wf_desc d"
  shows "call_text s = call_text t \<longleftrightarrow> s = t"
proof
  assume eq: "call_text s = call_text t"
  obtain ds n v es m w where st: "s = (ds, n, v)" "t = (es, m, w)" by (cases s; cases t)
  let ?k = "Suc (length ds + length es)"
  have "read_call ?k (call_text s) = Some s" "read_call ?k (call_text t) = Some t"
    using read_call_text [of ds ?k n v] read_call_text [of es ?k m w] assms st by simp_all
  with eq show "s = t" by simp
qed simp

section \<open>The signature of a call\<close>

text \<open>
  What the native server has to know about a call: the kinds of the result and of the arguments,
  how many parameters the prototype fixes (all arguments without a prototype), and whether the
  function is variadic.
\<close>

definition signature :: "string \<Rightarrow> call_expr \<Rightarrow> (desc list \<times> nat \<times> bool) option" where
  "signature ct E = (case ce_function E of
     None \<Rightarrow> None
   | Some (Proto ret n v) \<Rightarrow> map_option (\<lambda>ds. (ds, n, v)) (all_some (map (desc_of ct) (ret # ce_args E)))
   | Some (NoProto ret) \<Rightarrow> map_option (\<lambda>ds. (ds, length (ce_args E), False))
       (all_some (map (desc_of ct) (ret # ce_args E))))"

text \<open>A type in which no enumeration lacks its promotion type.\<close>

fun complete :: "ctype \<Rightarrow> bool" where
  "complete (EnumType None) \<longleftrightarrow> False"
| "complete (EnumType (Some T)) \<longleftrightarrow> complete T"
| "complete (ComplexType T) \<longleftrightarrow> complete T"
| "complete (AtomicType T) \<longleftrightarrow> complete T"
| "complete (ElaboratedType T) \<longleftrightarrow> complete T"
| "complete (TypedefType T) \<longleftrightarrow> complete T"
| "complete (RecordType k fs) \<longleftrightarrow> (\<forall>T\<in>set fs. complete T)"
| "complete _ \<longleftrightarrow> True"

definition complete_call :: "call_expr \<Rightarrow> bool" where
  "complete_call E \<longleftrightarrow> (\<forall>T\<in>set (ce_args E). complete T) \<and>
     (case ce_function E of Some (Proto T _ _) \<Rightarrow> complete T | Some (NoProto T) \<Rightarrow> complete T | None \<Rightarrow> True)"

lemma snd_andthen [simp]: "snd (andthen a b) = None \<longleftrightarrow> snd a = None \<and> snd b = None"
  by (auto simp: andthen_def split: option.splits)

lemma snd_in_order: "snd (in_order as) = None \<longleftrightarrow> (\<forall>a\<in>set as. snd a = None)"
  by (induction as) (simp_all add: outs_def)

lemma snd_outs [simp]: "snd (outs s) = None"
  by (simp add: outs_def)

lemma snd_raise [simp]: "snd (raise e) = Some e"
  by (simp add: raise_def)

lemma all_some_None: "all_some xs = None \<longleftrightarrow> None \<in> set xs"
  by (induction xs) (auto split: option.splits)

lemma processType_raises: "complete T \<Longrightarrow> desc_of ct T = None \<Longrightarrow> snd (processType ct T) \<noteq> None"
proof (induction ct T rule: processType.induct)
  case (8 ct kind)
  then show ?case by (simp add: VisitBuiltin_def)
next
  case (15 ct k fs)
  show ?case
  proof (cases "k = IsClass")
    case False
    then have "None \<in> set (map (desc_of ct) fs)" using "15.prems"(2) by (cases k) (simp_all add: all_some_None)
    then obtain T where "T \<in> set fs" "desc_of ct T = None" by auto
    with "15.IH" [of T] "15.prems"(1) have "snd (in_order (map (processType ct) fs)) \<noteq> None"
      unfolding snd_in_order by auto
    then show ?thesis by (simp add: processRecord_def)
  qed (simp add: processRecord_def)
qed simp_all

lemma processType_supported: "complete T \<Longrightarrow> snd (processType ct T) = None \<longleftrightarrow> desc_of ct T \<noteq> None"
  using processType_raises [of T ct] processType_desc [of ct T] by fastforce

lemma types_text:
  assumes "map (desc_of ct) Ts = map Some ds"
  shows "in_order (map (processType ct) Ts) = outs (concat (map desc_text ds))"
proof -
  have "map (processType ct) Ts = map (\<lambda>d. outs (desc_text d)) ds" using assms
    by (induction Ts arbitrary: ds) (auto simp: processType_desc)
  then show ?thesis by (rule map_eq_outs)
qed

lemma VisitCallExpr_types:
  "VisitCallExpr ct E = (case ce_function E of
     None \<Rightarrow> raise NullType
   | Some (Proto ret n v) \<Rightarrow> andthen (in_order (map (processType ct) (ret # ce_args E)))
       (outs (show_nat n @ ''_'' @ (if v then ''v'' else ''f'') @ [CHR 0x0A]))
   | Some (NoProto ret) \<Rightarrow> andthen (in_order (map (processType ct) (ret # ce_args E)))
       (outs (show_nat (length (ce_args E)) @ ''_f'' @ [CHR 0x0A])))"
  unfolding VisitCallExpr_def append_assoc [symmetric] in_order_append
  by (simp split: option.splits function_type.splits)

lemma VisitCallExpr_signature: "signature ct E = Some s \<Longrightarrow> VisitCallExpr ct E = outs (call_text s)"
  unfolding VisitCallExpr_types signature_def
  by (auto simp: all_some_Some types_text call_text_def simp del: list.map split: option.splits function_type.splits)

lemma signature_wf:
  assumes "ct \<in> {''sc'', ''uc''}" and "signature ct E = Some s" and d: "d \<in> set (fst s)"
  shows "wf_desc d"
proof -
  obtain Ts where "map (desc_of ct) Ts = map Some (fst s)"
    using assms(2) by (auto simp: signature_def all_some_Some simp del: list.map split: option.splits function_type.splits)
  then have "Some d \<in> set (map (desc_of ct) Ts)" using d by simp
  with desc_of_wf [OF assms(1)] show ?thesis by auto
qed

section \<open>A whole run\<close>

text \<open>
  What the driver needs of a translation unit: of each call its signature, of each name with
  external linkage the name. \<open>item_text\<close> is the line of either.
\<close>

datatype item = ICall "desc list \<times> nat \<times> bool" | IName string

fun item_text :: "item \<Rightarrow> string" where
  "item_text (ICall s) = call_text s"
| "item_text (IName n) = [CHR 0x09] @ n @ [CHR 0x0A]"

fun wf_item :: "item \<Rightarrow> bool" where
  "wf_item (ICall s) \<longleftrightarrow> (\<forall>d\<in>set (fst s). wf_desc d)"
| "wf_item (IName n) \<longleftrightarrow> CHR 0x0A \<notin> set n"

fun items_of :: "string \<Rightarrow> visit \<Rightarrow> item list option" where
  "items_of ct (VCall E) = map_option (\<lambda>s. [ICall s]) (signature ct E)"
| "items_of ct (VNameRef l n) = Some (if l then [IName n] else [])"

definition items :: "string \<Rightarrow> visit list \<Rightarrow> item list option" where
  "items ct vs = map_option concat (all_some (map (items_of ct) vs))"

lemma visit_output_items:
  "items_of ct v = Some is \<Longrightarrow> visit_output ct v = outs (concat (map item_text is))"
  by (cases v) (auto simp: VisitCallExpr_signature VisitNameRef_def)

lemma call_sites_items:
  assumes "items ct vs = Some is"
  shows "call_sites ct vs = outs (concat (map item_text is))"
proof -
  obtain iss where iss: "map (items_of ct) vs = map Some iss" and cat: "is = concat iss"
    using assms by (auto simp: items_def all_some_Some)
  have "map (visit_output ct) vs = map (\<lambda>is. outs (concat (map item_text is))) iss" using iss
    by (induction vs arbitrary: iss) (auto simp: visit_output_items)
  moreover have "concat (map (\<lambda>is. concat (map item_text is)) iss) = concat (map item_text is)"
    unfolding cat by (induction iss) simp_all
  ultimately show ?thesis unfolding call_sites_def using map_eq_outs by metis
qed

text \<open>Every line has one line feed, at its end.\<close>

definition line :: "string \<Rightarrow> bool" where
  "line l \<longleftrightarrow> (\<exists>t. l = t @ [CHR 0x0A] \<and> CHR 0x0A \<notin> set t)"

lemma line_split: "line l \<Longrightarrow> takeWhile (\<lambda>c. c \<noteq> CHR 0x0A) (l @ r) @ [CHR 0x0A] = l"
proof -
  assume "line l"
  then obtain t where l: "l = t @ [CHR 0x0A]" and t: "CHR 0x0A \<notin> set t" by (auto simp: line_def)
  have "takeWhile (\<lambda>c. c \<noteq> CHR 0x0A) (t @ CHR 0x0A # r) = t" using t by (induction t) auto
  then show ?thesis by (simp add: l)
qed

lemma line_not_Nil: "\<not> line []"
  by (simp add: line_def)

lemma lines_inject:
  "list_all line xs \<Longrightarrow> list_all line ys \<Longrightarrow> concat xs = concat ys \<Longrightarrow> xs = ys"
proof (induction xs arbitrary: ys)
  case Nil
  then show ?case by (cases ys) (auto simp: line_not_Nil)
next
  case (Cons x xs)
  show ?case
  proof (cases ys)
    case Nil
    with Cons.prems show ?thesis by (auto simp: line_not_Nil)
  next
    case (Cons y zs)
    have l: "line x" "line y" and eq: "x @ concat xs = y @ concat zs" using Cons.prems Cons by auto
    from line_split [OF l(1), of "concat xs"] line_split [OF l(2), of "concat zs"]
    have "x = y" using eq by simp
    with Cons Cons.IH [of zs] Cons.prems eq show ?thesis by simp
  qed
qed

lemma desc_text_no_newline: "wf_desc d \<Longrightarrow> CHR 0x0A \<notin> set (desc_text d)"
proof (induction d)
  case (DBuiltin t)
  with codes_head [of t] show ?case by (auto simp: list_all_iff)
next
  case (DRecord s ds)
  have "CHR 0x0A \<notin> set (show_nat (length ds))" using show_nat_digits [of "CHR 0x0A"] by (auto simp: digit_def)
  with DRecord show ?case by auto
qed simp_all

lemma item_line: "wf_item i \<Longrightarrow> line (item_text i)"
proof (cases i)
  case (ICall s)
  assume "wf_item i"
  obtain ds n v where s: "s = (ds, n, v)" by (cases s)
  have "CHR 0x0A \<notin> set (show_nat n)" using show_nat_digits [of "CHR 0x0A"] by (auto simp: digit_def)
  moreover have "CHR 0x0A \<notin> set (concat (map desc_text ds))"
    using \<open>wf_item i\<close> ICall s desc_text_no_newline by auto
  ultimately show ?thesis unfolding line_def ICall
    by (intro exI [of _ "concat (map desc_text ds) @ show_nat n @ ''_'' @ (if v then ''v'' else ''f'')"])
      (simp add: s call_text_def)
qed (auto simp: line_def)

lemma call_text_head: "wf_item (ICall s) \<Longrightarrow> call_text s \<noteq> CHR 0x09 # t"
proof (cases s)
  case (fields ds n v)
  assume wf: "wf_item (ICall s)"
  have tab: "\<not> digit (CHR 0x09)" by (simp add: digit_def)
  show ?thesis
  proof (cases ds)
    case Nil
    with show_nat_Cons [of n] tab show ?thesis by (auto simp: fields call_text_def)
  next
    case (Cons d es)
    then obtain c cs where "desc_text d = c # cs" "c \<noteq> CHR 0x09" using desc_text_head [of d] wf fields by auto
    then show ?thesis by (simp add: fields Cons call_text_def)
  qed
qed

lemma item_text_inject:
  assumes "wf_item i" and "wf_item j" and "item_text i = item_text j"
  shows "i = j"
proof (cases i; cases j)
  fix s t assume "i = ICall s" "j = ICall t"
  with assms call_text_inject [of s t] show ?thesis by simp
next
  fix s n assume "i = ICall s" "j = IName n"
  with assms call_text_head [of s] show ?thesis by simp
next
  fix s n assume "i = IName n" "j = ICall s"
  with assms call_text_head [of s] show ?thesis by (metis append_Cons item_text.simps)
qed (use assms in simp)

lemma items_texts_inject:
  assumes "list_all wf_item is" and "list_all wf_item js"
    and "concat (map item_text is) = concat (map item_text js)"
  shows "is = js"
proof -
  have "list_all line (map item_text is)" "list_all line (map item_text js)"
    using assms(1,2) by (auto simp: list_all_iff item_line)
  from lines_inject [OF this assms(3)] have "map item_text is = map item_text js" .
  then show ?thesis using assms(1,2)
    by (auto simp: list_all_iff intro: list.inj_map_strong item_text_inject)
qed

lemma items_wf:
  assumes ct: "ct \<in> {''sc'', ''uc''}" and names: "\<forall>l n. VNameRef l n \<in> set vs \<longrightarrow> CHR 0x0A \<notin> set n"
    and its: "items ct vs = Some is"
  shows "list_all wf_item is"
proof -
  obtain iss where iss: "map (items_of ct) vs = map Some iss" and cat: "is = concat iss"
    using its by (auto simp: items_def all_some_Some)
  have "wf_item i" if "xs \<in> set iss" "i \<in> set xs" for xs i
  proof -
    have "Some xs \<in> set (map (items_of ct) vs)" unfolding iss using that by simp
    then obtain v where v: "v \<in> set vs" "items_of ct v = Some xs" by auto
    with that(2) names signature_wf [OF ct] show ?thesis by (cases v) (auto split: if_splits)
  qed
  then show ?thesis by (auto simp: cat list_all_iff)
qed

lemma set_andthen: "set (fst (andthen a b)) \<subseteq> set (fst a) \<union> set (fst b)"
  by (auto simp: andthen_def split: option.splits)

lemma set_in_order: "set (fst (in_order as)) \<subseteq> (\<Union>a\<in>set as. set (fst a))"
proof (induction as)
  case (Cons a as)
  then show ?case using set_andthen [of a "in_order as"] by auto
qed (simp add: outs_def)

lemma fst_outs [simp]: "fst (outs s) = s"
  by (simp add: outs_def)

lemma fst_raise [simp]: "fst (raise e) = []"
  by (simp add: raise_def)

lemma show_nat_no_newline: "CHR 0x0A \<notin> set (show_nat n)"
  using show_nat_digits [of "CHR 0x0A"] by (auto simp: digit_def)

lemma code_no_newline: "c \<in> set codes \<Longrightarrow> CHR 0x0A \<notin> set c"
  using codes_head [of c] by (auto simp: list_all_iff)

lemma processRecord_no_newline:
  assumes "\<forall>a\<in>set fs. CHR 0x0A \<notin> set (fst a)"
  shows "CHR 0x0A \<notin> set (fst (processRecord k fs))"
proof -
  have "CHR 0x0A \<notin> set (fst (in_order fs))" using set_in_order [of fs] assms by auto
  moreover have "set (fst (processRecord k fs)) \<subseteq>
      {CHR ''s'', CHR ''u'', CHR ''_''} \<union> set (show_nat (length fs)) \<union> set (fst (in_order fs))"
    by (cases k) (auto simp: processRecord_def andthen_def outs_def raise_def split: option.splits)
  ultimately show ?thesis using show_nat_no_newline [of "length fs"] by auto
qed

lemma processType_no_newline: "ct \<in> {''sc'', ''uc''} \<Longrightarrow> CHR 0x0A \<notin> set (fst (processType ct T))"
proof (induction ct T rule: processType.induct)
  case (8 ct kind)
  then show ?case using builtin_code [of ct kind]
    by (auto simp: VisitBuiltin_def dest: code_no_newline split: option.splits)
next
  case (9 ct T)
  then show ?case using set_andthen [of "outs ''c''" "processType ct T"] by auto
next
  case (10 ct T)
  then show ?case using set_andthen [of "outs ''a_''" "processType ct T"] by auto
next
  case (15 ct k fs)
  then show ?case by (simp add: processRecord_no_newline)
qed simp_all

lemma types_stopped:
  assumes "ct \<in> {''sc'', ''uc''}"
  shows "CHR 0x0A \<notin> set (fst (in_order (map (processType ct) Ts)))"
  using set_in_order [of "map (processType ct) Ts"] processType_no_newline [OF assms] by auto

lemma VisitCallExpr_parts:
  obtains "ce_function E = None" "VisitCallExpr ct E = raise NullType"
  | Ts s where "VisitCallExpr ct E = andthen (in_order (map (processType ct) Ts)) (outs s)"
    "complete_call E \<Longrightarrow> \<forall>T\<in>set Ts. complete T"
    "signature ct E = None \<longleftrightarrow> all_some (map (desc_of ct) Ts) = None"
proof (cases "ce_function E")
  case None
  with that(1) show ?thesis by (simp add: VisitCallExpr_types)
next
  case (Some f)
  show ?thesis
  proof (cases f)
    case (NoProto ret)
    with Some that(2) [of "ret # ce_args E"] show ?thesis
      by (simp add: VisitCallExpr_types signature_def complete_call_def del: list.map)
  next
    case (Proto ret n v)
    with Some that(2) [of "ret # ce_args E"] show ?thesis
      by (simp add: VisitCallExpr_types signature_def complete_call_def del: list.map)
  qed
qed

lemma stopped_no_newline:
  assumes "ct \<in> {''sc'', ''uc''}" and "snd (VisitCallExpr ct E) \<noteq> None"
  shows "CHR 0x0A \<notin> set (fst (VisitCallExpr ct E))"
proof (rule VisitCallExpr_parts [of E ct])
  fix Ts s assume v: "VisitCallExpr ct E = andthen (in_order (map (processType ct) Ts)) (outs s)"
  with types_stopped [OF assms(1), of Ts] assms(2) show ?thesis
    by (auto simp: andthen_def split: option.splits)
qed simp

lemma types_fail:
  assumes "\<forall>T\<in>set Ts. complete T" and "all_some (map (desc_of ct) Ts) = None"
  shows "snd (in_order (map (processType ct) Ts)) \<noteq> None"
proof -
  obtain T where "T \<in> set Ts" "desc_of ct T = None" using assms(2) by (auto simp: all_some_None)
  with processType_raises [of T ct] assms(1) show ?thesis unfolding snd_in_order by auto
qed

lemma VisitCallExpr_fails:
  assumes "complete_call E" and "signature ct E = None"
  shows "snd (VisitCallExpr ct E) \<noteq> None"
proof (rule VisitCallExpr_parts [of E ct])
  fix Ts s
  assume "VisitCallExpr ct E = andthen (in_order (map (processType ct) Ts)) (outs s)"
    "complete_call E \<Longrightarrow> \<forall>T\<in>set Ts. complete T"
    "signature ct E = None \<longleftrightarrow> all_some (map (desc_of ct) Ts) = None"
  with types_fail [of Ts ct] assms show ?thesis by simp
qed simp

section \<open>Properties of the call site tool\<close>

text \<open>
  C22: Two runs of the tool over supported code print the same text exactly when they found the
  same sequence of call signatures and external names: the lines from which the driver makes its
  trampolines lose nothing of the kinds of the result and of the arguments, structure by
  structure, and confuse no two of them. (\<open>-char\<close> is given as \<open>sc\<close> or \<open>uc\<close>, and no name has a
  line feed in it.)
\<close>
theorem call_sites_separate:
  assumes "ct \<in> {''sc'', ''uc''}"
    and "\<forall>l n. VNameRef l n \<in> set vs \<union> set ws \<longrightarrow> CHR 0x0A \<notin> set n"
    and "items ct vs = Some is" and "items ct ws = Some js"
  shows "call_sites ct vs = call_sites ct ws \<longleftrightarrow> is = js"
proof
  assume "call_sites ct vs = call_sites ct ws"
  then have "concat (map item_text is) = concat (map item_text js)"
    using call_sites_items assms(3,4) by (simp add: outs_def)
  with items_texts_inject [OF items_wf [OF assms(1) _ assms(3)] items_wf [OF assms(1) _ assms(4)]] assms(2)
  show "is = js" by blast
qed (use assms call_sites_items in simp)

theorem call_sites_separate_witness:
  "call_sites ''sc'' [VCall \<lparr>ce_function = Some (Proto (BuiltinType ''Int'') 1 True),
       ce_args = [PointerType, RecordType IsStruct [BuiltinType ''Char_S'', ComplexType (BuiltinType ''Double'')]]\<rparr>]
   \<noteq> call_sites ''sc'' [VCall \<lparr>ce_function = Some (Proto (BuiltinType ''Int'') 1 True),
       ce_args = [PointerType, BuiltinType ''Char_S'', ComplexType (BuiltinType ''Double'')]\<rparr>]"
  using call_sites_separate [of "''sc''"
     "[VCall \<lparr>ce_function = Some (Proto (BuiltinType ''Int'') 1 True),
       ce_args = [PointerType, RecordType IsStruct [BuiltinType ''Char_S'', ComplexType (BuiltinType ''Double'')]]\<rparr>]"
     "[VCall \<lparr>ce_function = Some (Proto (BuiltinType ''Int'') 1 True),
       ce_args = [PointerType, BuiltinType ''Char_S'', ComplexType (BuiltinType ''Double'')]\<rparr>]"]
  by (simp add: items_def signature_def builtin_codes_def)

text \<open>
  C31: A call whose types are complete is either described in full, or the tool stops with an
  exception: no call with an unsupported type (a vector, a class, a 128-bit integer) leaves a
  line behind that looks complete.
\<close>
theorem call_described_or_stopped:
  assumes "complete_call E" and "ct \<in> {''sc'', ''uc''}"
  shows "case signature ct E of
      Some s \<Rightarrow> VisitCallExpr ct E = (call_text s, None)
    | None \<Rightarrow> \<exists>e. snd (VisitCallExpr ct E) = Some e \<and> CHR 0x0A \<notin> set (fst (VisitCallExpr ct E))"
proof (cases "signature ct E")
  case None
  then have fails: "snd (VisitCallExpr ct E) \<noteq> None" by (simp add: VisitCallExpr_fails assms(1))
  then have "CHR 0x0A \<notin> set (fst (VisitCallExpr ct E))" by (rule stopped_no_newline [OF assms(2)])
  with fails None show ?thesis by auto
qed (simp add: VisitCallExpr_signature outs_def)

theorem call_described_or_stopped_witness:
  "\<exists>e. snd (VisitCallExpr ''uc'' \<lparr>ce_function = Some (NoProto (BuiltinType ''Void'')),
     ce_args = [PointerType, RecordType IsUnion [BuiltinType ''Int128'']]\<rparr>) = Some e"
  using call_described_or_stopped [of "\<lparr>ce_function = Some (NoProto (BuiltinType ''Void'')),
     ce_args = [PointerType, RecordType IsUnion [BuiltinType ''Int128'']]\<rparr>" "''uc''"]
  by (auto simp: signature_def complete_call_def builtin_codes_def)

end
