(* ===== verification/Trampolines.thy ===== *)
theory Trampolines
  imports CallSites "HOL-Library.List_Lexorder" "HOL-Library.Char_ord"
begin

text \<open>
  From call sites to trampolines: the driver (src/scripts/kcc) sorts the lines that the call
  site tool printed, drops duplicates, and hands the lines of calls to
  src/scripts/make-trampolines, a Bash script that writes one C function per line. The
  function receives the arguments of the call from the peer of the native server, calls the
  native function with them and stores its result. The script knows the types only by the
  words of the line; cdecl, which turns a type in English into C, is a separate program and a
  parameter here.

  Bash keeps the words of a line as positional parameters and the results of
  \<open>explain_type\<close> as global variables; here the words are a list, and a command that
  shifts them returns the rest of it. The name of a tag is kept as the words it is joined from,
  since the script splits it again to print the members. The counts in the words are decimal numbers without a
  sign, as the call site tool prints them.
\<close>

section \<open>Words\<close>

text \<open>Cutting a text at a character; an empty piece at the end is dropped.\<close>

function cut :: "char \<Rightarrow> string \<Rightarrow> string list" where
  "cut x s = (if s = [] then []
     else let t = takeWhile (\<lambda>c. c \<noteq> x) s in t # cut x (drop (Suc (length t)) s))"
  by pat_completeness auto
termination
  by (relation "measure (\<lambda>(x, s). length s)") auto

declare cut.simps [simp del]

text \<open>The words of a line: it is split at \<open>_\<close>, the separator that is in use (IFS).\<close>

definition ifs_words :: "string \<Rightarrow> string list" where
  "ifs_words s = cut (CHR ''_'') s"

text \<open>\<open>"$*"\<close>: the words joined by the separator.\<close>

fun join_words :: "string list \<Rightarrow> string" where
  "join_words [] = ''''"
| "join_words [w] = w"
| "join_words (w # ws) = w @ ''_'' @ join_words ws"

definition head_word :: "string list \<Rightarrow> string" where
  "head_word ws = (case ws of [] \<Rightarrow> '''' | w # _ \<Rightarrow> w)"

section \<open>explain\_type\<close>

record explained =
  typ_text :: string
  tagWords :: "string list"
  tag_kind :: string

definition type_words :: "(string \<times> string) list" where
  "type_words =
    [(''p'', ''pointer to void''), (''v'', ''void''), (''sc'', ''signed char''), (''b'', ''bool''),
     (''uc'', ''unsigned char''), (''us'', ''unsigned short''), (''ui'', ''unsigned int''),
     (''ul'', ''unsigned long''), (''ull'', ''unsigned long long''), (''ss'', ''short''), (''si'', ''int''),
     (''sl'', ''long''), (''ll'', ''long long''), (''f'', ''float''), (''d'', ''double''),
     (''ld'', ''long double''), (''cf'', ''float complex''), (''cd'', ''double complex''),
     (''cld'', ''long double complex'')]"

text \<open>The pattern \<open>[su][0-9]*\<close>, and the number after the letter.\<close>

definition record_word :: "string \<Rightarrow> bool" where
  "record_word w = (case w of c # d # _ \<Rightarrow> c \<in> {CHR ''s'', CHR ''u''} \<and> digit d | _ \<Rightarrow> False)"

definition field_count :: "string \<Rightarrow> nat" where
  "field_count w = read_nat 0 (tl w)"

text \<open>The loop over the words of a structure: each is added to the name of the tag.\<close>

function tag_loop :: "nat \<Rightarrow> string list \<Rightarrow> string list \<Rightarrow> string list \<times> string list" where
  "tag_loop sremaining ws name =
     (if sremaining = 0 then (name, ws)
      else let shead = head_word ws in
        tag_loop (sremaining + (if record_word shead then field_count shead else 0) - 1) (tl ws) (name @ [shead]))"
  by pat_completeness auto
termination
  by (relation "measures [\<lambda>(n, ws, name). length ws, \<lambda>(n, ws, name). n]")
     (auto simp: head_word_def record_word_def split: list.splits)

declare tag_loop.simps [simp del]

text \<open>How many words open a structure or union; with it the script's recursion is seen to end.\<close>

definition openings :: "string list \<Rightarrow> nat" where
  "openings ws = length (filter record_word ws)"

lemma openings_simps [simp]:
  "openings [] = 0" "openings (w # ws) = (if record_word w then 1 else 0) + openings ws"
  "openings (ws @ vs) = openings ws + openings vs"
  by (simp_all add: openings_def)

lemma openings_head_tl: "openings [head_word ws] + openings (tl ws) = openings ws"
  by (cases ws) (simp_all add: head_word_def record_word_def)

lemma tag_loop_shape:
  "tag_loop n ws name = (name', ws') \<Longrightarrow>
   length ws' \<le> length ws \<and> openings name' + openings ws' = openings name + openings ws \<and>
   (\<exists>more. name' = name @ more)"
proof (induction n ws name arbitrary: name' ws' rule: tag_loop.induct)
  case (1 n ws name)
  show ?case
  proof (cases "n = 0")
    case True
    with "1.prems" show ?thesis by (simp add: tag_loop.simps)
  next
    case False
    from "1.prems" False have "tag_loop (n + (if record_word (head_word ws) then field_count (head_word ws) else 0) - 1)
        (tl ws) (name @ [head_word ws]) = (name', ws')"
      by (simp add: tag_loop.simps [of n ws name] Let_def)
    from "1.IH" [OF False refl this] openings_head_tl [of ws] show ?thesis by auto
  qed
qed

function explain_loop :: "nat \<Rightarrow> string list \<Rightarrow> explained \<Rightarrow> explained \<times> string list" where
  "explain_loop remaining ws e =
     (if remaining = 0 then (e, ws)
      else let head = head_word ws; ws' = tl ws in
        (case map_of type_words head of
           Some w \<Rightarrow> explain_loop (remaining - 1) ws' (e\<lparr>typ_text := typ_text e @ '' '' @ w\<rparr>)
         | None \<Rightarrow>
             if head = ''a'' then explain_loop remaining ws' (e\<lparr>typ_text := typ_text e @ '' _Atomic''\<rparr>)
             else if record_word head then
               (case tag_loop (field_count head) ws' [head] of (name, ws'') \<Rightarrow>
                let tg = (if hd head = CHR ''u'' then ''union'' else ''struct'') in
                explain_loop (remaining - 1) ws''
                  \<lparr>typ_text = typ_text e @ '' '' @ tg @ '' __'' @ join_words name, tagWords = name, tag_kind = tg\<rparr>)
             else explain_loop (remaining - 1) ws' e))"
  by pat_completeness auto
termination
  by (relation "measures [\<lambda>(n, ws, e). length ws + n]")
     (auto simp: head_word_def type_words_def record_word_def split: list.splits dest!: tag_loop_shape [OF sym])

declare explain_loop.simps [simp del]

definition explain_type :: "string list \<Rightarrow> explained \<times> string list" where
  "explain_type ws = explain_loop 1 ws \<lparr>typ_text = [], tagWords = [], tag_kind = []\<rparr>"

lemma explain_loop_shape:
  "explain_loop n ws e = (e', ws') \<Longrightarrow>
   length ws' \<le> length ws - (if n = 0 then 0 else 1) \<and> openings ws' \<le> openings ws \<and>
   (tagWords e' = tagWords e \<or>
    tagWords e' \<noteq> [] \<and> record_word (hd (tagWords e')) \<and> openings (tagWords e') \<le> openings ws)"
proof (induction n ws e arbitrary: e' ws' rule: explain_loop.induct)
  case (1 n ws e)
  have tl_le: "openings (tl ws) \<le> openings ws" using openings_head_tl [of ws] by simp
  show ?case
  proof (cases "n = 0")
    case True
    with "1.prems" show ?thesis by (simp add: explain_loop.simps)
  next
    case n: False
    let ?h = "head_word ws"
    show ?thesis
    proof (cases "map_of type_words ?h")
      case (Some w)
      from "1.prems" n Some have "explain_loop (n - 1) (tl ws) (e\<lparr>typ_text := typ_text e @ '' '' @ w\<rparr>) = (e', ws')"
        by (simp add: explain_loop.simps [of n ws e] Let_def)
      from "1.IH"(4) [OF n refl refl Some this] tl_le n show ?thesis by auto
    next
      case None
      consider (a) "?h = ''a''" | (r) "?h \<noteq> ''a''" "record_word ?h" | (o) "?h \<noteq> ''a''" "\<not> record_word ?h" by blast
      then show ?thesis
      proof cases
        case a
        from "1.prems" n None a have "explain_loop n (tl ws) (e\<lparr>typ_text := typ_text e @ '' _Atomic''\<rparr>) = (e', ws')"
          by (simp add: explain_loop.simps [of n ws e] Let_def)
        from "1.IH"(1) [OF n refl refl None a this] tl_le n show ?thesis by auto
      next
        case r
        obtain name ws1 where t: "tag_loop (field_count ?h) (tl ws) [?h] = (name, ws1)" by fastforce
        let ?tg = "if hd ?h = CHR ''u'' then ''union'' else ''struct''"
        let ?e = "\<lparr>typ_text = typ_text e @ '' '' @ ?tg @ '' __'' @ join_words name, tagWords = name, tag_kind = ?tg\<rparr>"
        from "1.prems" n None r t have "explain_loop (n - 1) ws1 ?e = (e', ws')"
          by (simp add: explain_loop.simps [of n ws e] Let_def)
        from "1.IH"(2) [OF n refl refl None r t [symmetric] refl this] tag_loop_shape [OF t] r(2) n
          openings_head_tl [of ws] show ?thesis by auto
      next
        case o
        from "1.prems" n None o have "explain_loop (n - 1) (tl ws) e = (e', ws')"
          by (simp add: explain_loop.simps [of n ws e] Let_def)
        from "1.IH"(3) [OF n refl refl None o this] tl_le n show ?thesis by auto
      qed
    qed
  qed
qed

lemma explain_type_shape:
  assumes "explain_type ws = (e, ws')" and "ws \<noteq> []"
  shows "length ws' < length ws" and "openings ws' \<le> openings ws"
    and "tagWords e \<noteq> [] \<Longrightarrow> openings (tl (tagWords e)) < openings ws"
proof -
  note sh = explain_loop_shape [OF assms(1) [unfolded explain_type_def]]
  show "length ws' < length ws" using sh assms(2) by (cases ws) auto
  show "openings ws' \<le> openings ws" using sh by simp
  show "openings (tl (tagWords e)) < openings ws" if "tagWords e \<noteq> []"
    using sh that by (cases "tagWords e") auto
qed

section \<open>explain\_args and explain\_fun\_type\<close>

fun explain_args :: "nat \<Rightarrow> string list \<Rightarrow> string \<Rightarrow> string" where
  "explain_args 0 ts conn = []"
| "explain_args (Suc n) ts conn = conn @ head_word ts @ explain_args n (tl ts) '', ''"

text \<open>The types of the arguments: every type that starts before the last two words.\<close>

function arg_types :: "string list \<Rightarrow> string list \<times> string list" where
  "arg_types ws = (if length ws > 2 then
     (case explain_type ws of (e, ws') \<Rightarrow>
        case arg_types ws' of (ts, rest) \<Rightarrow> (typ_text e # ts, rest))
   else ([], ws))"
  by pat_completeness auto
termination
  by (relation "measure length") (auto dest: explain_type_shape(1) [OF sym])

declare arg_types.simps [simp del]

definition explain_fun_type :: "string list \<Rightarrow> string" where
  "explain_fun_type ws = (case explain_type ws of (e, ws1) \<Rightarrow>
     ''pointer to function ('' @
     (if length ws1 = 2 then ''void''
      else (case arg_types ws1 of (ts, rest) \<Rightarrow>
        let nfixed = read_nat 0 (head_word rest); variadic = head_word (tl rest) in
        explain_args nfixed ts [] @
        (if variadic = ''v'' \<and> nfixed > 0 then '', ...'' else if variadic = ''v'' then ''...'' else []))) @
     '') returning '' @ typ_text e)"

section \<open>print\_tagged and print\_tagged\_types\<close>

text \<open>
  cdecl as it is called: \<open>declare\<close> a name as a type, and \<open>cast\<close> an expression into a
  type, each with the type in English. \<open>declare_as True\<close> is cdecl with the option \<open>-s\<close>, which
  leaves out the semicolon at the end.
\<close>

record cdecl =
  declare_as :: "bool \<Rightarrow> string \<Rightarrow> string \<Rightarrow> string"
  cast_into :: "string \<Rightarrow> string \<Rightarrow> string"

definition eol :: string where
  "eol = [CHR 0x0A]"

text \<open>
  What is printed, and the tags declared so far. The members are visited in order; a member
  that is itself a structure is declared before the text of the outer one is printed.
\<close>

function print_tagged :: "cdecl \<Rightarrow> string list \<Rightarrow> string \<Rightarrow> string list \<Rightarrow> string \<times> string list"
  and print_fields :: "cdecl \<Rightarrow> nat \<Rightarrow> string list \<Rightarrow> string list \<Rightarrow> string \<Rightarrow> string \<times> string list \<times> string" where
  "print_tagged cd ws tg tags =
     (if ws = [] then ([], tags)
      else
        (case print_fields cd 0 (tl ws) tags (''  '' @ tg @ '' __'' @ join_words ws @ '' {'' @ eol) of
           (printed, tags', text) \<Rightarrow>
             if join_words ws \<in> set tags' then (printed, tags')
             else (printed @ text @ ''  };'' @ eol, tags' @ [join_words ws])))"
| "print_fields cd idx ws tags text =
     (if ws = [] then ([], tags, text)
      else (case explain_type ws of (e, ws') \<Rightarrow>
        case (if tagWords e = [] then ([], tags) else print_tagged cd (tagWords e) (tag_kind e) tags) of
          (printed, tags') \<Rightarrow>
            (case print_fields cd (idx + 1) ws' tags'
                (text @ ''    '' @ declare_as cd False (''_'' @ show_nat idx) (typ_text e) @ eol) of
               (printed', tags'', text') \<Rightarrow> (printed @ printed', tags'', text'))))"
  by pat_completeness auto
termination
  apply (relation "measures [\<lambda>x. case x of Inl (cd, ws, tg, tags) \<Rightarrow> openings (tl ws)
      | Inr (cd, i, ws, tags, t) \<Rightarrow> openings ws,
    \<lambda>x. case x of Inl _ \<Rightarrow> 1 | Inr _ \<Rightarrow> 0,
    \<lambda>x. case x of Inl _ \<Rightarrow> 0 | Inr (cd, i, ws, tags, t) \<Rightarrow> length ws]")
     apply simp
    apply simp
   apply (auto dest: explain_type_shape [OF sym])[1]
  apply (auto dest: explain_type_shape(1,2) [OF sym] simp: le_less)
  done

declare print_tagged.simps [simp del] print_fields.simps [simp del]

function tagged_args :: "cdecl \<Rightarrow> string list \<Rightarrow> string list \<Rightarrow> string" where
  "tagged_args cd ws tags = (if length ws > 2 then
     (case explain_type ws of (e, ws') \<Rightarrow>
        case print_tagged cd (tagWords e) (tag_kind e) tags of (printed, tags') \<Rightarrow>
          printed @ tagged_args cd ws' tags')
   else [])"
  by pat_completeness auto
termination
  by (relation "measure (\<lambda>(cd, ws, tags). length ws)") (auto dest: explain_type_shape(1) [OF sym])

declare tagged_args.simps [simp del]

definition print_tagged_types :: "cdecl \<Rightarrow> string list \<Rightarrow> string" where
  "print_tagged_types cd ws = (case explain_type ws of (e, ws1) \<Rightarrow>
     case print_tagged cd (tagWords e) (tag_kind e) [] of (printed, tags) \<Rightarrow>
       printed @ tagged_args cd ws1 tags)"

section \<open>write\_trampoline\<close>

function receive_args :: "cdecl \<Rightarrow> nat \<Rightarrow> string list \<Rightarrow> string \<times> nat" where
  "receive_args cd idx ws = (if length ws > 2 then
     (case explain_type ws of (e, ws') \<Rightarrow>
        case receive_args cd (idx + 1) ws' of (text, n) \<Rightarrow>
          (''  '' @ declare_as cd True (''_'' @ show_nat idx) (typ_text e) @ '';'' @ eol @
           ''  __recv_message(&_'' @ show_nat idx @ '', sizeof(_'' @ show_nat idx @ ''));'' @ eol @ text, n))
   else ([], idx))"
  by pat_completeness auto
termination
  by (relation "measure (\<lambda>(cd, idx, ws). length ws)") (auto dest: explain_type_shape(1) [OF sym])

declare receive_args.simps [simp del]

text \<open>The arguments of the call: \<open>seq\<close> from 0, separated by commas.\<close>

definition call_args :: "nat \<Rightarrow> string" where
  "call_args n = concat (map (\<lambda>i. (if i = 0 then [] else '', '') @ ''_'' @ show_nat i) [0..<n])"

definition write_trampoline :: "cdecl \<Rightarrow> string list \<Rightarrow> string" where
  "write_trampoline cd ws =
     ''static void __'' @ join_words ws @ '' (void (*fptr)(), void *retval) {'' @ eol @
     print_tagged_types cd ws @
     (case explain_type ws of (e, ws1) \<Rightarrow>
        ''  '' @ declare_as cd True ''fun'' (explain_fun_type ws) @ '' = '' @ cast_into cd ''fptr'' (explain_fun_type ws) @
        '';'' @ eol @
        (if typ_text e \<noteq> '' void'' then ''  '' @ declare_as cd True ''typed_retval'' (''pointer to'' @ typ_text e) @ '' = retval;'' @ eol
         else []) @
        (case receive_args cd 0 ws1 of (text, n) \<Rightarrow>
           text @ (if typ_text e \<noteq> '' void'' then ''  *typed_retval = fun('' else ''  fun('') @
           call_args n @ '');'' @ eol @ ''}'' @ eol))"

definition make_trampolines :: "cdecl \<Rightarrow> string list \<Rightarrow> string" where
  "make_trampolines cd ls = ''#include '' @ [CHR 0x22] @ ''platform.h'' @ [CHR 0x22] @ eol @ ''#define bool _Bool'' @ eol @ eol @
     concat (map (\<lambda>l. write_trampoline cd (ifs_words l)) ls)"

end
