(* ===== verification/TrampolineSpec.thy ===== *)
theory TrampolineSpec
  imports Trampolines
begin

text \<open>
  What the trampolines should be, on the kinds of values of a call signature instead of the
  words of its line, and that src/scripts/make-trampolines writes exactly that for every
  signature it supports.
\<close>

section \<open>The words of a signature\<close>

fun words_of :: "desc \<Rightarrow> string list" where
  "words_of DPointer = [''p'']"
| "words_of (DBuiltin c) = [c]"
| "words_of (DComplex d) = (case words_of d of [] \<Rightarrow> [''c''] | w # ws \<Rightarrow> (''c'' @ w) # ws)"
| "words_of (DAtomic d) = ''a'' # words_of d"
| "words_of (DRecord s ds) = ((if s then ''s'' else ''u'') @ show_nat (length ds)) # concat (map words_of ds)"

text \<open>
  What the script supports: a complex type is one of the three floating types, and no member of
  a structure is atomic.
\<close>

fun member_ok :: "desc \<Rightarrow> bool" where
  "member_ok DPointer \<longleftrightarrow> True"
| "member_ok (DBuiltin c) \<longleftrightarrow> c \<in> set codes"
| "member_ok (DComplex d) \<longleftrightarrow> d \<in> set (map DBuiltin [''f'', ''d'', ''ld''])"
| "member_ok (DAtomic d) \<longleftrightarrow> False"
| "member_ok (DRecord s ds) \<longleftrightarrow> (\<forall>d\<in>set ds. member_ok d)"

fun value_ok :: "desc \<Rightarrow> bool" where
  "value_ok (DAtomic d) \<longleftrightarrow> value_ok d"
| "value_ok d \<longleftrightarrow> member_ok d"

lemma member_ok_wf: "member_ok d \<Longrightarrow> wf_desc d"
  by (induction d) (auto simp: codes_def)

lemma value_ok_wf: "value_ok d \<Longrightarrow> wf_desc d"
  by (induction d rule: value_ok.induct) (auto dest: member_ok_wf simp del: member_ok.simps wf_desc.simps simp: wf_desc.simps(4))

lemma member_value_ok: "member_ok d \<Longrightarrow> value_ok d"
  by (cases d) simp_all

lemma words_of_not_Nil [simp]: "words_of d \<noteq> []"
  by (induction d) (simp_all split: list.split)

lemma words_text: "concat (map (\<lambda>w. w @ ''_'') (words_of d)) = desc_text d"
proof (induction d)
  case (DComplex d)
  then show ?case by (cases "words_of d") simp_all
next
  case (DRecord s ds)
  then have "concat (map (\<lambda>w. w @ ''_'') (concat (map words_of ds))) = concat (map desc_text ds)"
    by (induction ds) simp_all
  then show ?case by (cases s) simp_all
qed simp_all

lemma words_clean: "wf_desc d \<Longrightarrow> w \<in> set (words_of d) \<Longrightarrow> CHR ''_'' \<notin> set w"
proof (induction d arbitrary: w)
  case (DBuiltin c)
  then show ?case using codes_head [of c] by (auto simp: list_all_iff)
next
  case (DComplex d)
  then show ?case by (cases "words_of d") auto
next
  case (DRecord s ds)
  have "CHR ''_'' \<notin> set (show_nat (length ds))" using show_nat_digits [of "CHR ''_''"] by (auto simp: digit_def)
  with DRecord show ?case by (cases s) auto
qed auto

lemma cut_cons: "x \<notin> set w \<Longrightarrow> cut x (w @ x # r) = w # cut x r"
proof -
  assume "x \<notin> set w"
  then have "takeWhile (\<lambda>c. c \<noteq> x) (w @ x # r) = w" by (induction w) auto
  then show ?thesis by (subst cut.simps) simp
qed

lemma cut_nil [simp]: "cut x [] = []"
  by (simp add: cut.simps)

lemma cut_last: "x \<notin> set w \<Longrightarrow> w \<noteq> [] \<Longrightarrow> cut x w = [w]"
proof -
  assume w: "x \<notin> set w" "w \<noteq> []"
  then have t: "takeWhile (\<lambda>c. c \<noteq> x) w = w" by (auto simp: takeWhile_eq_all_conv)
  show ?thesis by (subst cut.simps) (simp add: t w Let_def)
qed

lemma cut_pieces: "\<forall>w\<in>set ws. x \<notin> set w \<Longrightarrow> cut x (concat (map (\<lambda>w. w @ [x]) ws) @ r) = ws @ cut x r"
  by (induction ws) (simp_all add: cut_cons)

text \<open>The line of a signature, without its line feed, and its words.\<close>

definition call_line :: "desc list \<times> nat \<times> bool \<Rightarrow> string" where
  "call_line s = butlast (call_text s)"

definition call_words :: "desc list \<times> nat \<times> bool \<Rightarrow> string list" where
  "call_words = (\<lambda>(ds, n, v). concat (map words_of ds) @ [show_nat n, if v then ''v'' else ''f''])"

lemma concat_words_text:
  "concat (map desc_text ds) = concat (map (\<lambda>w. w @ ''_'') (concat (map words_of ds)))"
  by (induction ds) (simp_all add: words_text)

lemma call_line_words:
  assumes "\<forall>d\<in>set ds. wf_desc d"
  shows "ifs_words (call_line (ds, n, v)) = call_words (ds, n, v)"
proof -
  have "CHR ''_'' \<notin> set (show_nat n)" using show_nat_digits [of "CHR ''_''"] by (auto simp: digit_def)
  then have "ifs_words (show_nat n @ CHR ''_'' # (if v then ''v'' else ''f'')) = [show_nat n, if v then ''v'' else ''f'']"
    unfolding ifs_words_def by (simp add: cut_cons cut_last)
  moreover have "\<forall>w\<in>set (concat (map words_of ds)). CHR ''_'' \<notin> set w"
    using assms words_clean by auto
  from cut_pieces [OF this] have "ifs_words (concat (map desc_text ds) @ r) = concat (map words_of ds) @ ifs_words r" for r
    unfolding concat_words_text ifs_words_def .
  ultimately show ?thesis by (simp add: call_line_def call_text_def call_words_def butlast_append)
qed

lemma join_words_snoc: "ws \<noteq> [] \<Longrightarrow> join_words (ws @ [w]) = join_words ws @ ''_'' @ w"
  by (induction ws rule: join_words.induct) simp_all

lemma join_words_text: "concat (map (\<lambda>w. w @ ''_'') ws) @ w = join_words (ws @ [w])"
  by (induction ws rule: join_words.induct) simp_all

lemma join_call_words: "join_words (call_words s) = call_line s"
proof (cases s)
  case (fields ds n v)
  show ?thesis
    using join_words_text [of "concat (map words_of ds) @ [show_nat n]" "if v then ''v'' else ''f''", symmetric]
    by (simp add: fields call_words_def call_line_def call_text_def butlast_append concat_words_text)
qed

section \<open>A type in English\<close>

definition record_tag :: "bool \<Rightarrow> string" where
  "record_tag s = (if s then ''struct'' else ''union'')"

definition tag_name :: "desc \<Rightarrow> string" where
  "tag_name d = join_words (words_of d)"

fun english :: "desc \<Rightarrow> string" where
  "english DPointer = '' pointer to void''"
| "english (DBuiltin c) = '' '' @ the (map_of type_words c)"
| "english (DComplex d) = english d @ '' complex''"
| "english (DAtomic d) = '' _Atomic'' @ english d"
| "english (DRecord s ds) = '' '' @ record_tag s @ '' __'' @ tag_name (DRecord s ds)"

fun tag_of :: "desc \<Rightarrow> desc option" where
  "tag_of (DAtomic d) = tag_of d"
| "tag_of (DRecord s ds) = Some (DRecord s ds)"
| "tag_of d = None"

definition kind_of :: "desc \<Rightarrow> string" where
  "kind_of d = (case d of DRecord s ds \<Rightarrow> record_tag s | _ \<Rightarrow> [])"

definition explained_as :: "string \<Rightarrow> desc \<Rightarrow> explained" where
  "explained_as t d = \<lparr>typ_text = t @ english d,
     tagWords = (case tag_of d of None \<Rightarrow> [] | Some r \<Rightarrow> words_of r),
     tag_kind = (case tag_of d of None \<Rightarrow> [] | Some r \<Rightarrow> kind_of r)\<rparr>"

lemma codes_no_record: "list_all (\<lambda>c. \<not> record_word c \<and> map_of type_words c \<noteq> None) codes"
  by (simp add: codes_def record_word_def type_words_def digit_def)

lemma code_word: "c \<in> set codes \<Longrightarrow> \<not> record_word c \<and> (\<exists>w. map_of type_words c = Some w)"
  using codes_no_record by (auto simp: list_all_iff)

definition opening_of :: "bool \<Rightarrow> nat \<Rightarrow> string" where
  "opening_of s n = (if s then ''s'' else ''u'') @ show_nat n"

lemma opening_word: "record_word (opening_of s n)" "field_count (opening_of s n) = n"
    "map_of type_words (opening_of s n) = None" "opening_of s n \<noteq> ''a''"
    "hd (opening_of s n) = CHR ''u'' \<longleftrightarrow> \<not> s"
proof -
  obtain c cs where c: "show_nat n = c # cs" "digit c" using show_nat_Cons by blast
  show "record_word (opening_of s n)" using c by (simp add: opening_of_def record_word_def)
  show "field_count (opening_of s n) = n" using read_show_nat [of n] by (simp add: opening_of_def field_count_def)
  show "map_of type_words (opening_of s n) = None"
    using c(2) unfolding opening_of_def c(1) by (auto simp: type_words_def digit_def)
  show "opening_of s n \<noteq> ''a''" "hd (opening_of s n) = CHR ''u'' \<longleftrightarrow> \<not> s" by (simp_all add: opening_of_def)
qed

lemma words_of_record: "words_of (DRecord s ds) = opening_of s (length ds) # concat (map words_of ds)"
  by (simp add: opening_of_def)

lemma tag_loop_Suc: "tag_loop (Suc k) (w # ws) name =
    tag_loop (k + (if record_word w then field_count w else 0)) ws (name @ [w])"
  by (subst tag_loop.simps) (simp add: head_word_def)

lemma tag_loop_members:
  "(\<And>d k rest name. d \<in> set ds \<Longrightarrow> tag_loop (Suc k) (words_of d @ rest) name = tag_loop k rest (name @ words_of d)) \<Longrightarrow>
   tag_loop (k + length ds) (concat (map words_of ds) @ rest) name = tag_loop k rest (name @ concat (map words_of ds))"
  by (induction ds arbitrary: name) simp_all

lemma tag_loop_member:
  "member_ok d \<Longrightarrow> tag_loop (Suc k) (words_of d @ rest) name = tag_loop k rest (name @ words_of d)"
proof (induction d arbitrary: k rest name)
  case (DBuiltin c)
  then show ?case using code_word [of c] by (simp add: tag_loop_Suc)
next
  case (DRecord s ds)
  then have "tag_loop (k + length ds) (concat (map words_of ds) @ rest) (name @ [opening_of s (length ds)]) =
      tag_loop k rest ((name @ [opening_of s (length ds)]) @ concat (map words_of ds))"
    by (intro tag_loop_members) simp
  then show ?case unfolding words_of_record by (simp add: tag_loop_Suc opening_word)
qed (auto simp: tag_loop_Suc record_word_def digit_def)

lemma explain_loop_0: "explain_loop 0 ws e = (e, ws)"
  by (simp add: explain_loop.simps)

lemma explain_loop_1: "explain_loop 1 (w # ws) e =
    (case map_of type_words w of
       Some t \<Rightarrow> (e\<lparr>typ_text := typ_text e @ '' '' @ t\<rparr>, ws)
     | None \<Rightarrow>
         if w = ''a'' then explain_loop 1 ws (e\<lparr>typ_text := typ_text e @ '' _Atomic''\<rparr>)
         else if record_word w then
           (case tag_loop (field_count w) ws [w] of (name, ws') \<Rightarrow>
            let tg = (if hd w = CHR ''u'' then ''union'' else ''struct'') in
            (\<lparr>typ_text = typ_text e @ '' '' @ tg @ '' __'' @ join_words name, tagWords = name, tag_kind = tg\<rparr>, ws'))
         else (e, ws))"
  by (subst explain_loop.simps) (simp add: explain_loop_0 head_word_def Let_def split: option.split)

lemma explain_loop_value:
  "value_ok d \<Longrightarrow> explain_loop 1 (words_of d @ rest) \<lparr>typ_text = t, tagWords = [], tag_kind = []\<rparr> = (explained_as t d, rest)"
proof (induction d arbitrary: t)
  case (DBuiltin c)
  then show ?case using code_word [of c] by (auto simp: explain_loop_1 [unfolded One_nat_def] explained_as_def)
next
  case (DRecord s ds)
  then have "tag_loop (0 + length ds) (concat (map words_of ds) @ rest) [opening_of s (length ds)] =
      tag_loop 0 rest ([opening_of s (length ds)] @ concat (map words_of ds))"
    by (intro tag_loop_members tag_loop_member) simp
  then have "tag_loop (length ds) (concat (map words_of ds) @ rest) [opening_of s (length ds)] =
      (words_of (DRecord s ds), rest)"
    by (simp add: tag_loop.simps [of 0] opening_of_def)
  then show ?case unfolding words_of_record
    by (simp add: explain_loop_1 [unfolded One_nat_def] opening_word explained_as_def words_of_record
      record_tag_def tag_name_def kind_of_def del: words_of.simps)
next
  case (DAtomic d)
  then show ?case by (simp add: explain_loop_1 [unfolded One_nat_def] explained_as_def type_words_def)
qed (auto simp: explain_loop_1 [unfolded One_nat_def] explained_as_def type_words_def)

lemma explain_type_value: "value_ok d \<Longrightarrow> explain_type (words_of d @ rest) = (explained_as [] d, rest)"
  unfolding explain_type_def by (rule explain_loop_value)


section \<open>The structures of a signature\<close>

text \<open>The structures in a type, the inner ones first, and those of a list that are not yet seen.\<close>

fun records :: "desc \<Rightarrow> desc list" where
  "records (DRecord s ds) = concat (map records ds) @ [DRecord s ds]"
| "records (DAtomic d) = records d"
| "records d = []"

fun fresh :: "desc list \<Rightarrow> desc list \<Rightarrow> desc list" where
  "fresh seen [] = []"
| "fresh seen (d # ds) = (if d \<in> set seen then fresh seen ds else d # fresh (seen @ [d]) ds)"

fun members :: "desc \<Rightarrow> desc list" where
  "members (DRecord s ds) = ds"
| "members d = []"

definition field_text :: "cdecl \<Rightarrow> nat \<times> desc \<Rightarrow> string" where
  "field_text cd = (\<lambda>(i, d). ''    '' @ declare_as cd False (''_'' @ show_nat i) (english d) @ eol)"

definition record_open :: "desc \<Rightarrow> string" where
  "record_open d = ''  '' @ kind_of d @ '' __'' @ tag_name d @ '' {'' @ eol"

definition record_text :: "cdecl \<Rightarrow> desc \<Rightarrow> string" where
  "record_text cd d = record_open d @ concat (map (field_text cd) (enumerate 0 (members d))) @ ''  };'' @ eol"

lemma fresh_append: "fresh seen (xs @ ys) = fresh seen xs @ fresh (seen @ fresh seen xs) ys"
  by (induction seen xs rule: fresh.induct) simp_all

lemma set_fresh: "set (fresh seen ds) = set ds - set seen"
  by (induction seen ds rule: fresh.induct) auto

lemma distinct_fresh: "distinct (fresh seen ds)"
  by (induction seen ds rule: fresh.induct) (auto simp: set_fresh)

lemma records_member_ok: "member_ok d \<Longrightarrow> r \<in> set (records d) \<Longrightarrow> member_ok r"
  by (induction d) auto

lemma records_value_ok: "value_ok d \<Longrightarrow> r \<in> set (records d) \<Longrightarrow> member_ok r"
  by (induction d rule: value_ok.induct) (auto dest: records_member_ok simp del: member_ok.simps simp: member_ok.simps(5))

lemma records_tag: "value_ok d \<Longrightarrow> records d = (case tag_of d of None \<Rightarrow> [] | Some r \<Rightarrow> records r)"
  by (induction d rule: value_ok.induct) simp_all

lemma tag_of_record: "tag_of d = Some r \<Longrightarrow> \<exists>s ds. r = DRecord s ds"
  by (induction d rule: tag_of.induct) auto

lemma tag_of_ok: "value_ok d \<Longrightarrow> tag_of d = Some r \<Longrightarrow> member_ok r"
  by (induction d rule: value_ok.induct) auto

lemma tag_name_text: "desc_text d = tag_name d @ ''_''"
proof -
  obtain ws w where d: "words_of d = ws @ [w]" by (metis rev_exhaust words_of_not_Nil)
  show ?thesis using words_text [of d] by (simp add: tag_name_def d flip: join_words_text)
qed

lemma tag_name_inject:
  assumes "wf_desc d" and "wf_desc e" and "tag_name d = tag_name e"
  shows "d = e"
proof -
  from assms(3) have "desc_text d = desc_text e" by (simp add: tag_name_text)
  with read_desc_text [OF assms(1) le_refl, of "[]"] read_desc_text [OF assms(2) le_refl, of "[]"]
  show ?thesis by simp
qed

lemma tag_seen:
  "list_all member_ok seen \<Longrightarrow> member_ok d \<Longrightarrow> tag_name d \<in> set (map tag_name seen) \<longleftrightarrow> d \<in> set seen"
  using tag_name_inject member_ok_wf by (auto simp: list_all_iff)

text \<open>What \<open>print_tagged\<close> prints for the structures \<open>rs\<close> when \<open>seen\<close> are declared, and the tags after it.\<close>

definition declares :: "cdecl \<Rightarrow> desc list \<Rightarrow> desc list \<Rightarrow> string \<times> string list" where
  "declares cd seen rs = (concat (map (record_text cd) (fresh seen rs)), map tag_name (seen @ fresh seen rs))"

lemma fresh_ok: "list_all member_ok seen \<Longrightarrow> list_all member_ok rs \<Longrightarrow> list_all member_ok (seen @ fresh seen rs)"
  by (auto simp: list_all_iff set_fresh)

lemma records_ok: "list_all value_ok ds \<Longrightarrow> list_all member_ok (concat (map records ds))"
  by (auto simp: list_all_iff dest: records_value_ok)

lemma print_fields_Nil: "print_fields cd i [] tags tx = ([], tags, tx)"
  by (simp add: print_fields.simps)

lemma print_fields_Cons:
  assumes "value_ok d"
    and "\<And>r. tag_of d = Some r \<Longrightarrow> print_tagged cd (words_of r) (kind_of r) (map tag_name seen) = declares cd seen (records r)"
  shows "print_fields cd i (words_of d @ ws) (map tag_name seen) tx =
    (case print_fields cd (Suc i) ws (map tag_name (seen @ fresh seen (records d))) (tx @ field_text cd (i, d)) of
       (printed, tags, tx') \<Rightarrow> (concat (map (record_text cd) (fresh seen (records d))) @ printed, tags, tx'))"
proof (cases "tag_of d")
  case None
  with assms(1) have "records d = []" by (simp add: records_tag)
  with None assms(1) show ?thesis
    by (subst print_fields.simps) (simp add: explain_type_value explained_as_def field_text_def split: prod.split)
next
  case (Some r)
  with assms(1) have "records d = records r" by (simp add: records_tag)
  with Some assms show ?thesis
    by (subst print_fields.simps)
      (simp add: explain_type_value explained_as_def field_text_def declares_def split: prod.split)
qed

lemma print_fields_members:
  assumes "\<And>d r seen. d \<in> set ds \<Longrightarrow> tag_of d = Some r \<Longrightarrow> list_all member_ok seen \<Longrightarrow>
      print_tagged cd (words_of r) (kind_of r) (map tag_name seen) = declares cd seen (records r)"
    and "list_all value_ok ds" and "list_all member_ok seen"
  shows "print_fields cd i (concat (map words_of ds)) (map tag_name seen) tx =
    (fst (declares cd seen (concat (map records ds))), snd (declares cd seen (concat (map records ds))),
     tx @ concat (map (field_text cd) (enumerate i ds)))"
  using assms
proof (induction ds arbitrary: i seen tx)
  case Nil
  then show ?case by (simp add: print_fields_Nil declares_def)
next
  case (Cons d ds)
  let ?seen = "seen @ fresh seen (records d)"
  have ok: "list_all member_ok ?seen"
    using Cons.prems records_ok [of "[d]"] by (intro fresh_ok) simp_all
  have "print_fields cd (Suc i) (concat (map words_of ds)) (map tag_name ?seen) (tx @ field_text cd (i, d)) =
    (fst (declares cd ?seen (concat (map records ds))), snd (declares cd ?seen (concat (map records ds))),
     (tx @ field_text cd (i, d)) @ concat (map (field_text cd) (enumerate (Suc i) ds)))"
    using Cons.prems(2) ok by (intro Cons.IH, intro Cons.prems(1)) simp_all
  moreover have "print_tagged cd (words_of r) (kind_of r) (map tag_name seen) = declares cd seen (records r)"
    if "tag_of d = Some r" for r using Cons.prems(1) [of d r seen] Cons.prems(3) that by simp
  ultimately show ?case using Cons.prems(2)
    by (simp add: print_fields_Cons) (simp add: declares_def fresh_append)
qed

lemma print_tagged_step:
  "print_tagged cd (words_of d) (kind_of d) tags =
    (case print_fields cd 0 (tl (words_of d)) tags (record_open d) of
       (printed, tags', tx) \<Rightarrow>
         if tag_name d \<in> set tags' then (printed, tags')
         else (printed @ tx @ ''  };'' @ eol, tags' @ [tag_name d]))"
  by (subst print_tagged.simps) (simp add: record_open_def tag_name_def split: prod.split)

lemma tl_words: "tl (words_of (DRecord s ds)) = concat (map words_of ds)"
  by simp

lemma print_tagged_record:
  "member_ok d \<Longrightarrow> tag_of d = Some r \<Longrightarrow> list_all member_ok seen \<Longrightarrow>
   print_tagged cd (words_of r) (kind_of r) (map tag_name seen) = declares cd seen (records r)"
proof (induction d arbitrary: r seen)
  case (DRecord s ds)
  let ?d = "DRecord s ds" and ?rs = "concat (map records ds)"
  have ok: "list_all value_ok ds" using DRecord.prems(1) by (auto simp: list_all_iff member_value_ok)
  have "print_tagged cd (words_of r) (kind_of r) (map tag_name seen) = declares cd seen (records r)"
    if "d \<in> set ds" "tag_of d = Some r" "list_all member_ok seen" for d r seen
    using DRecord.IH [of d r seen] DRecord.prems(1) that by simp
  from print_fields_members [OF this ok DRecord.prems(3)]
  have f: "print_fields cd 0 (concat (map words_of ds)) (map tag_name seen) (record_open ?d) =
    (concat (map (record_text cd) (fresh seen ?rs)), map tag_name (seen @ fresh seen ?rs),
     record_open ?d @ concat (map (field_text cd) (enumerate 0 ds)))"
    by (simp add: declares_def)
  have seen: "tag_name ?d \<in> set (map tag_name (seen @ fresh seen ?rs)) \<longleftrightarrow> ?d \<in> set (seen @ fresh seen ?rs)"
    using DRecord.prems records_ok [OF ok] fresh_ok by (intro tag_seen) auto
  have "print_tagged cd (words_of ?d) (kind_of ?d) (map tag_name seen) = declares cd seen (records ?d)"
    using f seen
    by (simp add: print_tagged_step tl_words declares_def fresh_append record_text_def del: words_of.simps)
  with DRecord.prems(2) show ?case by simp
qed simp_all

lemma print_tagged_value:
  assumes "value_ok d" and "list_all member_ok seen" and "explained_as [] d = e"
  shows "print_tagged cd (tagWords e) (tag_kind e) (map tag_name seen) = declares cd seen (records d)"
proof (cases "tag_of d")
  case None
  with assms show ?thesis
    by (subst print_tagged.simps) (auto simp: explained_as_def declares_def records_tag)
next
  case (Some r)
  with tag_of_record [OF Some] have "tag_of r = Some r" by auto
  with Some assms tag_of_ok [OF assms(1) Some] print_tagged_record [of r r seen] show ?thesis
    by (auto simp: explained_as_def records_tag)
qed


text \<open>Every structure comes after the structures among its members.\<close>

fun inner_first :: "desc list \<Rightarrow> desc list \<Rightarrow> bool" where
  "inner_first seen [] \<longleftrightarrow> True"
| "inner_first seen (d # ds) \<longleftrightarrow>
     (\<forall>r\<in>set (concat (map records (members d))). r \<in> set seen) \<and> inner_first (d # seen) ds"

lemma inner_first_mono: "inner_first seen ds \<Longrightarrow> set seen \<subseteq> set seen' \<Longrightarrow> inner_first seen' ds"
proof (induction seen ds arbitrary: seen' rule: inner_first.induct)
  case (2 seen d ds)
  have "inner_first (d # seen') ds" by (rule "2.IH") (use "2.prems" in auto)
  with "2.prems" show ?case by auto
qed simp

lemma inner_first_append:
  "inner_first seen (xs @ ys) \<longleftrightarrow> inner_first seen xs \<and> inner_first (rev xs @ seen) ys"
  by (induction seen xs rule: inner_first.induct) simp_all

lemma inner_first_fresh: "inner_first seen rs \<Longrightarrow> inner_first seen (fresh seen rs)"
proof (induction seen rs rule: fresh.induct)
  case (2 seen d ds)
  show ?case
  proof (cases "d \<in> set seen")
    case True
    with "2.prems" have "inner_first seen ds" by (auto intro: inner_first_mono)
    with True "2.IH"(1) show ?thesis by simp
  next
    case False
    with "2.prems" have "inner_first (seen @ [d]) ds" by (auto intro: inner_first_mono)
    with "2.IH"(2) [OF False] have "inner_first (d # seen) (fresh (seen @ [d]) ds)" by (auto intro: inner_first_mono)
    with False "2.prems" show ?thesis by simp
  qed
qed simp

lemma inner_first_concat:
  "(\<And>d. d \<in> set ds \<Longrightarrow> inner_first [] (records d)) \<Longrightarrow> inner_first seen (concat (map records ds))"
proof (induction ds arbitrary: seen)
  case (Cons d ds)
  have "inner_first seen (records d)" using Cons.prems [of d] by (auto intro: inner_first_mono)
  with Cons show ?case by (simp add: inner_first_append)
qed simp

lemma inner_first_records: "inner_first [] (records d)"
  by (induction d) (auto simp: inner_first_append intro: inner_first_concat)

section \<open>A trampoline\<close>

fun commas :: "string list \<Rightarrow> string" where
  "commas [] = []"
| "commas [x] = x"
| "commas (x # xs) = x @ '', '' @ commas xs"

definition parameters :: "desc list \<Rightarrow> nat \<Rightarrow> bool \<Rightarrow> string" where
  "parameters args n v = (if args = [] then ''void''
     else commas (map english (take n args)) @ (if v then (if n > 0 then '', ...'' else ''...'') else []))"

definition function_english :: "desc \<Rightarrow> desc list \<Rightarrow> nat \<Rightarrow> bool \<Rightarrow> string" where
  "function_english ret args n v = ''pointer to function ('' @ parameters args n v @ '') returning '' @ english ret"

definition receive_text :: "cdecl \<Rightarrow> nat \<times> desc \<Rightarrow> string" where
  "receive_text cd = (\<lambda>(i, d). let x = ''_'' @ show_nat i in
     ''  '' @ declare_as cd True x (english d) @ '';'' @ eol @
     ''  __recv_message(&'' @ x @ '', sizeof('' @ x @ ''));'' @ eol)"

text \<open>
  The trampoline of a signature, with the structures to declare: its name is the line of the
  signature, it receives every argument into a variable of the argument's type, in order, and
  calls the function with all of them, keeping its result unless that is void.
\<close>

definition trampoline_text :: "cdecl \<Rightarrow> desc list \<Rightarrow> desc \<Rightarrow> desc list \<Rightarrow> nat \<Rightarrow> bool \<Rightarrow> string" where
  "trampoline_text cd decls ret args n v =
     ''static void __'' @ call_line (ret # args, n, v) @ '' (void (*fptr)(), void *retval) {'' @ eol @
     concat (map (record_text cd) decls) @
     ''  '' @ declare_as cd True ''fun'' (function_english ret args n v) @ '' = '' @
       cast_into cd ''fptr'' (function_english ret args n v) @ '';'' @ eol @
     (if ret = DBuiltin ''v'' then []
      else ''  '' @ declare_as cd True ''typed_retval'' (''pointer to'' @ english ret) @ '' = retval;'' @ eol) @
     concat (map (receive_text cd) (enumerate 0 args)) @
     (if ret = DBuiltin ''v'' then ''  fun('' else ''  *typed_retval = fun('') @
     commas (map (\<lambda>i. ''_'' @ show_nat i) [0..<length args]) @ '');'' @ eol @ ''}'' @ eol"

lemma commas_Cons: "xs \<noteq> [] \<Longrightarrow> commas (x # xs) = x @ '', '' @ commas xs"
  by (cases xs) simp_all

lemma explain_args_commas:
  "n \<le> length ts \<Longrightarrow> explain_args n ts conn = (if n = 0 then [] else conn @ commas (take n ts))"
proof (induction n arbitrary: ts conn)
  case (Suc n)
  then obtain t ts' where ts: "ts = t # ts'" by (cases ts) auto
  show ?case
  proof (cases "n = 0")
    case False
    with Suc.prems ts have "take n ts' \<noteq> []" by auto
    with False Suc ts show ?thesis by (simp add: head_word_def commas_Cons)
  qed (simp add: ts head_word_def)
qed simp

lemma call_args_commas: "call_args n = commas (map (\<lambda>i. ''_'' @ show_nat i) [0..<n])"
proof (induction n)
  case (Suc n)
  have "commas (xs @ [x]) = (if xs = [] then x else commas xs @ '', '' @ x)" for xs x
    by (induction xs rule: commas.induct) simp_all
  with Suc show ?case by (simp add: call_args_def)
qed (simp add: call_args_def)

lemma english_void: "value_ok d \<Longrightarrow> english d = '' void'' \<longleftrightarrow> d = DBuiltin ''v''"
  by (cases d) (auto simp: codes_def type_words_def record_tag_def)

lemma words_left: "length (concat (map words_of ds) @ [a, b]) > 2 \<longleftrightarrow> ds \<noteq> []"
  by (cases ds) (simp_all add: length_greater_0_conv [THEN iffD2] trans_less_add1)

lemma more_words: "length (words_of d @ ws @ [a, b]) > 2"
  using words_of_not_Nil [of d] by (cases "words_of d") simp_all

lemma arg_types_values:
  "list_all value_ok ds \<Longrightarrow> arg_types (concat (map words_of ds) @ [a, b]) = (map english ds, [a, b])"
proof (induction ds)
  case Nil
  then show ?case by (simp add: arg_types.simps)
next
  case (Cons d ds)
  then show ?case using more_words [of d "concat (map words_of ds)" a b]
    by (subst arg_types.simps) (simp add: explain_type_value explained_as_def)
qed

lemma receive_args_values:
  "list_all value_ok ds \<Longrightarrow> receive_args cd i (concat (map words_of ds) @ [a, b]) =
     (concat (map (receive_text cd) (enumerate i ds)), i + length ds)"
proof (induction ds arbitrary: i)
  case Nil
  then show ?case by (simp add: receive_args.simps)
next
  case (Cons d ds)
  then show ?case using more_words [of d "concat (map words_of ds)" a b]
    by (subst receive_args.simps) (simp add: explain_type_value explained_as_def receive_text_def Let_def)
qed

lemma tagged_args_values:
  "list_all value_ok ds \<Longrightarrow> list_all member_ok seen \<Longrightarrow>
   tagged_args cd (concat (map words_of ds) @ [a, b]) (map tag_name seen) =
     fst (declares cd seen (concat (map records ds)))"
proof (induction ds arbitrary: seen)
  case Nil
  then show ?case by (simp add: tagged_args.simps declares_def)
next
  case (Cons d ds)
  let ?seen = "seen @ fresh seen (records d)"
  have "list_all member_ok ?seen" using Cons.prems records_ok [of "[d]"] by (intro fresh_ok) simp_all
  then have "tagged_args cd (concat (map words_of ds) @ [a, b]) (map tag_name ?seen) =
      fst (declares cd ?seen (concat (map records ds)))"
    using Cons.prems(1) by (intro Cons.IH) simp_all
  then show ?case using more_words [of d "concat (map words_of ds)" a b] Cons.prems
    by (subst tagged_args.simps) (simp add: explain_type_value print_tagged_value [OF _ _ refl] declares_def fresh_append)
qed

lemma print_tagged_types_values:
  assumes "list_all value_ok (ret # args)"
  shows "print_tagged_types cd (concat (map words_of (ret # args)) @ [a, b]) =
    concat (map (record_text cd) (fresh [] (concat (map records (ret # args)))))"
proof -
  have "list_all member_ok (fresh [] (records ret))" using assms records_ok [of "[ret]"] fresh_ok [of "[]"] by simp
  with tagged_args_values [of args "fresh [] (records ret)" cd a b] print_tagged_value [of ret "[]" _ cd] assms
  show ?thesis by (simp add: print_tagged_types_def explain_type_value declares_def fresh_append)
qed

lemma explain_fun_type_values:
  assumes "list_all value_ok (ret # args)" and "n \<le> length args"
  shows "explain_fun_type (call_words (ret # args, n, v)) = function_english ret args n v"
proof (cases "args = []")
  case True
  with assms show ?thesis
    by (simp add: explain_fun_type_def call_words_def explain_type_value explained_as_def function_english_def parameters_def)
next
  case False
  then have "length (concat (map words_of args) @ [show_nat n, if v then ''v'' else ''f'']) \<noteq> 2"
    using words_left [of args "show_nat n" "if v then ''v'' else ''f''"] by simp
  with assms False show ?thesis
    by (simp add: explain_fun_type_def call_words_def explain_type_value explained_as_def function_english_def
      parameters_def arg_types_values head_word_def read_show_nat explain_args_commas take_map del: length_append)
qed

lemma write_trampoline_values:
  assumes "list_all value_ok (ret # args)" and "n \<le> length args"
  shows "write_trampoline cd (call_words (ret # args, n, v)) =
    trampoline_text cd (fresh [] (concat (map records (ret # args)))) ret args n v"
proof -
  have "print_tagged_types cd (call_words (ret # args, n, v)) =
      concat (map (record_text cd) (fresh [] (concat (map records (ret # args)))))"
    using print_tagged_types_values [OF assms(1)] by (simp add: call_words_def)
  moreover have "explain_type (call_words (ret # args, n, v)) =
      (explained_as [] ret, concat (map words_of args) @ [show_nat n, if v then ''v'' else ''f''])"
    using assms(1) by (simp add: call_words_def explain_type_value)
  ultimately show ?thesis using assms
    by (simp add: write_trampoline_def join_call_words explain_fun_type_values trampoline_text_def
      receive_args_values call_args_commas explained_as_def english_void)
qed


section \<open>Property of the trampolines\<close>

text \<open>
  What lies outside: an atomic member counts as two words but as one member, so the structure
  ends too early and the word of the member's type is left over; and a complex type that is not
  one of the three floating types has no text.
\<close>

lemma atomic_member_left_over:
  "explain_type (words_of (DRecord True [DAtomic (DBuiltin c)]) @ rest) =
    (\<lparr>typ_text = '' struct __s1_a'', tagWords = [''s1'', ''a''], tag_kind = ''struct''\<rparr>, c # rest)"
proof -
  have "show_nat 1 = ''1''" by code_simp
  then have w: "opening_of True 1 = ''s1''" by (simp add: opening_of_def)
  have "tag_loop 1 (''a'' # c # rest) [''s1''] = ([''s1'', ''a''], c # rest)"
    by (simp add: tag_loop_Suc record_word_def tag_loop.simps [of 0])
  with w opening_word [of True 1] show ?thesis
    unfolding words_of_record explain_type_def
    by (simp add: explain_loop_1 [unfolded One_nat_def])
qed

lemma complex_integer_no_text: "typ_text (fst (explain_type (words_of (DComplex (DBuiltin ''si''))))) = []"
  by (simp add: explain_type_def explain_loop_1 [unfolded One_nat_def] type_words_def record_word_def)

text \<open>
  C13: For the line of every call signature that the script supports, src/scripts/make-trampolines
  writes the trampoline of that signature: a function named by the line, that declares the
  function pointer with the result type and the fixed parameters of the signature, receives
  every argument, in order, into a variable of the argument's own type, and calls the function
  with all of them, storing the result unless it is void. Each structure that occurs anywhere
  in the signature is declared in it exactly once, after the structures among its members.
\<close>
theorem trampoline_of_signature:
  assumes "\<forall>d\<in>set (ret # args). value_ok d" and "n \<le> length args"
  shows "\<exists>decls. write_trampoline cd (ifs_words (call_line (ret # args, n, v))) = trampoline_text cd decls ret args n v \<and>
    distinct decls \<and> set decls = (\<Union>d\<in>set (ret # args). set (records d)) \<and> inner_first [] decls"
proof (intro exI conjI)
  let ?rs = "concat (map records (ret # args))"
  have ok: "list_all value_ok (ret # args)" using assms(1) by (simp add: list_all_iff)
  show "write_trampoline cd (ifs_words (call_line (ret # args, n, v))) = trampoline_text cd (fresh [] ?rs) ret args n v"
    using assms(1) write_trampoline_values [OF ok assms(2)] by (subst call_line_words) (simp_all add: value_ok_wf)
  show "distinct (fresh [] ?rs)" by (rule distinct_fresh)
  show "set (fresh [] ?rs) = (\<Union>d\<in>set (ret # args). set (records d))" by (simp add: set_fresh)
  show "inner_first [] (fresh [] ?rs)" by (intro inner_first_fresh inner_first_concat inner_first_records)
qed

theorem trampoline_of_signature_witness:
  "\<forall>cd. \<exists>decls. write_trampoline cd (ifs_words ''si_s2_sc_s1_d_p_1_v'') =
     trampoline_text cd decls (DBuiltin ''si'')
       [DRecord True [DBuiltin ''sc'', DRecord True [DBuiltin ''d'']], DPointer] 1 True \<and>
     length decls = 2"
proof
  fix cd :: cdecl
  let ?args = "[DRecord True [DBuiltin ''sc'', DRecord True [DBuiltin ''d'']], DPointer]"
  have n: "show_nat 1 = ''1''" "show_nat 2 = ''2''" by code_simp+
  have l: "call_line (DBuiltin ''si'' # ?args, 1, True) = ''si_s2_sc_s1_d_p_1_v''"
    using n by (simp add: call_line_def call_text_def numeral_2_eq_2)
  obtain decls where d: "write_trampoline cd (ifs_words ''si_s2_sc_s1_d_p_1_v'') =
      trampoline_text cd decls (DBuiltin ''si'') ?args 1 True"
    "distinct decls" "set decls = (\<Union>d\<in>set (DBuiltin ''si'' # ?args). set (records d))"
    using trampoline_of_signature [of "DBuiltin ''si''" ?args 1 cd True] unfolding l by (auto simp: codes_def)
  have "card (set decls) = 2" unfolding d(3) by simp
  with d show "\<exists>decls. write_trampoline cd (ifs_words ''si_s2_sc_s1_d_p_1_v'') =
      trampoline_text cd decls (DBuiltin ''si'') ?args 1 True \<and> length decls = 2"
    using distinct_card [OF d(2)] by auto
qed

end
