(* ===== verification/NativeLink.thy ===== *)
theory NativeLink
  imports TrampolineSpec
begin

text \<open>
  How the driver (src/scripts/kcc) makes the native binary of a program: the outputs of the call
  site tool for all translation units are sorted, the lines of calls become trampolines and
  entries of the server's symbol table, the names are kept where the native libraries define
  them, and src/scripts/make-symbols writes the table. sort, uniq, awk and comm are written out
  as the pipeline uses them (sort in the order of the bytes); the symbols that the native
  libraries define (src/scripts/gccsymdump) are an argument.
\<close>

section \<open>The tools of the pipeline\<close>

definition tab :: char where
  "tab = CHR 0x09"

definition file_lines :: "string \<Rightarrow> string list" where
  "file_lines s = cut (CHR 0x0A) s"

definition sort_uniq :: "string list \<Rightarrow> string list" where
  "sort_uniq ls = remdups_adj (sort ls)"

text \<open>\<open>$1\<close> and \<open>$2\<close> of awk with a tab between the fields.\<close>

definition awk1 :: "string \<Rightarrow> string" where
  "awk1 l = takeWhile (\<lambda>c. c \<noteq> tab) l"

definition awk2 :: "string \<Rightarrow> string" where
  "awk2 l = takeWhile (\<lambda>c. c \<noteq> tab) (drop 1 (dropWhile (\<lambda>c. c \<noteq> tab) l))"

text \<open>\<open>comm -12\<close>: the lines that two sorted files share.\<close>

fun comm12 :: "string list \<Rightarrow> string list \<Rightarrow> string list" where
  "comm12 (x # xs) (y # ys) =
     (if x = y then x # comm12 xs ys else if x < y then comm12 xs (y # ys) else comm12 (x # xs) ys)"
| "comm12 xs ys = []"

section \<open>make-symbols\<close>

definition shell_words :: "string \<Rightarrow> string list" where
  "shell_words l = filter (\<lambda>w. w \<noteq> []) (cut (CHR '' '') (map (\<lambda>c. if c = tab then CHR '' '' else c) l))"

text \<open>The loop over the words: what it prints and the symbols it collects; \<open>--\<close> ends the declarations.\<close>

fun symbol_loop :: "bool \<Rightarrow> string list \<Rightarrow> string \<times> string list" where
  "symbol_loop is_extern [] = ([], [])"
| "symbol_loop is_extern (w # ws) =
     (if w = ''--'' then symbol_loop False ws
      else (case symbol_loop is_extern ws of (printed, symbols) \<Rightarrow>
        ((if is_extern \<and> w \<noteq> ''strcmp'' \<and> w \<noteq> ''strlen'' then ''void '' @ w @ ''();'' @ eol else []) @ printed,
         w # symbols)))"

definition quoted :: "string \<Rightarrow> string" where
  "quoted s = [CHR 0x22] @ s @ [CHR 0x22]"

fun symbol_entries :: "string \<Rightarrow> string list \<Rightarrow> string" where
  "symbol_entries conn [] = []"
| "symbol_entries conn (s # ss) =
     conn @ eol @ ''  {'' @ quoted s @ '',(void(*)())'' @ s @ ''}'' @ symbol_entries '','' ss"

definition make_symbols :: "string list \<Rightarrow> string" where
  "make_symbols ls = ''#include '' @ quoted ''server.h'' @ eol @ ''#include '' @ quoted ''trampolines.h'' @ eol @ eol @
     (case symbol_loop True (concat (map shell_words ls)) of (printed, symbols) \<Rightarrow>
        printed @ eol @ ''__symbol_t symbols[] = {'' @ symbol_entries [] symbols @ eol @ ''};'' @ eol)"

section \<open>The driver's pipeline\<close>

record native_files =
  trampolines_h :: string
  used_symbols :: "string list"
  symbols_c :: string

definition native_link :: "cdecl \<Rightarrow> string list \<Rightarrow> string list \<Rightarrow> native_files" where
  "native_link cd dumped trampolineFiles =
     (let trampolines = sort_uniq (file_lines (concat trampolineFiles));
          calls = filter (\<lambda>l. l \<noteq> []) (map awk1 trampolines);
          used = filter (\<lambda>l. l \<noteq> []) (map awk2 trampolines)
      in \<lparr>trampolines_h = make_trampolines cd calls,
          used_symbols = used,
          symbols_c = make_symbols (sort_uniq (map (\<lambda>l. ''__'' @ l) calls @ comm12 used dumped))\<rparr>)"

section \<open>The tools\<close>

lemma set_sort_uniq [simp]: "set (sort_uniq ls) = set ls"
  by (simp add: sort_uniq_def)

lemma sorted_remdups_adj_distinct: "sorted xs \<Longrightarrow> sorted (remdups_adj xs) \<and> distinct (remdups_adj xs)"
  by (induction xs rule: remdups_adj.induct) (auto simp: order.order_iff_strict)

lemma sort_uniq_sorted: "sorted (sort_uniq ls)" "distinct (sort_uniq ls)"
  using sorted_remdups_adj_distinct [of "sort ls"] by (simp_all add: sort_uniq_def)

lemma set_comm12: "sorted xs \<Longrightarrow> sorted ys \<Longrightarrow> set (comm12 xs ys) = set xs \<inter> set ys"
  by (induction xs ys rule: comm12.induct) auto

lemma file_lines_concat:
  "list_all line ls \<Longrightarrow> file_lines (concat ls) = map butlast ls"
proof -
  assume ls: "list_all line ls"
  have "\<forall>w\<in>set (map butlast ls). CHR 0x0A \<notin> set w" using ls by (auto simp: list_all_iff line_def)
  from cut_pieces [OF this, of "[]"]
  have "file_lines (concat (map (\<lambda>w. w @ [CHR 0x0A]) (map butlast ls))) = map butlast ls"
    by (simp add: file_lines_def)
  moreover have "map (\<lambda>w. w @ [CHR 0x0A]) (map butlast ls) = ls"
    using ls by (induction ls) (auto simp: line_def)
  ultimately show ?thesis by simp
qed

lemma shell_words_word:
  assumes "w \<noteq> []" and "CHR '' '' \<notin> set w" and "tab \<notin> set w"
  shows "shell_words w = [w]"
proof -
  have "map (\<lambda>c. if c = tab then CHR '' '' else c) w = w" using assms(3) by (induction w) auto
  with assms(1,2) show ?thesis by (simp add: shell_words_def cut_last)
qed

lemma symbol_loop_symbols: "''--'' \<notin> set ws \<Longrightarrow> snd (symbol_loop ext ws) = ws"
  by (induction ext ws rule: symbol_loop.induct) (auto split: prod.splits)


section \<open>The lines of a program\<close>

fun line_of :: "item \<Rightarrow> string" where
  "line_of (ICall s) = call_line s"
| "line_of (IName n) = tab # n"

fun calls_of :: "item list \<Rightarrow> (desc list \<times> nat \<times> bool) list" where
  "calls_of [] = []"
| "calls_of (ICall s # is) = s # calls_of is"
| "calls_of (IName n # is) = calls_of is"

fun names_of :: "item list \<Rightarrow> string list" where
  "names_of [] = []"
| "names_of (ICall s # is) = names_of is"
| "names_of (IName n # is) = n # names_of is"

definition name_ok :: "string \<Rightarrow> bool" where
  "name_ok n \<longleftrightarrow> n \<noteq> [] \<and> list_all (\<lambda>c. c \<notin> {tab, CHR 0x0A, CHR '' '', CHR ''-''}) n"

definition sig_ok :: "desc list \<times> nat \<times> bool \<Rightarrow> bool" where
  "sig_ok = (\<lambda>(ds, n, v). list_all value_ok ds \<and> n < length ds)"

fun item_ok :: "item \<Rightarrow> bool" where
  "item_ok (ICall s) \<longleftrightarrow> sig_ok s"
| "item_ok (IName n) \<longleftrightarrow> name_ok n"

lemma item_ok_wf: "item_ok i \<Longrightarrow> wf_item i"
  by (cases i) (auto simp: sig_ok_def name_ok_def list_all_iff value_ok_wf)

lemma butlast_item_text: "butlast (item_text i) = line_of i"
  by (cases i) (simp_all add: call_line_def tab_def)

lemma line_of_inject: "item_ok i \<Longrightarrow> item_ok j \<Longrightarrow> line_of i = line_of j \<longleftrightarrow> i = j"
proof
  assume ok: "item_ok i" "item_ok j" and eq: "line_of i = line_of j"
  obtain t u where t: "item_text i = t @ [CHR 0x0A]" and u: "item_text j = u @ [CHR 0x0A]"
    using item_line [OF item_ok_wf [OF ok(1)]] item_line [OF item_ok_wf [OF ok(2)]] by (auto simp: line_def)
  with eq have "item_text i = item_text j" by (simp flip: butlast_item_text)
  with ok item_ok_wf item_text_inject show "i = j" by blast
qed simp

lemma desc_text_chars: "wf_desc d \<Longrightarrow> c \<in> set (desc_text d) \<Longrightarrow> c \<notin> {tab, CHR '' '', CHR ''-''}"
proof (induction d)
  case (DBuiltin t)
  have "list_all (list_all (\<lambda>c. c \<notin> {CHR 0x09, CHR '' '', CHR ''-''})) codes" by code_simp
  with DBuiltin show ?case by (auto simp: list_all_iff tab_def)
next
  case (DRecord s ds)
  then show ?case using show_nat_digits [of c "length ds"] by (auto simp: digit_def tab_def split: if_splits)
qed (auto simp: tab_def)

lemma call_line_chars:
  assumes "sig_ok s" and "c \<in> set (call_line s)"
  shows "c \<notin> {tab, CHR '' '', CHR ''-''}"
proof (cases s)
  case (fields ds n v)
  from assms fields consider "c \<in> set (show_nat n)" | "c \<in> {CHR ''_'', CHR ''v'', CHR ''f''}" | d where "d \<in> set ds" "c \<in> set (desc_text d)"
    by (auto simp: call_line_def call_text_def butlast_append split: if_splits)
  then show ?thesis
    using show_nat_digits [of c n] desc_text_chars value_ok_wf assms(1) fields
    by cases (auto simp: digit_def tab_def sig_ok_def list_all_iff)
qed

lemma call_line_not_Nil: "call_line s \<noteq> []"
  by (cases s) (simp add: call_line_def call_text_def butlast_append)

lemma takeWhile_tab: "tab \<notin> set w \<Longrightarrow> takeWhile (\<lambda>c. c \<noteq> tab) w = w" "tab \<notin> set w \<Longrightarrow> dropWhile (\<lambda>c. c \<noteq> tab) w = []"
  by (induction w) auto

lemma awk_call [simp]: "sig_ok s \<Longrightarrow> awk1 (call_line s) = call_line s" "sig_ok s \<Longrightarrow> awk2 (call_line s) = []"
proof -
  assume "sig_ok s"
  then have "tab \<notin> set (call_line s)" using call_line_chars by blast
  note tw = takeWhile_tab [OF this]
  show "awk1 (call_line s) = call_line s" "awk2 (call_line s) = []" by (simp_all add: awk1_def awk2_def tw)
qed

lemma awk_name [simp]: "awk1 (tab # n) = []" "name_ok n \<Longrightarrow> awk2 (tab # n) = n"
  using takeWhile_tab(1) [of n] by (auto simp: awk1_def awk2_def name_ok_def list_all_iff)

lemma item_fields:
  "list_all item_ok is \<Longrightarrow> filter (\<lambda>l. l \<noteq> []) (map awk1 (map line_of is)) = map call_line (calls_of is)"
  "list_all item_ok is \<Longrightarrow> filter (\<lambda>l. l \<noteq> []) (map awk2 (map line_of is)) = names_of is"
  by (induction "is" rule: calls_of.induct) (simp_all add: call_line_not_Nil, simp add: name_ok_def)

lemma set_calls_of: "set (calls_of is) = {s. ICall s \<in> set is}"
  by (induction "is" rule: calls_of.induct) auto

lemma set_names_of: "set (names_of is) = {n. IName n \<in> set is}"
  by (induction "is" rule: names_of.induct) auto

lemma distinct_calls_of: "distinct is \<Longrightarrow> distinct (calls_of is)"
  by (induction "is" rule: calls_of.induct) (auto simp: set_calls_of)

lemma sorted_names_of: "sorted (map line_of is) \<Longrightarrow> sorted (names_of is)"
  by (induction "is" rule: names_of.induct) (auto simp: set_names_of)

lemma map_from: "\<forall>x\<in>set xs. \<exists>y\<in>Y. x = f y \<Longrightarrow> \<exists>ys. xs = map f ys \<and> set ys \<subseteq> Y"
proof (induction xs)
  case (Cons x xs)
  then obtain y ys where "y \<in> Y" "x = f y" "xs = map f ys" "set ys \<subseteq> Y" by auto
  then show ?case by (intro exI [of _ "y # ys"]) simp
qed simp

text \<open>The sorted lines are those of the distinct items.\<close>

lemma sorted_items:
  assumes ok: "list_all item_ok is"
  obtains js where "sort_uniq (map line_of is) = map line_of js" "distinct js" "set js = set is" "sorted (map line_of js)"
proof -
  let ?ls = "sort_uniq (map line_of is)"
  obtain js where js: "?ls = map line_of js" "set js \<subseteq> set is"
    using map_from [of ?ls "set is" line_of] by auto
  have "distinct (map line_of js)" using sort_uniq_sorted(2) [of "map line_of is"] js by simp
  then have "distinct js" by (rule distinct_map [THEN iffD1, THEN conjunct1])
  moreover have "inj_on line_of (set is)" using ok by (auto simp: inj_on_def list_all_iff line_of_inject)
  from inj_on_image_eq_iff [OF this js(2) subset_refl] have "set js = set is"
    using arg_cong [OF js(1), of set] by simp
  ultimately show ?thesis using that js sort_uniq_sorted(1) [of "map line_of is"] by auto
qed


section \<open>The native binary\<close>

definition trampoline :: "cdecl \<Rightarrow> desc list \<times> nat \<times> bool \<Rightarrow> string" where
  "trampoline cd = (\<lambda>(ds, n, v). trampoline_text cd (fresh [] (concat (map records ds))) (hd ds) (tl ds) n v)"

definition symbol_name :: "desc list \<times> nat \<times> bool \<Rightarrow> string" where
  "symbol_name s = ''__'' @ call_line s"

text \<open>The file of a symbol table: declarations of its symbols, and one entry for each.\<close>

definition symbols_file :: "string list \<Rightarrow> string" where
  "symbols_file syms = ''#include '' @ quoted ''server.h'' @ eol @ ''#include '' @ quoted ''trampolines.h'' @ eol @ eol @
     concat (map (\<lambda>w. ''void '' @ w @ ''();'' @ eol) (filter (\<lambda>w. w \<notin> {''strcmp'', ''strlen''}) syms)) @ eol @
     ''__symbol_t symbols[] = {'' @
     drop 1 (concat (map (\<lambda>s. '','' @ eol @ ''  {'' @ quoted s @ '',(void(*)())'' @ s @ ''}'') syms)) @
     eol @ ''};'' @ eol"

lemma symbol_loop_extern:
  "''--'' \<notin> set ws \<Longrightarrow> symbol_loop True ws =
     (concat (map (\<lambda>w. ''void '' @ w @ ''();'' @ eol) (filter (\<lambda>w. w \<notin> {''strcmp'', ''strlen''}) ws)), ws)"
proof (induction ws)
  case (Cons w ws)
  then have "w \<noteq> ''--''" and IH: "symbol_loop True ws =
     (concat (map (\<lambda>w. ''void '' @ w @ ''();'' @ eol) (filter (\<lambda>w. w \<notin> {''strcmp'', ''strlen''}) ws)), ws)"
    by (metis list.set_intros(1), metis list.set_intros(2))
  then show ?case by (cases "w \<in> {''strcmp'', ''strlen''}") (simp_all only: symbol_loop.simps IH, simp_all)
qed simp

lemma symbol_entries_more:
  "symbol_entries '','' ss = concat (map (\<lambda>s. '','' @ eol @ ''  {'' @ quoted s @ '',(void(*)())'' @ s @ ''}'') ss)"
  by (induction ss) simp_all

lemma symbol_entries_first:
  "symbol_entries [] ss = drop 1 (concat (map (\<lambda>s. '','' @ eol @ ''  {'' @ quoted s @ '',(void(*)())'' @ s @ ''}'') ss))"
  by (cases ss) (simp_all add: symbol_entries_more)

definition sym_ok :: "string \<Rightarrow> bool" where
  "sym_ok w \<longleftrightarrow> w \<noteq> [] \<and> list_all (\<lambda>c. c \<notin> {tab, CHR '' '', CHR ''-''}) w"

lemma symbol_name_ok: "sig_ok s \<Longrightarrow> sym_ok (symbol_name s)"
proof -
  assume "sig_ok s"
  from call_line_chars [OF this] have "list_all (\<lambda>c. c \<notin> {tab, CHR '' '', CHR ''-''}) (call_line s)"
    unfolding list_all_iff by blast
  then show ?thesis by (simp add: sym_ok_def symbol_name_def tab_def)
qed

lemma name_sym_ok: "item_ok (IName n) \<Longrightarrow> sym_ok n"
  by (auto simp: name_ok_def sym_ok_def list_all_iff)

lemma sym_okD: "sym_ok w \<Longrightarrow> w \<noteq> [] \<and> CHR '' '' \<notin> set w \<and> tab \<notin> set w \<and> CHR ''-'' \<notin> set w"
  unfolding sym_ok_def list_all_iff by blast

lemma sym_ok_words: "sym_ok w \<Longrightarrow> shell_words w = [w]"
  using sym_okD by (intro shell_words_word) blast+

lemma sym_ok_hyphens: "\<not> sym_ok ''--''"
  using sym_okD by fastforce

lemma shell_words_symbols: "list_all sym_ok ws \<Longrightarrow> concat (map shell_words ws) = ws"
  by (induction ws) (simp_all add: sym_ok_words)

lemma make_symbols_file: "list_all sym_ok ws \<Longrightarrow> make_symbols ws = symbols_file ws"
proof -
  assume ok: "list_all sym_ok ws"
  then have "''--'' \<notin> set ws" unfolding list_all_iff using sym_ok_hyphens by blast
  then show ?thesis
    by (simp add: make_symbols_def symbols_file_def shell_words_symbols [OF ok] symbol_loop_extern symbol_entries_first)
qed

lemma write_trampoline_call:
  assumes "sig_ok s"
  shows "write_trampoline cd (ifs_words (call_line s)) = trampoline cd s"
proof -
  obtain ret args n v where s: "s = (ret # args, n, v)" using assms by (cases s; cases "fst s") (auto simp: sig_ok_def)
  with assms have ok: "list_all value_ok (ret # args)" "n \<le> length args" by (auto simp: sig_ok_def)
  then have "ifs_words (call_line s) = call_words s"
    unfolding s by (intro call_line_words) (auto simp: list_all_iff value_ok_wf)
  with write_trampoline_values [OF ok, of cd v] show ?thesis by (simp add: s trampoline_def)
qed

lemma make_trampolines_calls:
  "list_all sig_ok ss \<Longrightarrow> make_trampolines cd (map call_line ss) = make_trampolines cd [] @ concat (map (trampoline cd) ss)"
  by (induction ss) (simp_all add: make_trampolines_def write_trampoline_call)

lemma concat_items: "concat (map (\<lambda>is. concat (map f is)) iss) = concat (map f (concat iss))"
  by (induction iss) simp_all

lemma program_lines:
  assumes "map (items ct) vss = map Some iss" and "list_all item_ok (concat iss)"
  shows "file_lines (concat (map (\<lambda>vs. fst (call_sites ct vs)) vss)) = map line_of (concat iss)"
proof -
  have "map (\<lambda>vs. fst (call_sites ct vs)) vss = map (\<lambda>is. concat (map item_text is)) iss"
    using assms(1) by (induction vss arbitrary: iss) (auto simp: call_sites_items)
  then have "concat (map (\<lambda>vs. fst (call_sites ct vs)) vss) = concat (map item_text (concat iss))"
    by (simp only: concat_items)
  moreover have "list_all line (map item_text (concat iss))"
    using assms(2) by (auto simp: list_all_iff intro!: item_line item_ok_wf)
  ultimately show ?thesis by (simp add: file_lines_concat butlast_item_text map_concat comp_def)
qed

section \<open>One unit at a time\<close>

text \<open>
  The driver already sorts the output of the call site tool for each translation unit when it
  writes the unit's file. The result of the link is the same as without that.
\<close>

definition unit_trampolines :: "string \<Rightarrow> string" where
  "unit_trampolines s = concat (map (\<lambda>l. l @ eol) (sort_uniq (file_lines s)))"

lemma sort_uniq_cong: "set xs = set ys \<Longrightarrow> sort_uniq xs = sort_uniq ys"
  using sort_uniq_sorted [of xs] sort_uniq_sorted [of ys] by (intro sorted_distinct_set_unique) simp_all

lemma file_lines_pieces: "\<forall>l\<in>set ls. CHR 0x0A \<notin> set l \<Longrightarrow> file_lines (concat (map (\<lambda>l. l @ eol) ls)) = ls"
  using cut_pieces [of ls "CHR 0x0A" "[]"] by (simp add: file_lines_def eol_def)

lemma native_link_per_unit:
  assumes "list_all (list_all line) lss"
  shows "native_link cd dumped (map (\<lambda>ls. unit_trampolines (concat ls)) lss) =
    native_link cd dumped (map concat lss)"
proof -
  have no_eol: "\<forall>ls\<in>set lss. \<forall>l\<in>set (map butlast ls). CHR 0x0A \<notin> set l"
    using assms by (fastforce simp: list_all_iff line_def)
  have "unit_trampolines (concat ls) = concat (map (\<lambda>l. l @ eol) (sort_uniq (map butlast ls)))"
    if "ls \<in> set lss" for ls
    using assms that by (simp add: unit_trampolines_def list_all_iff file_lines_concat)
  then have "concat (map (\<lambda>ls. unit_trampolines (concat ls)) lss) =
      concat (map (\<lambda>l. l @ eol) (concat (map (\<lambda>ls. sort_uniq (map butlast ls)) lss)))"
    by (induction lss) simp_all
  moreover have "\<forall>l\<in>set (concat (map (\<lambda>ls. sort_uniq (map butlast ls)) lss)). CHR 0x0A \<notin> set l"
    using no_eol by auto
  ultimately have "file_lines (concat (map (\<lambda>ls. unit_trampolines (concat ls)) lss)) =
      concat (map (\<lambda>ls. sort_uniq (map butlast ls)) lss)" by (simp only: file_lines_pieces)
  moreover have "concat (map concat lss) = concat (concat lss)" by (induction lss) simp_all
  then have "file_lines (concat (map concat lss)) = map butlast (concat lss)"
    using assms by (simp add: list_all_iff file_lines_concat)
  moreover have "sort_uniq (concat (map (\<lambda>ls. sort_uniq (map butlast ls)) lss)) =
      sort_uniq (map butlast (concat lss))" by (rule sort_uniq_cong) auto
  ultimately show ?thesis by (simp add: native_link_def)
qed

text \<open>
  C12: The native binary of a program has exactly one trampoline for every call signature that
  occurs in any of its translation units, however often and in whatever order the calls occur:
  the driver's pipeline gives a trampolines.h that consists of the trampolines of the distinct
  signatures, and a symbols.c whose table has, without repetition, the name of each of these
  trampolines and the external names in use that the native libraries define. (The calls are of
  the supported kinds and pass all fixed parameters; names have no blanks or hyphens.)
\<close>
theorem native_link_complete:
  assumes "map (items ct) vss = map Some iss" and "list_all item_ok (concat iss)" and "sorted dumped"
  shows "\<exists>sigs syms.
    distinct sigs \<and> set sigs = {s. ICall s \<in> set (concat iss)} \<and>
    distinct syms \<and> set syms = symbol_name ` set sigs \<union> {n \<in> set dumped. IName n \<in> set (concat iss)} \<and>
    trampolines_h (native_link cd dumped (map (\<lambda>vs. fst (call_sites ct vs)) vss)) =
      make_trampolines cd [] @ concat (map (trampoline cd) sigs) \<and>
    symbols_c (native_link cd dumped (map (\<lambda>vs. fst (call_sites ct vs)) vss)) = symbols_file syms"
proof -
  obtain js where js: "sort_uniq (map line_of (concat iss)) = map line_of js" "distinct js"
    "set js = set (concat iss)" "sorted (map line_of js)" using sorted_items [OF assms(2)] .
  let ?syms = "sort_uniq (map (\<lambda>l. ''__'' @ l) (map call_line (calls_of js)) @ comm12 (names_of js) dumped)"
  have ok: "list_all item_ok js" using assms(2) js(3) by (simp add: list_all_iff)
  then have sigs: "list_all sig_ok (calls_of js)" by (auto simp: list_all_iff set_calls_of)
  have syms: "set ?syms = symbol_name ` set (calls_of js) \<union> {n \<in> set dumped. IName n \<in> set js}"
    using set_comm12 [OF sorted_names_of [OF js(4)] assms(3)]
    by (auto simp: set_names_of symbol_name_def image_image)
  have sym_ok: "list_all sym_ok ?syms" using sigs ok
    unfolding list_all_iff syms by (auto simp: symbol_name_ok intro: name_sym_ok)
  have link: "native_link cd dumped (map (\<lambda>vs. fst (call_sites ct vs)) vss) =
    \<lparr>trampolines_h = make_trampolines cd (map call_line (calls_of js)), used_symbols = names_of js,
     symbols_c = make_symbols ?syms\<rparr>"
    unfolding native_link_def program_lines [OF assms(1,2)] js(1) item_fields [OF ok] Let_def ..
  show ?thesis
  proof (intro exI conjI)
    show "distinct (calls_of js)" using js(2) by (rule distinct_calls_of)
    show "distinct ?syms" by (rule sort_uniq_sorted(2))
    show "set ?syms = symbol_name ` set (calls_of js) \<union> {n \<in> set dumped. IName n \<in> set (concat iss)}"
      using syms unfolding js(3) .
  qed (simp_all only: link js(3) set_calls_of make_trampolines_calls [OF sigs] make_symbols_file [OF sym_ok] native_files.simps)
qed

theorem native_link_complete_witness:
  "\<forall>cd. \<exists>syms. distinct syms \<and> set syms = {''__si_p_1_v'', ''puts''} \<and>
     symbols_c (native_link cd [''free'', ''puts'']
       (map (\<lambda>vs. fst (call_sites ''sc'' vs))
         [[VNameRef True ''puts'', VCall \<lparr>ce_function = Some (Proto (BuiltinType ''Int'') 1 True), ce_args = [PointerType]\<rparr>],
          [VCall \<lparr>ce_function = Some (Proto (BuiltinType ''Int'') 1 True), ce_args = [DecayedType]\<rparr>, VNameRef True ''mine'']]))
     = symbols_file syms"
proof
  fix cd :: cdecl
  let ?s = "([DBuiltin ''si'', DPointer], 1, True) :: desc list \<times> nat \<times> bool"
  let ?vss = "[[VNameRef True ''puts'', VCall \<lparr>ce_function = Some (Proto (BuiltinType ''Int'') 1 True), ce_args = [PointerType]\<rparr>],
          [VCall \<lparr>ce_function = Some (Proto (BuiltinType ''Int'') 1 True), ce_args = [DecayedType]\<rparr>, VNameRef True ''mine'']]"
  let ?iss = "[[IName ''puts'', ICall ?s], [ICall ?s, IName ''mine'']]"
  have n: "show_nat 1 = ''1''" by code_simp
  have name: "symbol_name ?s = ''__si_p_1_v''" using n by (simp add: symbol_name_def call_line_def call_text_def)
  have 1: "map (items ''sc'') ?vss = map Some ?iss" by (simp add: items_def signature_def builtin_codes_def)
  have 2: "list_all item_ok (concat ?iss)" by (simp add: sig_ok_def name_ok_def codes_def tab_def)
  have 3: "sorted [''free'', ''puts'']" by code_simp
  obtain sigs syms where r: "set sigs = {s. ICall s \<in> set (concat ?iss)}" "distinct syms"
    "set syms = symbol_name ` set sigs \<union> {n \<in> set [''free'', ''puts'']. IName n \<in> set (concat ?iss)}"
    "symbols_c (native_link cd [''free'', ''puts''] (map (\<lambda>vs. fst (call_sites ''sc'' vs)) ?vss)) = symbols_file syms"
    using native_link_complete [OF 1 2 3, of cd] by blast
  have "{s. ICall s \<in> set (concat ?iss)} = {?s}" by auto
  with r(1,3) name have "set syms = {''__si_p_1_v'', ''puts''}" by auto
  with r(2,4) show "\<exists>syms. distinct syms \<and> set syms = {''__si_p_1_v'', ''puts''} \<and>
     symbols_c (native_link cd [''free'', ''puts''] (map (\<lambda>vs. fst (call_sites ''sc'' vs)) ?vss)) = symbols_file syms"
    by blast
qed

end
