(* ===== verification/ExtractRefs.thy ===== *)
theory ExtractRefs
  imports KastPrint
begin

text \<open>
  The program src/scripts/extract-references.cpp: it walks a directory, reads the files of
  the semantics, and prints as JSON every reference to a section of the standard that a comment
  makes (\<open>@ref document section\<close>), with the file and the line.

  The model has the program's structures and functions, and what they use of the C++ library:
  the matching of the one regular expression as the backtracking search of the library, the
  reading of lines, the extension of a path, and the traversal of a directory tree.
\<close>

section \<open>Structures and their output\<close>

record FileContext =
  fileName :: string
  lineNumber :: int

record DocumentRef =
  document :: string
  ref_section :: string

record Entry =
  fileContext :: FileContext
  documentRef :: DocumentRef

abbreviation nl :: char where
  "nl \<equiv> CHR 0x0A"

abbreviation quote :: char where
  "quote \<equiv> CHR 0x22"

definition print_FileContext :: "FileContext \<Rightarrow> string" where
  "print_FileContext fc = ''{ '' @ [quote] @ ''file'' @ [quote] @ '': '' @ [quote] @ fileName fc @
     [quote] @ '', '' @ [quote] @ ''line'' @ [quote] @ '': '' @ [quote] @ show_int (lineNumber fc) @ [quote] @ '' }''"

definition print_DocumentRef :: "DocumentRef \<Rightarrow> string" where
  "print_DocumentRef r = ''{ '' @ [quote] @ ''document'' @ [quote] @ '': '' @ [quote] @ document r @ [quote] @
     '', '' @ [quote] @ ''section'' @ [quote] @ '': '' @ [quote] @ ref_section r @ [quote] @ '' }''"

definition print_optional :: "DocumentRef option \<Rightarrow> string" where
  "print_optional ref = (case ref of Some r \<Rightarrow> print_DocumentRef r | None \<Rightarrow> ''empty'')"

definition print_Entry :: "Entry \<Rightarrow> string" where
  "print_Entry e = ''{'' @ [nl] @ ''    '' @ [quote] @ ''document'' @ [quote] @ '': '' @
     print_DocumentRef (documentRef e) @ '','' @ [nl] @ ''    '' @ [quote] @ ''semantics'' @ [quote] @ '': '' @
     print_FileContext (fileContext e) @ [nl] @ ''  }''"

text \<open>The loop of the output of \<open>Entries\<close>, from index \<open>i\<close> on.\<close>

function print_from :: "Entry list \<Rightarrow> nat \<Rightarrow> string" where
  "print_from entries i = (if i < length entries
     then ''  '' @ print_Entry (entries ! i) @ (if i < length entries - 1 then '','' @ [nl] else '''') @
       print_from entries (i + 1)
     else '''')"
  by pat_completeness auto
termination
  by (relation "measure (\<lambda>(entries, i). length entries - i)") auto

declare print_from.simps [simp del]

definition print_Entries :: "Entry list \<Rightarrow> string" where
  "print_Entries entries = (if entries = [] then ''[]''
     else ''['' @ [nl] @ print_from entries 0 @ [nl] @ '']'' @ [nl])"

section \<open>The regular expression\<close>

text \<open>
  An expression as a sequence of items: a character, or a group that captures one or more
  characters that are not white space. The library tries the longest run first and goes back to
  shorter ones; a search tries the start positions from the left.
\<close>

definition space :: "char \<Rightarrow> bool" where
  "space c \<longleftrightarrow> c \<in> {CHR 0x09, CHR 0x0A, CHR 0x0B, CHR 0x0C, CHR 0x0D, CHR 0x20}"

abbreviation word_char :: "char \<Rightarrow> bool" where
  "word_char c \<equiv> \<not> space c"

datatype ritem = Lit char | Group

fun first_some :: "'a option list \<Rightarrow> 'a option" where
  "first_some [] = None"
| "first_some (x # xs) = (case x of Some a \<Rightarrow> Some a | None \<Rightarrow> first_some xs)"

primrec regex_match :: "ritem list \<Rightarrow> string \<Rightarrow> string list option" where
  "regex_match [] = (\<lambda>s. Some [])"
| "regex_match (r # rs) = (\<lambda>s. case r of
     Lit c \<Rightarrow> (case s of [] \<Rightarrow> None | x # xs \<Rightarrow> if x = c then regex_match rs xs else None)
   | Group \<Rightarrow> first_some (map (\<lambda>n. map_option ((#) (take n s)) (regex_match rs (drop n s)))
       (rev [1 ..< Suc (length (takeWhile word_char s))])))"

declare regex_match.simps [simp del]

definition regex_search :: "ritem list \<Rightarrow> string \<Rightarrow> string list option" where
  "regex_search r line = first_some (map (\<lambda>i. regex_match r (drop i line)) [0 ..< Suc (length line)])"

definition regex :: "ritem list" where
  "regex = map Lit ''@ref '' @ [Group, Lit CHR 0x20, Group]"

text \<open>\<open>result\<close> has the whole match and the captured groups.\<close>

definition refFromLine :: "string \<Rightarrow> DocumentRef option" where
  "refFromLine line = (case regex_search regex line of
     Some groups \<Rightarrow>
       (if 1 + length groups = 2 then Some \<lparr>document = groups ! 0, ref_section = ''''\<rparr>
        else if 1 + length groups = 3 then Some \<lparr>document = groups ! 0, ref_section = groups ! 1\<rparr>
        else None)
   | None \<Rightarrow> None)"

section \<open>Reading files\<close>

datatype er_error =
    CannotRead string
  | CannotList string
  | LineOverflow

text \<open>\<open>std::getline\<close>: the line and the rest of the input, or nothing at the end of the input.\<close>

definition getline :: "string \<Rightarrow> (string \<times> string) option" where
  "getline is = (if is = [] then None
     else let line = takeWhile (\<lambda>c. c \<noteq> nl) is in Some (line, drop (Suc (length line)) is))"

lemma getline_shorter: "getline is = Some (line, rest) \<Longrightarrow> length rest < length is"
  by (cases "is") (auto simp: getline_def Let_def)

text \<open>
  The loop over the lines, with the entries found so far; an \<open>int\<close> counts the lines.
\<close>

function read_lines :: "FileContext \<Rightarrow> Entry list \<Rightarrow> string \<Rightarrow> er_error + Entry list" where
  "read_lines fc entries is = (case getline is of
     None \<Rightarrow> Inr entries
   | Some (line, rest) \<Rightarrow>
       (let entries' = (case refFromLine line of
            Some ref \<Rightarrow> entries @ [\<lparr>fileContext = fc, documentRef = ref\<rparr>]
          | None \<Rightarrow> entries)
        in if lineNumber fc = 2147483647 then Inl LineOverflow
           else read_lines (fc\<lparr>lineNumber := lineNumber fc + 1\<rparr>) entries' rest))"
  by pat_completeness auto
termination
  by (relation "measure (\<lambda>(fc, entries, is). length is)") (auto simp: getline_shorter)

declare read_lines.simps [simp del]

definition addEntriesFromIstream :: "Entry list \<Rightarrow> string \<Rightarrow> string \<Rightarrow> er_error + Entry list" where
  "addEntriesFromIstream entries path is = read_lines \<lparr>fileName = path, lineNumber = 1\<rparr> entries is"

section \<open>Paths and the file system\<close>

definition filename :: "string \<Rightarrow> string" where
  "filename p = rev (takeWhile (\<lambda>c. c \<noteq> CHR 0x2F) (rev p))"

text \<open>
  The extension begins at the last period of the file name, unless that is its first character
  or the name is \<open>..\<close>.
\<close>

definition extension :: "string \<Rightarrow> string" where
  "extension p = (let f = filename p; e = rev (takeWhile (\<lambda>c. c \<noteq> CHR 0x2E) (rev f)) in
     if f = ''..'' \<or> length f \<le> Suc (length e) then '''' else CHR 0x2E # e)"

definition path_append :: "string \<Rightarrow> string \<Rightarrow> string" where
  "path_append p name = (if filename p = '''' then p @ name else p @ ''/'' @ name)"

text \<open>
  A regular file has its text, unless it cannot be opened; a directory its entries in the order
  in which the system lists them, unless it cannot be listed. Anything else has what opening it
  as a file gives, among it a link to a directory, which the traversal does not follow. A
  directory opened as a file gives no characters.
\<close>

datatype fs_node =
    File "string option"
  | Dir "(string \<times> fs_node) list option"
  | Other "string option"

fun open_text :: "fs_node \<Rightarrow> string option" where
  "open_text (File t) = t"
| "open_text (Dir es) = map_option (\<lambda>_. '''') es"
| "open_text (Other t) = t"

definition addEntriesFromRegularFile :: "Entry list \<Rightarrow> string \<Rightarrow> fs_node \<Rightarrow> er_error + Entry list" where
  "addEntriesFromRegularFile entries filepath n =
     (if extension filepath \<noteq> ''.k'' \<and> extension filepath \<noteq> ''.C'' then Inr entries
      else case open_text n of
        None \<Rightarrow> Inl (CannotRead filepath)
      | Some t \<Rightarrow> addEntriesFromIstream entries filepath t)"

text \<open>
  The iteration over a directory: each entry, and after a directory the entries below it. A
  directory below that cannot be listed stops the iteration with an exception, after the loop
  has seen it.
\<close>

datatype iteration = At string fs_node | Stop er_error

fun recursive_directory_iterator :: "string \<Rightarrow> (string \<times> fs_node) list \<Rightarrow> iteration list" where
  "recursive_directory_iterator p [] = []"
| "recursive_directory_iterator p ((name, Dir (Some below)) # rest) =
     At (path_append p name) (Dir (Some below)) #
     recursive_directory_iterator (path_append p name) below @ recursive_directory_iterator p rest"
| "recursive_directory_iterator p ((name, Dir None) # rest) =
     At (path_append p name) (Dir None) # [Stop (CannotList (path_append p name))]"
| "recursive_directory_iterator p ((name, File t) # rest) =
     At (path_append p name) (File t) # recursive_directory_iterator p rest"
| "recursive_directory_iterator p ((name, Other t) # rest) =
     At (path_append p name) (Other t) # recursive_directory_iterator p rest"

fun for_each :: "iteration list \<Rightarrow> Entry list \<Rightarrow> er_error + Entry list" where
  "for_each [] entries = Inr entries"
| "for_each (At p n # rest) entries = bindr (addEntriesFromRegularFile entries p n) (for_each rest)"
| "for_each (Stop e # rest) entries = Inl e"

definition addEntriesFromDirectory :: "Entry list \<Rightarrow> string \<Rightarrow> fs_node \<Rightarrow> er_error + Entry list" where
  "addEntriesFromDirectory entries dirpath n = (case n of
     Dir (Some es) \<Rightarrow> for_each (recursive_directory_iterator dirpath es) entries
   | _ \<Rightarrow> Inl (CannotList dirpath))"

text \<open>The node a path names, links followed; \<open>None\<close> when there is none.\<close>

definition addEntriesFromPath :: "Entry list \<Rightarrow> string \<Rightarrow> fs_node option \<Rightarrow> er_error + Entry list" where
  "addEntriesFromPath entries p n = (case n of
     Some (File t) \<Rightarrow> addEntriesFromRegularFile entries p (File t)
   | Some (Dir es) \<Rightarrow> addEntriesFromDirectory entries p (Dir es)
   | _ \<Rightarrow> Inr entries)"

definition entriesFromPath :: "string \<Rightarrow> fs_node option \<Rightarrow> er_error + Entry list" where
  "entriesFromPath path n = addEntriesFromPath [] path n"

section \<open>main\<close>

text \<open>
  The text on the standard output, the error that is reported on the standard error, and the
  status. \<open>system\<close> is the file system at a path. The usage has the name of the program, unless the
  arguments are empty and the name is a null pointer. An error without an exception, the overflow
  of the line number, is undefined behaviour of the program.
\<close>

datatype er_report = NoReport | Usage "string option" | Error er_error

definition er_main :: "(string \<Rightarrow> fs_node option) \<Rightarrow> string list \<Rightarrow> string \<times> er_report \<times> int" where
  "er_main system argv =
     (if length argv \<noteq> 2 then ('''', Usage (case argv of [] \<Rightarrow> None | name # _ \<Rightarrow> Some name), 1)
      else case entriesFromPath (argv ! 1) (system (argv ! 1)) of
        Inr entries \<Rightarrow> (print_Entries entries, NoReport, 0)
      | Inl e \<Rightarrow> ('''', Error e, 0))"

section \<open>What a reference is\<close>

text \<open>
  A reference at a position of a line: the mark, a space, a word, a space, and a word that ends
  where the line ends or white space follows.
\<close>

definition reference_at :: "string \<Rightarrow> nat \<Rightarrow> DocumentRef \<Rightarrow> bool" where
  "reference_at line i r \<longleftrightarrow> (\<exists>post. drop i line = ''@ref '' @ document r @ '' '' @ ref_section r @ post \<and>
     document r \<noteq> [] \<and> ref_section r \<noteq> [] \<and> (\<forall>c\<in>set (document r @ ref_section r). word_char c) \<and>
     (post = [] \<or> space (hd post)))"

lemma first_some_None: "first_some xs = None \<longleftrightarrow> (\<forall>x\<in>set xs. x = None)"
  by (induction xs) (auto split: option.splits)

lemma first_some_longest:
  assumes "\<And>n. 1 \<le> n \<Longrightarrow> n < k \<Longrightarrow> f n = None"
  shows "first_some (map f (rev [1 ..< Suc k])) = (if k = 0 then None else f k)"
proof (cases "k = 0")
  case False
  then have top: "rev [1 ..< Suc k] = k # rev [1 ..< k]" by simp
  have "first_some (map f (rev [1 ..< k])) = None"
    unfolding first_some_None using assms by auto
  with False show ?thesis unfolding top by (simp split: option.split)
qed simp

lemma take_takeWhile: "take (length (takeWhile P s)) s = takeWhile P s"
  by (simp add: takeWhile_eq_take [symmetric])

lemma match_last_group:
  "regex_match [Group] s = (let w = takeWhile word_char s in if w = [] then None else Some [w])"
proof (cases "takeWhile word_char s = []")
  case False
  then have top: "rev [1 ..< Suc (length (takeWhile word_char s))] =
      length (takeWhile word_char s) # rev [1 ..< length (takeWhile word_char s)]" by (simp add: Suc_le_eq)
  with False show ?thesis unfolding regex_match.simps ritem.case top by (simp add: Let_def take_takeWhile)
qed (simp add: regex_match.simps)

lemma match_group_space:
  "regex_match (Group # Lit CHR 0x20 # rs) s =
     (let w = takeWhile word_char s in if w = [] then None
      else case drop (length w) s of [] \<Rightarrow> None
        | c # q \<Rightarrow> if c = CHR 0x20 then map_option ((#) w) (regex_match rs q) else None)"
proof -
  let ?w = "takeWhile word_char s"
  let ?f = "\<lambda>n. map_option ((#) (take n s)) (regex_match (Lit CHR 0x20 # rs) (drop n s))"
  have none: "?f n = None" if "n < length ?w" for n
  proof -
    have "drop n s = s ! n # drop (Suc n) s"
      using that length_takeWhile_le [of word_char s] by (intro Cons_nth_drop_Suc [symmetric]) linarith
    moreover have "word_char (s ! n)" using that nth_mem [OF that] set_takeWhileD [of _ word_char s] takeWhile_nth [OF that] by auto
    then have "s ! n \<noteq> CHR 0x20" by (auto simp: space_def)
    ultimately show ?thesis by (simp add: regex_match.simps)
  qed
  have "regex_match (Group # Lit CHR 0x20 # rs) s = first_some (map ?f (rev [1 ..< Suc (length ?w)]))"
    by (simp add: regex_match.simps(2) [of Group])
  also have "\<dots> = (if length ?w = 0 then None else ?f (length ?w))"
    by (rule first_some_longest) (rule none)
  also have "take (length ?w) s = ?w" by (rule take_takeWhile)
  finally show ?thesis by (simp add: Let_def regex_match.simps split: list.splits)
qed

lemma match_lits:
  "regex_match (map Lit p @ rs) s = (if take (length p) s = p then regex_match rs (drop (length p) s) else None)"
proof (induction p arbitrary: s)
  case (Cons c p)
  then show ?case by (cases s) (auto simp: regex_match.simps)
qed simp

text \<open>The match at the start of a text, without backtracking.\<close>

definition ref_at :: "string \<Rightarrow> string list option" where
  "ref_at s = (if take 5 s \<noteq> ''@ref '' then None
     else let r = drop 5 s; d = takeWhile word_char r in
       if d = [] then None
       else case drop (length d) r of [] \<Rightarrow> None
         | c # q \<Rightarrow> if c = CHR 0x20 \<and> takeWhile word_char q \<noteq> []
             then Some [d, takeWhile word_char q] else None)"

lemma regex_match_ref_at: "regex_match regex s = ref_at s"
proof -
  have mark: "length ''@ref '' = 5" by simp
  have "regex_match regex s =
      (if take 5 s = ''@ref '' then regex_match [Group, Lit CHR 0x20, Group] (drop 5 s) else None)"
    unfolding regex_def match_lits mark by simp
  then show ?thesis unfolding match_group_space ref_at_def
    by (simp add: Let_def match_last_group split: list.split)
qed

lemma word_text:
  assumes "\<forall>c\<in>set d. word_char c" and "r = [] \<or> space (hd r)"
  shows "takeWhile word_char (d @ r) = d"
  using assms by (induction d) (cases r, auto)

lemma takeWhile_word:
  "\<exists>r. s = takeWhile word_char s @ r \<and> (r = [] \<or> space (hd r))"
proof -
  have "s = takeWhile word_char s @ dropWhile word_char s" by simp
  then show ?thesis using hd_dropWhile [of word_char s] by metis
qed

lemma ref_at_reference:
  "ref_at (drop i line) = Some gs \<longleftrightarrow> (\<exists>r. gs = [document r, ref_section r] \<and> reference_at line i r)"
proof
  assume m: "ref_at (drop i line) = Some gs"
  define d where "d = takeWhile word_char (drop 5 (drop i line))"
  have start: "take 5 (drop i line) = ''@ref ''" and d: "d \<noteq> []"
    using m by (auto simp: ref_at_def d_def Let_def split: if_splits)
  obtain q where q: "drop (length d) (drop 5 (drop i line)) = CHR 0x20 # q"
      "takeWhile word_char q \<noteq> []" "gs = [d, takeWhile word_char q]"
    using m by (auto simp: ref_at_def d_def Let_def split: if_splits list.splits)
  obtain post where post: "q = takeWhile word_char q @ post" "post = [] \<or> space (hd post)"
    using takeWhile_word by blast
  have "drop 5 (drop i line) = d @ CHR 0x20 # q"
    using q(1) by (metis append_take_drop_id d_def take_takeWhile)
  with start post have "drop i line = ''@ref '' @ d @ '' '' @ takeWhile word_char q @ post"
    by (metis append_take_drop_id append_Cons append_Nil)
  moreover have "\<forall>c\<in>set (d @ takeWhile word_char q). word_char c"
    by (auto simp: d_def dest: set_takeWhileD)
  ultimately have "reference_at line i \<lparr>document = d, ref_section = takeWhile word_char q\<rparr>"
    unfolding reference_at_def using d q(2) post(2) by auto
  then show "\<exists>r. gs = [document r, ref_section r] \<and> reference_at line i r" using q(3)
    by (intro exI [of _ "\<lparr>document = d, ref_section = takeWhile word_char q\<rparr>"]) simp
next
  assume "\<exists>r. gs = [document r, ref_section r] \<and> reference_at line i r"
  then obtain r :: DocumentRef and post where gs: "gs = [document r, ref_section r]"
    and line: "drop i line = ''@ref '' @ document r @ '' '' @ ref_section r @ post"
    and r: "document r \<noteq> []" "ref_section r \<noteq> []" "\<forall>c\<in>set (document r @ ref_section r). word_char c"
      "post = [] \<or> space (hd post)"
    unfolding reference_at_def by blast
  have "takeWhile word_char (document r @ CHR 0x20 # ref_section r @ post) = document r"
    using r by (intro word_text) (auto simp: space_def)
  moreover have "takeWhile word_char (ref_section r @ post) = ref_section r"
    using r by (intro word_text) auto
  ultimately show "ref_at (drop i line) = Some gs"
    unfolding line gs ref_at_def using r by (simp add: Let_def)
qed

lemma first_some_upt:
  "first_some (map f [0 ..< n]) = Some y \<longleftrightarrow> (\<exists>i<n. f i = Some y \<and> (\<forall>j<i. f j = None))"
proof (induction n arbitrary: f)
  case (Suc n)
  have "[0 ..< Suc n] = 0 # map Suc [0 ..< n]" by (simp add: upt_conv_Cons map_Suc_upt del: upt_Suc)
  then have "first_some (map f [0 ..< Suc n]) = (case f 0 of Some a \<Rightarrow> Some a | None \<Rightarrow> first_some (map (\<lambda>i. f (Suc i)) [0 ..< n]))"
    by (simp add: comp_def)
  with Suc.IH [of "\<lambda>i. f (Suc i)"] show ?case
    by (cases "f 0") (simp_all add: Ex_less_Suc2 All_less_Suc2 del: upt_Suc)
qed simp

lemma refFromLine_search:
  "refFromLine line = Some r \<longleftrightarrow> regex_search regex line = Some [document r, ref_section r]"
proof -
  have "length gs = 2" if s: "regex_search regex line = Some gs" for gs
  proof -
    obtain i where "ref_at (drop i line) = Some gs"
      using s unfolding regex_search_def regex_match_ref_at first_some_upt by auto
    then show ?thesis unfolding ref_at_reference by auto
  qed
  moreover have "gs = [gs ! 0, gs ! 1]" if "length gs = 2" for gs :: "string list"
    using that by (auto simp: numeral_2_eq_2 length_Suc_conv)
  ultimately show ?thesis
    by (cases r) (auto simp: refFromLine_def split: option.splits)
qed

lemma refFromLine_iff:
  "refFromLine line = Some r \<longleftrightarrow> (\<exists>i. reference_at line i r \<and> (\<forall>j<i. \<forall>q. \<not> reference_at line j q))"
proof -
  have inj: "[document a, ref_section a] = [document b, ref_section b] \<longleftrightarrow> a = b" for a b :: DocumentRef
    by (cases a; cases b) auto
  have none: "ref_at (drop j line) = None \<longleftrightarrow> (\<forall>q. \<not> reference_at line j q)" for j
    using ref_at_reference [of j line] by (cases "ref_at (drop j line)") fastforce+
  have some: "ref_at (drop i line) = Some [document r, ref_section r] \<longleftrightarrow> reference_at line i r" for i
    unfolding ref_at_reference inj by auto
  have "i < Suc (length line)" if "reference_at line i r" for i
    using that by (cases "i \<le> length line") (auto simp: reference_at_def)
  then show ?thesis
    unfolding refFromLine_search regex_search_def regex_match_ref_at first_some_upt none some by blast
qed

section \<open>The entries of a text and of a tree\<close>

text \<open>The entries of a list of lines, numbered from \<open>k\<close>.\<close>

fun line_entries :: "string \<Rightarrow> int \<Rightarrow> string list \<Rightarrow> Entry list" where
  "line_entries path k [] = []"
| "line_entries path k (l # ls) =
     (case refFromLine l of
        Some r \<Rightarrow> [\<lparr>fileContext = \<lparr>fileName = path, lineNumber = k\<rparr>, documentRef = r\<rparr>]
      | None \<Rightarrow> []) @ line_entries path (k + 1) ls"

text \<open>The lines of a text: each ends at a line feed, the last one maybe at the end of the text.\<close>

function text_lines :: "string \<Rightarrow> string list" where
  "text_lines s = (case getline s of None \<Rightarrow> [] | Some (line, rest) \<Rightarrow> line # text_lines rest)"
  by pat_completeness auto
termination
  by (relation "measure length") (auto simp: getline_shorter)

declare text_lines.simps [simp del]

lemma getline_line: "nl \<notin> set l \<Longrightarrow> getline (l @ nl # r) = Some (l, r)"
proof -
  assume "nl \<notin> set l"
  then have "takeWhile (\<lambda>c. c \<noteq> nl) (l @ nl # r) = l" by (induction l) auto
  then show ?thesis by (simp add: getline_def Let_def)
qed

lemma getline_tail: "nl \<notin> set l \<Longrightarrow> getline l = (if l = [] then None else Some (l, []))"
proof -
  assume "nl \<notin> set l"
  then have all: "takeWhile (\<lambda>c. c \<noteq> nl) l = l" by (induction l) auto
  show ?thesis unfolding getline_def Let_def all by simp
qed

lemma text_lines_text:
  assumes "nl \<notin> set tail"
  shows "\<forall>l\<in>set ls. nl \<notin> set l \<Longrightarrow>
    text_lines (concat (map (\<lambda>l. l @ [nl]) ls) @ tail) = ls @ (if tail = [] then [] else [tail])"
proof (induction ls)
  case Nil
  show ?case using getline_tail [OF assms] getline_tail [of "[]"] by (simp add: text_lines.simps)
next
  case (Cons l ls)
  then show ?case by (subst text_lines.simps) (simp add: getline_line)
qed

lemma read_lines_entries:
  "lineNumber fc + int (length (text_lines is)) \<le> 2147483647 \<Longrightarrow>
   read_lines fc entries is = Inr (entries @ line_entries (fileName fc) (lineNumber fc) (text_lines is))"
proof (induction fc entries "is" rule: read_lines.induct)
  case (1 fc entries s)
  show ?case
  proof (cases "getline s")
    case None
    then show ?thesis by (simp add: read_lines.simps [of fc] text_lines.simps [of s])
  next
    case (Some lr)
    obtain line rest where lr: "lr = (line, rest)" by (cases lr)
    have ls: "text_lines s = line # text_lines rest" using Some lr by (simp add: text_lines.simps [of s])
    obtain f n where fc: "fc = \<lparr>fileName = f, lineNumber = n\<rparr>" by (cases fc)
    have "read_lines (fc\<lparr>lineNumber := n + 1\<rparr>) es rest =
        Inr (es @ line_entries f (n + 1) (text_lines rest))"
      if "es = (case refFromLine line of Some ref \<Rightarrow> entries @ [\<lparr>fileContext = fc, documentRef = ref\<rparr>]
        | None \<Rightarrow> entries)" for es
      using "1.IH" [OF Some lr [symmetric] that] "1.prems" ls fc by simp
    then show ?thesis using "1.prems"
      by (simp add: read_lines.simps [of fc] Some lr ls Let_def) (simp add: fc split: option.split)
  qed
qed

text \<open>
  The files of a directory tree that the program reads, with their texts: every file of the
  two extensions, before the files below it, in the order of the listing.
\<close>

definition source_name :: "string \<Rightarrow> bool" where
  "source_name p \<longleftrightarrow> extension p = ''.k'' \<or> extension p = ''.C''"

definition own_text :: "string \<Rightarrow> fs_node \<Rightarrow> (string \<times> string) list" where
  "own_text p n = (if source_name p then case open_text n of Some t \<Rightarrow> [(p, t)] | None \<Rightarrow> [] else [])"

fun sources :: "string \<Rightarrow> (string \<times> fs_node) list \<Rightarrow> (string \<times> string) list" where
  "sources p [] = []"
| "sources p ((name, n) # rest) = own_text (path_append p name) n @
     (case n of Dir (Some below) \<Rightarrow> sources (path_append p name) below | _ \<Rightarrow> []) @ sources p rest"

text \<open>Every directory can be listed and every file of the two extensions opened.\<close>

fun readable :: "string \<Rightarrow> (string \<times> fs_node) list \<Rightarrow> bool" where
  "readable p [] \<longleftrightarrow> True"
| "readable p ((name, n) # rest) \<longleftrightarrow> (source_name (path_append p name) \<longrightarrow> open_text n \<noteq> None) \<and>
     (case n of Dir None \<Rightarrow> False | Dir (Some below) \<Rightarrow> readable (path_append p name) below | _ \<Rightarrow> True) \<and>
     readable p rest"

definition file_entries :: "string \<times> string \<Rightarrow> Entry list" where
  "file_entries = (\<lambda>(p, t). line_entries p 1 (text_lines t))"

definition short_text :: "string \<times> string \<Rightarrow> bool" where
  "short_text = (\<lambda>(p, t). int (length (text_lines t)) < 2147483647)"

lemma addEntriesFromRegularFile_entries:
  assumes "source_name p \<Longrightarrow> open_text n \<noteq> None" and "list_all short_text (own_text p n)"
  shows "addEntriesFromRegularFile entries p n = Inr (entries @ concat (map file_entries (own_text p n)))"
proof (cases "source_name p")
  case True
  then obtain t where t: "open_text n = Some t" using assms(1) by auto
  with assms(2) True have "1 + int (length (text_lines t)) \<le> 2147483647"
    by (simp add: own_text_def short_text_def)
  then have "addEntriesFromIstream entries p t = Inr (entries @ line_entries p 1 (text_lines t))"
    by (simp add: addEntriesFromIstream_def read_lines_entries)
  with True t show ?thesis
    by (auto simp: addEntriesFromRegularFile_def source_name_def own_text_def file_entries_def)
qed (simp add: addEntriesFromRegularFile_def source_name_def own_text_def)

lemma addEntriesFromRegularFile_ignored:
  "\<not> source_name p \<Longrightarrow> addEntriesFromRegularFile entries p n = Inr entries"
  by (simp add: addEntriesFromRegularFile_def source_name_def)

lemma for_each_append: "for_each (xs @ ys) entries = bindr (for_each xs entries) (for_each ys)"
  by (induction xs entries rule: for_each.induct) (auto simp: bindr_def split: sum.splits)

lemma for_each_sources:
  "readable p es \<Longrightarrow> list_all short_text (sources p es) \<Longrightarrow>
   for_each (recursive_directory_iterator p es) entries = Inr (entries @ concat (map file_entries (sources p es)))"
  by (induction p es arbitrary: entries rule: recursive_directory_iterator.induct)
    (simp_all add: for_each_append addEntriesFromRegularFile_entries)

text \<open>The first obstacle that the traversal meets.\<close>

fun obstacle :: "string \<Rightarrow> (string \<times> fs_node) list \<Rightarrow> er_error option" where
  "obstacle p [] = None"
| "obstacle p ((name, n) # rest) =
     (if source_name (path_append p name) \<and> open_text n = None then Some (CannotRead (path_append p name))
      else case n of
        Dir None \<Rightarrow> Some (CannotList (path_append p name))
      | Dir (Some below) \<Rightarrow> (case obstacle (path_append p name) below of Some e \<Rightarrow> Some e | None \<Rightarrow> obstacle p rest)
      | _ \<Rightarrow> obstacle p rest)"

lemma readable_obstacle: "readable p es \<longleftrightarrow> obstacle p es = None"
  by (induction p es rule: recursive_directory_iterator.induct) (auto split: option.splits)

lemma addEntriesFromRegularFile_unreadable:
  "source_name p \<Longrightarrow> open_text n = None \<Longrightarrow> addEntriesFromRegularFile entries p n = Inl (CannotRead p)"
  by (auto simp: addEntriesFromRegularFile_def source_name_def)

lemma for_each_obstacle:
  "obstacle p es = Some e \<Longrightarrow> list_all short_text (sources p es) \<Longrightarrow>
   for_each (recursive_directory_iterator p es) entries = Inl e"
proof (induction p es arbitrary: entries rule: recursive_directory_iterator.induct)
  case (2 p name below rest)
  then show ?case
    by (cases "obstacle (path_append p name) below")
      (simp_all add: for_each_append addEntriesFromRegularFile_entries readable_obstacle for_each_sources split: if_splits)
qed (auto simp: addEntriesFromRegularFile_entries addEntriesFromRegularFile_unreadable
    addEntriesFromRegularFile_ignored split: if_splits)

section \<open>Reading the output as JSON\<close>

text \<open>
  A reader for the part of JSON that the program means to print: strings without escapes, arrays
  and objects. A character below a space, a quote or a backslash cannot stand in a string. The
  reader works on tokens, with a bound on the nesting that the number of tokens gives.
\<close>

datatype jtok = TStr string | TSym char

definition json_plain :: "char \<Rightarrow> bool" where
  "json_plain c \<longleftrightarrow> c \<noteq> quote \<and> c \<noteq> CHR 0x5C \<and> 32 \<le> (of_char c :: int)"

function jlex :: "string \<Rightarrow> jtok list option" where
  "jlex [] = Some []"
| "jlex (c # s) =
     (if c \<in> {CHR 0x20, nl, CHR 0x09, CHR 0x0D} then jlex s
      else if c = quote then
        (case dropWhile json_plain s of [] \<Rightarrow> None
         | q # r \<Rightarrow> if q = quote then map_option ((#) (TStr (takeWhile json_plain s))) (jlex r) else None)
      else if c \<in> set ''{}[]:,'' then map_option ((#) (TSym c)) (jlex s)
      else None)"
  by pat_completeness auto
termination
proof (relation "measure length")
  fix c :: char and s q r
  assume "dropWhile json_plain s = q # r"
  with length_dropWhile_le [of json_plain s] show "(r, c # s) \<in> measure length" by simp
qed auto

datatype json = JString string | JArray "json list" | JObject "(string \<times> json) list"

fun jvalue :: "nat \<Rightarrow> jtok list \<Rightarrow> (json \<times> jtok list) option"
  and jelems :: "nat \<Rightarrow> jtok list \<Rightarrow> (json list \<times> jtok list) option"
  and jmembers :: "nat \<Rightarrow> jtok list \<Rightarrow> ((string \<times> json) list \<times> jtok list) option" where
  "jvalue 0 ts = None"
| "jvalue (Suc k) ts = (case ts of
     TStr s # r \<Rightarrow> Some (JString s, r)
   | TSym c # r \<Rightarrow>
       if c = CHR ''['' then
         (if r \<noteq> [] \<and> hd r = TSym CHR '']'' then Some (JArray [], tl r) else map_option (apfst JArray) (jelems k r))
       else if c = CHR ''{'' then
         (if r \<noteq> [] \<and> hd r = TSym CHR ''}'' then Some (JObject [], tl r) else map_option (apfst JObject) (jmembers k r))
       else None
   | [] \<Rightarrow> None)"
| "jelems 0 ts = None"
| "jelems (Suc k) ts = (case jvalue k ts of
     Some (v, TSym c # r) \<Rightarrow>
       if c = CHR '','' then map_option (apfst ((#) v)) (jelems k r)
       else if c = CHR '']'' then Some ([v], r) else None
   | _ \<Rightarrow> None)"
| "jmembers 0 ts = None"
| "jmembers (Suc k) ts = (case ts of
     TStr n # TSym d # r \<Rightarrow> if d \<noteq> CHR '':'' then None
       else (case jvalue k r of
         Some (v, TSym c # r) \<Rightarrow>
           if c = CHR '','' then map_option (apfst ((#) (n, v))) (jmembers k r)
           else if c = CHR ''}'' then Some ([(n, v)], r) else None
       | _ \<Rightarrow> None)
   | _ \<Rightarrow> None)"

definition read_json :: "string \<Rightarrow> json option" where
  "read_json s = (case jlex s of None \<Rightarrow> None
     | Some ts \<Rightarrow> (case jvalue (length ts) ts of Some (v, []) \<Rightarrow> Some v | _ \<Rightarrow> None))"

text \<open>The value that an entry stands for.\<close>

definition entry_json :: "Entry \<Rightarrow> json" where
  "entry_json e = JObject
     [(''document'', JObject [(''document'', JString (document (documentRef e))),
        (''section'', JString (ref_section (documentRef e)))]),
      (''semantics'', JObject [(''file'', JString (fileName (fileContext e))),
        (''line'', JString (show_int (lineNumber (fileContext e))))])]"

definition plain_entry :: "Entry \<Rightarrow> bool" where
  "plain_entry e \<longleftrightarrow> list_all json_plain (document (documentRef e)) \<and> list_all json_plain (ref_section (documentRef e)) \<and>
     list_all json_plain (fileName (fileContext e))"

lemma jlex_string: "list_all json_plain s \<Longrightarrow> jlex (quote # s @ quote # r) = map_option ((#) (TStr s)) (jlex r)"
proof -
  assume "list_all json_plain s"
  then have "takeWhile json_plain (s @ quote # r) = s \<and> dropWhile json_plain (s @ quote # r) = quote # r"
    by (induction s) (auto simp: json_plain_def)
  then show ?thesis by simp
qed

lemma jlex_blank: "c \<in> {CHR 0x20, nl, CHR 0x09, CHR 0x0D} \<Longrightarrow> jlex (c # s) = jlex s"
  by (subst jlex.simps) (simp only: if_True)

lemma jlex_sym: "c \<in> set ''{}[]:,'' \<Longrightarrow> jlex (c # s) = map_option ((#) (TSym c)) (jlex s)"
  by auto

declare jlex.simps(2) [simp del]

lemma digit_plain: "digit c \<Longrightarrow> json_plain c"
  unfolding digit_def json_plain_def of_nat_of_char [symmetric, where 'a = int] by auto

lemma show_int_plain: "list_all json_plain (show_int i)"
  by (auto simp: show_int_def list_all_iff json_plain_def [of "CHR 0x2D"] dest!: show_nat_digits intro: digit_plain)

lemmas jlex_text = jlex_blank jlex_sym jlex_string jlex_string [of "[]", simplified]
  jlex_string [of "''document''", simplified] jlex_string [of "''section''", simplified]
  jlex_string [of "''semantics''", simplified] jlex_string [of "''file''", simplified]
  jlex_string [of "''line''", simplified]

definition string_pair :: "string \<Rightarrow> string \<Rightarrow> string \<Rightarrow> string \<Rightarrow> jtok list" where
  "string_pair a x b y = [TSym CHR ''{'', TStr a, TSym CHR '':'', TStr x, TSym CHR '','', TStr b,
     TSym CHR '':'', TStr y, TSym CHR ''}'']"

definition entry_toks :: "Entry \<Rightarrow> jtok list" where
  "entry_toks e = [TSym CHR ''{'', TStr ''document'', TSym CHR '':''] @
     string_pair ''document'' (document (documentRef e)) ''section'' (ref_section (documentRef e)) @
     [TSym CHR '','', TStr ''semantics'', TSym CHR '':''] @
     string_pair ''file'' (fileName (fileContext e)) ''line'' (show_int (lineNumber (fileContext e))) @
     [TSym CHR ''}'']"

lemma jlex_DocumentRef:
  "list_all json_plain (document r) \<Longrightarrow> list_all json_plain (ref_section r) \<Longrightarrow>
   jlex (print_DocumentRef r @ s) =
     map_option (\<lambda>ts. string_pair ''document'' (document r) ''section'' (ref_section r) @ ts) (jlex s)"
  by (simp add: print_DocumentRef_def string_pair_def jlex_text json_plain_def option.map_comp comp_def)

lemma jlex_FileContext:
  "list_all json_plain (fileName fc) \<Longrightarrow> jlex (print_FileContext fc @ s) =
     map_option (\<lambda>ts. string_pair ''file'' (fileName fc) ''line'' (show_int (lineNumber fc)) @ ts) (jlex s)"
  by (simp add: print_FileContext_def string_pair_def jlex_text show_int_plain json_plain_def option.map_comp comp_def)

lemma jlex_Entry: "plain_entry e \<Longrightarrow> jlex (print_Entry e @ s) = map_option (\<lambda>ts. entry_toks e @ ts) (jlex s)"
  by (simp add: print_Entry_def entry_toks_def plain_entry_def jlex_text jlex_DocumentRef jlex_FileContext
      json_plain_def option.map_comp comp_def)

text \<open>The entries from an index on, with the commas between them.\<close>

fun entries_toks :: "Entry list \<Rightarrow> jtok list" where
  "entries_toks [] = []"
| "entries_toks [e] = entry_toks e"
| "entries_toks (e # es) = entry_toks e @ TSym CHR '','' # entries_toks es"

lemma jlex_print_from:
  "list_all plain_entry es \<Longrightarrow> i \<le> length es \<Longrightarrow>
   jlex (print_from es i @ s) = map_option (\<lambda>ts. entries_toks (drop i es) @ ts) (jlex s)"
proof (induction "length es - i" arbitrary: i)
  case 0
  then show ?case by (subst print_from.simps) (cases "jlex s"; simp)
next
  case (Suc n)
  then have i: "i < length es" and e: "plain_entry (es ! i)" by (auto simp: list_all_length)
  have IH: "jlex (print_from es (i + 1) @ s) = map_option (\<lambda>ts. entries_toks (drop (i + 1) es) @ ts) (jlex s)"
    using Suc i by simp
  have d: "drop i es = es ! i # drop (i + 1) es" using i by (simp add: Cons_nth_drop_Suc)
  show ?case
  proof (cases "i < length es - 1")
    case True
    then obtain f fs where "drop (i + 1) es = f # fs" by (cases "drop (i + 1) es") auto
    with True i e IH d show ?thesis
      by (subst print_from.simps) (cases "jlex s"; simp add: jlex_text jlex_Entry)
  next
    case False
    with i have "drop (i + 1) es = []" by simp
    with False i e IH d show ?thesis
      by (subst print_from.simps) (cases "jlex s"; simp add: jlex_text jlex_Entry)
  qed
qed

lemma jvalue_Entry: "9 \<le> k \<Longrightarrow> jvalue k (entry_toks e @ r) = Some (entry_json e, r)"
proof -
  assume "9 \<le> k"
  then obtain j where "k = j + 9" by (metis le_add_diff_inverse2)
  then show ?thesis by (simp add: entry_toks_def string_pair_def entry_json_def eval_nat_numeral)
qed

lemma jelems_entries:
  "es \<noteq> [] \<Longrightarrow> length es + 9 \<le> k \<Longrightarrow>
   jelems k (entries_toks es @ TSym CHR '']'' # r) = Some (map entry_json es, r)"
proof (induction es arbitrary: k rule: entries_toks.induct)
  case (2 e)
  then obtain j where "k = Suc j" "9 \<le> j" by (cases k) auto
  then show ?case by (simp add: jvalue_Entry)
next
  case (3 e f fs)
  then obtain j where j: "k = Suc j" "length (f # fs) + 9 \<le> j" by (cases k) auto
  with 3 show ?case by (simp add: jvalue_Entry)
qed simp

lemma length_entries_toks: "length es * 25 \<le> length (entries_toks es)"
  by (induction es rule: entries_toks.induct) (simp_all add: entry_toks_def string_pair_def)

section \<open>Properties of the reference extractor\<close>

text \<open>
  C28: \<open>refFromLine\<close> returns the leftmost reference of a line and both of its words in full,
  and nothing when the line has none: the backtracking of the regular expression never shortens a
  word and never skips an earlier reference.
\<close>
theorem refFromLine_leftmost:
  "(refFromLine line = Some r \<longleftrightarrow> (\<exists>i. reference_at line i r \<and> (\<forall>j<i. \<forall>q. \<not> reference_at line j q))) \<and>
   (refFromLine line = None \<longleftrightarrow> (\<forall>i q. \<not> reference_at line i q))"
proof -
  have "refFromLine line = None \<Longrightarrow> reference_at line i q \<Longrightarrow> False" for i q
  proof -
    assume none: "refFromLine line = None" and q: "reference_at line i q"
    define k where "k = (LEAST i. \<exists>q. reference_at line i q)"
    have "\<exists>q. reference_at line k q" unfolding k_def by (rule LeastI [of _ i]) (use q in blast)
    moreover have "\<forall>j<k. \<forall>q. \<not> reference_at line j q" unfolding k_def using not_less_Least by blast
    ultimately show False using refFromLine_iff [of line] none by force
  qed
  moreover have "refFromLine line = None" if "\<forall>i q. \<not> reference_at line i q"
    using refFromLine_iff [of line] that by (cases "refFromLine line") auto
  ultimately show ?thesis using refFromLine_iff [of line r] by blast
qed

theorem refFromLine_leftmost_witness:
  "refFromLine ''// @ref n1570  @ref n1570 6.5.2.2:7, and more'' = Some \<lparr>document = ''n1570'', ref_section = ''6.5.2.2:7,''\<rparr> \<and>
   (\<exists>i. reference_at ''// @ref n1570  @ref n1570 6.5.2.2:7, and more'' i \<lparr>document = ''n1570'', ref_section = ''6.5.2.2:7,''\<rparr>)"
proof -
  have "refFromLine ''// @ref n1570  @ref n1570 6.5.2.2:7, and more'' =
      Some \<lparr>document = ''n1570'', ref_section = ''6.5.2.2:7,''\<rparr>" by code_simp
  then show ?thesis
    using refFromLine_leftmost [of "''// @ref n1570  @ref n1570 6.5.2.2:7, and more''"
      "\<lparr>document = ''n1570'', ref_section = ''6.5.2.2:7,''\<rparr>"] by blast
qed

text \<open>
  C23: Run on a directory, the program prints the references of every file of the tree whose
  name ends in \<open>.k\<close> or \<open>.C\<close>, in the order of the traversal, each with its path and line number
  counted from one; or, when a directory cannot be listed or such a file cannot be opened, it
  prints nothing and reports the first obstacle, with status 0. (Every file has fewer than
  2147483647 lines.)
\<close>
theorem references_extracted:
  assumes "system path = Some (Dir (Some es))" and "list_all short_text (sources path es)"
  shows "er_main system [prog, path] = (case obstacle path es of
      None \<Rightarrow> (print_Entries (concat (map file_entries (sources path es))), NoReport, 0)
    | Some e \<Rightarrow> ([], Error e, 0))"
proof (cases "obstacle path es")
  case None
  then have "readable path es" by (simp add: readable_obstacle)
  from for_each_sources [OF this assms(2)] None show ?thesis
    by (simp add: er_main_def entriesFromPath_def addEntriesFromPath_def addEntriesFromDirectory_def assms(1))
next
  case (Some e)
  from for_each_obstacle [OF this assms(2)] Some show ?thesis
    by (simp add: er_main_def entriesFromPath_def addEntriesFromPath_def addEntriesFromDirectory_def assms(1))
qed

theorem references_extracted_witness:
  "er_main (\<lambda>p. Some (Dir (Some [(''a.txt'', File None), (''c'', Dir (Some [(''x.k'', File (Some (''@ref n 1'' @ [nl])))]))])))
     [''extract'', ''.''] =
   (print_Entries [\<lparr>fileContext = \<lparr>fileName = ''./c/x.k'', lineNumber = 1\<rparr>,
      documentRef = \<lparr>document = ''n'', ref_section = ''1''\<rparr>\<rparr>], NoReport, 0)"
proof -
  let ?es = "[(''a.txt'', File None), (''c'', Dir (Some [(''x.k'', File (Some (''@ref n 1'' @ [nl])))]))]"
  have "list_all short_text (sources ''.'' ?es)" by code_simp
  moreover have "obstacle ''.'' ?es = None" by code_simp
  moreover have "concat (map file_entries (sources ''.'' ?es)) =
      [\<lparr>fileContext = \<lparr>fileName = ''./c/x.k'', lineNumber = 1\<rparr>, documentRef = \<lparr>document = ''n'', ref_section = ''1''\<rparr>\<rparr>]"
    by code_simp
  ultimately show ?thesis
    using references_extracted [of "\<lambda>p. Some (Dir (Some ?es))" "''.''" ?es "''extract''"] by simp
qed

text \<open>
  C30: The printed list is JSON, and reading it gives back every entry, as long as no file name
  and no word of a reference has a quote, a backslash or a control character in it.
\<close>
theorem entries_json_roundtrip:
  assumes "list_all plain_entry es"
  shows "read_json (print_Entries es) = Some (JArray (map entry_json es))"
proof (cases es)
  case Nil
  then show ?thesis by (simp add: print_Entries_def read_json_def jlex_text)
next
  case (Cons e fs)
  let ?ts = "entries_toks es @ [TSym CHR '']'']"
  have "jlex (print_from es 0 @ [nl, CHR '']'', nl]) = Some ?ts"
    using jlex_print_from [OF assms, of 0 "[nl, CHR '']'', nl]"] by (simp add: jlex_text)
  then have lex: "jlex (print_Entries es) = Some (TSym CHR ''['' # ?ts)"
    using Cons by (simp add: print_Entries_def jlex_text)
  have "jelems (length ?ts) ?ts = Some (map entry_json es, [])"
    using Cons length_entries_toks [of es] jelems_entries [of es "length ?ts" "[]"] by simp
  moreover have "hd ?ts \<noteq> TSym CHR '']''" using Cons by (cases fs) (simp_all add: entry_toks_def)
  ultimately show ?thesis unfolding read_json_def lex by simp
qed

theorem entries_json_roundtrip_witness:
  "read_json (print_Entries [\<lparr>fileContext = \<lparr>fileName = ''x.k'', lineNumber = 7\<rparr>,
      documentRef = \<lparr>document = ''n1570'', ref_section = ''6.5:2''\<rparr>\<rparr>]) =
   Some (JArray (map entry_json [\<lparr>fileContext = \<lparr>fileName = ''x.k'', lineNumber = 7\<rparr>,
      documentRef = \<lparr>document = ''n1570'', ref_section = ''6.5:2''\<rparr>\<rparr>]))"
proof -
  have "list_all plain_entry [\<lparr>fileContext = \<lparr>fileName = ''x.k'', lineNumber = 7\<rparr>,
      documentRef = \<lparr>document = ''n1570'', ref_section = ''6.5:2''\<rparr>\<rparr>]" by code_simp
  then show ?thesis by (rule entries_json_roundtrip)
qed

text \<open>The strings are not escaped: a word with a quote in it makes the output unreadable.\<close>

lemma quoted_word_breaks_json:
  "fst (snd (er_main (\<lambda>p. Some (File (Some ([CHR 0x2F, CHR 0x2F] @ ''@ref n''  @ [quote] @ ''x 1'')))) [''extract'', ''a.k''])) = NoReport \<and>
   read_json (fst (er_main (\<lambda>p. Some (File (Some ([CHR 0x2F, CHR 0x2F] @ ''@ref n'' @ [quote] @ ''x 1'')))) [''extract'', ''a.k''])) = None"
  by code_simp

end
