(* ===== verification/WriteLong.thy ===== *)
theory WriteLong
  imports KastPrint
begin

text \<open>
  The script src/scripts/writelong.c: it writes the number that its argument names to the
  standard output, as the eight bytes of an \<open>int64_t\<close>. With \<open>atoll\<close> of the C library: white
  space, a sign, digits; a number that a \<open>long long\<close> cannot hold is undefined.
\<close>

definition isspace :: "char \<Rightarrow> bool" where
  "isspace c \<longleftrightarrow> c \<in> {CHR 0x09, CHR 0x0A, CHR 0x0B, CHR 0x0C, CHR 0x0D, CHR 0x20}"

definition decimal_value :: "string \<Rightarrow> int" where
  "decimal_value s = int (read_nat 0 (takeWhile digit s))"

definition atoll :: "string \<Rightarrow> int option" where
  "atoll s = (let t = dropWhile isspace s;
       v = (case t of
              [] \<Rightarrow> 0
            | c # r \<Rightarrow> if c = CHR 0x2D then - decimal_value r
                else if c = CHR 0x2B then decimal_value r else decimal_value t)
     in if - (2 ^ 63) \<le> v \<and> v < 2 ^ 63 then Some v else None)"

text \<open>The exit status and what is written; \<open>None\<close> where the behaviour is undefined.\<close>

definition writelong_main :: "string list \<Rightarrow> (int \<times> u8 list) option" where
  "writelong_main argv =
     (if length argv \<noteq> 2 then Some (1, [])
      else case atoll (argv ! 1) of
        None \<Rightarrow> None
      | Some ll \<Rightarrow> Some (0, le_bytes 8 (unat (word_of_int ll :: u64))))"

lemma decimal_value_show: "decimal_value (show_nat n) = int n"
proof -
  have "takeWhile digit (show_nat n) = show_nat n" using show_nat_digits by (simp add: takeWhile_eq_all_conv)
  then show ?thesis unfolding decimal_value_def by (simp only: read_show_nat)
qed

lemma digit_no_space: "digit c \<Longrightarrow> \<not> isspace c \<and> c \<noteq> CHR 0x2D \<and> c \<noteq> CHR 0x2B"
  by (auto simp: digit_def isspace_def)

lemma atoll_show_int: "- (2 ^ 63) \<le> n \<Longrightarrow> n < 2 ^ 63 \<Longrightarrow> atoll (show_int n) = Some n"
proof (cases "n < 0")
  case True
  moreover assume "- (2 ^ 63) \<le> n" "n < 2 ^ 63"
  ultimately show ?thesis by (simp add: atoll_def show_int_def isspace_def decimal_value_show)
next
  case False
  assume n: "- (2 ^ 63) \<le> n" "n < 2 ^ 63"
  obtain c cs where c: "show_nat (nat n) = c # cs" "digit c" using show_nat_Cons by blast
  have "decimal_value (c # cs) = n" using decimal_value_show [of "nat n"] c False by simp
  with c digit_no_space [OF c(2)] False n show ?thesis by (simp add: atoll_def show_int_def)
qed

section \<open>Properties\<close>

text \<open>
  C32: The script writes exactly eight bytes, and an \<open>int64_t\<close> read from them is the number
  that was given in decimal, for every number that an \<open>int64_t\<close> holds.
\<close>

theorem writelong_roundtrip:
  assumes "- (2 ^ 63) \<le> n" and "n < 2 ^ 63"
  shows "\<exists>bs. writelong_main [prog, show_int n] = Some (0, bs) \<and> length bs = 8 \<and>
    sint (of_nat (of_le_bytes bs) :: u64) = n"
proof -
  let ?w = "word_of_int n :: u64"
  have "of_le_bytes (le_bytes 8 (unat ?w)) = unat ?w"
    using unat_u64_less [of ?w] by (simp add: of_le_bytes_le_bytes)
  moreover have "sint ?w = n"
    using assms by (simp add: sint_word_ariths signed_of_int signed_take_bit_int_eq_self)
  ultimately show ?thesis
    using assms by (simp add: writelong_main_def atoll_show_int)
qed

theorem writelong_roundtrip_witness:
  "\<exists>bs. writelong_main [''writelong'', ''-2''] = Some (0, bs) \<and> length bs = 8 \<and>
    sint (of_nat (of_le_bytes bs) :: u64) = - 2"
proof -
  have "show_int (- 2) = ''-2''" by code_simp
  with writelong_roundtrip [of "- 2" "''writelong''"] show ?thesis by simp
qed

end
