(* ===== verification/KArith.thy ===== *)
theory KArith
  imports KTypes "HOL-Library.Signed_Division"
begin

text \<open>
  Integer arithmetic as the semantics of C defines it: promotions and the usual arithmetic
  conversions (src/semantics/c/language/common/promotion.k and translation/promotion.k),
  conversions between integer types (common/conversion.k), and the unary, additive,
  multiplicative, bitwise, shift, relational and equality operators (common/expr) on integer
  values. A rule of K that reports a problem is an error result that carries the code of the
  report; a configuration that no rule rewrites is \<open>Stuck\<close>; \<open>NativeCall\<close> hands the
  call over to native code (KHeap). Where several rules
  report, the one that comes first in the file is taken.

  Pointers, encoded bytes and unknown values as operands are not part of the model: an
  operand is an integer with its type.
\<close>

section \<open>Promotions (common/promotion.k)\<close>

fun rank_basic :: "ityp \<Rightarrow> int" where
  "rank_basic BoolType = 0"
| "rank_basic CharType = 1" | "rank_basic SignedChar = 1" | "rank_basic UnsignedChar = 1"
| "rank_basic ShortInt = 2" | "rank_basic UnsignedShortInt = 2"
| "rank_basic PlainInt = 3" | "rank_basic SignedInt = 3" | "rank_basic UnsignedInt = 3"
| "rank_basic LongInt = 4" | "rank_basic UnsignedLongInt = 4"
| "rank_basic LongLongInt = 5" | "rank_basic UnsignedLongLongInt = 5"
| "rank_basic OversizedInt = 6" | "rank_basic UnsignedOversizedInt = 6"

fun rank :: "itype \<Rightarrow> int" where
  "rank (Basic t) = rank_basic t"
| "rank (Bitfield t n) = rank_basic t"
| "rank (Enum tag t) = rank_basic t"

fun isPromoted :: "itype \<Rightarrow> bool" where
  "isPromoted (Enum tag t) = True"
| "isPromoted (Basic t) = (t \<in> {PlainInt, SignedInt, UnsignedInt, LongInt, UnsignedLongInt,
     LongLongInt, UnsignedLongLongInt, OversizedInt, UnsignedOversizedInt})"
| "isPromoted (Bitfield t n) = False"

definition stripBitfield :: "iutype \<Rightarrow> iutype" where
  "stripBitfield T = (case st T of Bitfield t n \<Rightarrow> bare (Basic t) | _ \<Rightarrow> T)"

definition promote :: "iutype \<Rightarrow> iutype" where
  "promote T =
     (if rank (st T) \<le> rank_basic PlainInt
      then if imin PlainInt \<le> tmin (st T) \<and> imax PlainInt \<ge> tmax (st T) then int_type else uint_type
      else stripBitfield T)"

definition maxType :: "iutype \<Rightarrow> iutype \<Rightarrow> iutype" where
  "maxType S T = (if rank (st S) \<ge> rank (st T) then S else T)"

definition usualArithmeticConversion_aux :: "iutype \<Rightarrow> iutype \<Rightarrow> iutype option" where
  "usualArithmeticConversion_aux S T =
     (if areCompat (st S) (st T) then Some (stripConstants S)
      else if hasSameSignedness (st S) (st T) then Some (maxType S T)
      else if signedInteger (st S) \<and> unsignedInteger (st T) then
        if rank (st T) \<ge> rank (st S) then Some T
        else if tmin (st S) \<le> tmin (st T) \<and> tmax (st S) \<ge> tmax (st T) then Some S
        else Some (correspondingUnsignedType S)
      else if unsignedInteger (st S) \<and> signedInteger (st T) then
        if rank (st S) \<ge> rank (st T) then Some S
        else if tmin (st T) \<le> tmin (st S) \<and> tmax (st T) \<ge> tmax (st S) then Some T
        else Some (correspondingUnsignedType T)
      else None)"

definition as_arith :: "iutype \<Rightarrow> autype" where
  "as_arith T = Ut (mods T) (Integer (st T))"

definition usualArithmeticConversion :: "autype \<Rightarrow> autype \<Rightarrow> autype option" where
  "usualArithmeticConversion S T =
     (if st S = Floating LongDouble \<or> st T = Floating LongDouble then Some (bare (Floating LongDouble))
      else if st S = Floating Double \<or> st T = Floating Double then Some (bare (Floating Double))
      else if st S = Floating Float \<or> st T = Floating Float then Some (bare (Floating Float))
      else (case (st S, st T) of
          (Integer s, Integer t) \<Rightarrow> map_option as_arith
             (usualArithmeticConversion_aux (promote (Ut (mods S) s)) (promote (Ut (mods T) t)))
        | _ \<Rightarrow> None))"

text \<open>On two integer types: the common type as an integer type.\<close>

definition common_int :: "iutype \<Rightarrow> iutype \<Rightarrow> iutype option" where
  "common_int S T = usualArithmeticConversion_aux (promote S) (promote T)"

section \<open>Values, problems and conversions (common/conversion.k)\<close>

datatype problem = UNDEF string | IMPL string | IMPLUB string | CV string | EXT_UNDEF string | Stuck | NativeCall string

datatype tvalue = Tv (tval: int) (ttype: iutype)

type_synonym kres = "(problem, tvalue) res"

definition hasLint :: bool where
  "hasLint = False"

definition intArithInterpret :: "iutype \<Rightarrow> int \<Rightarrow> bool \<Rightarrow> kres" where
  "intArithInterpret T n overflowLint =
     (if tmin (st T) \<le> n \<and> tmax (st T) \<ge> n then Inr (Tv n T)
      else if unsignedInteger (st T) \<and> (\<not> hasLint \<or> \<not> overflowLint)
        then Inr (Tv (n mod (tmax (st T) + 1)) T)
      else if signedInteger (st T) then Inl (UNDEF ''CCV1'')
      else Inl Stuck)"

text \<open>The rules for \<open>cast\<close> between integer types, each by itself.\<close>

inductive cast_rule :: "iutype \<Rightarrow> tvalue \<Rightarrow> bool \<Rightarrow> kres \<Rightarrow> bool" where
  same: "areCompat (st T') (st T) \<Longrightarrow> cast_rule T' (Tv v T) e (Inr (Tv v (castTypes T' T)))"
| to_bool: "isBool (st T') \<Longrightarrow>
    cast_rule T' (Tv v T) e (Inr (Tv (if v = 0 then 0 else 1) (castTypes T' T)))"
| fits: "\<not> areCompat (st T') (st T) \<Longrightarrow> \<not> isBool (st T') \<Longrightarrow> intInRange v (st T') \<Longrightarrow>
    cast_rule T' (Tv v T) e (Inr (Tv v (castTypes T' T)))"
| below: "unsignedInteger (st T') \<Longrightarrow> v < tmin (st T') \<Longrightarrow> \<not> hasLint \<Longrightarrow>
    cast_rule T' (Tv v T) e (Inr (Tv (v mod (tmax (st T') + 1)) (castTypes T' T)))"
| above: "unsignedInteger (st T') \<Longrightarrow> v > tmax (st T') \<Longrightarrow> \<not> hasLint \<Longrightarrow>
    cast_rule T' (Tv v T) e (Inr (Tv (v smod (tmax (st T') + 1)) (castTypes T' T)))"
| implicit: "signedInteger (st T') \<Longrightarrow> \<not> intInRange v (st T') \<Longrightarrow>
    cast_rule T' (Tv v T) False (Inl (IMPL ''CCV2''))"
| explicit: "signedInteger (st T') \<Longrightarrow> \<not> intInRange v (st T') \<Longrightarrow>
    cast_rule T' (Tv v T) True (Inl (IMPL ''CCV2-E''))"

inductive_simps cast_rule_Tv: "cast_rule T' (Tv v T) e r"

text \<open>The conversion that takes the first rule of the file that applies.\<close>

definition cast :: "iutype \<Rightarrow> tvalue \<Rightarrow> bool \<Rightarrow> kres" where
  "cast T' x e =
     (let v = tval x; T = ttype x in
      if areCompat (st T') (st T) then Inr (Tv v (castTypes T' T))
      else if isBool (st T') then Inr (Tv (if v = 0 then 0 else 1) (castTypes T' T))
      else if intInRange v (st T') then Inr (Tv v (castTypes T' T))
      else if unsignedInteger (st T') \<and> v < tmin (st T') \<and> \<not> hasLint
        then Inr (Tv (v mod (tmax (st T') + 1)) (castTypes T' T))
      else if unsignedInteger (st T') \<and> v > tmax (st T') \<and> \<not> hasLint
        then Inr (Tv (v smod (tmax (st T') + 1)) (castTypes T' T))
      else if signedInteger (st T') then Inl (IMPL (if e then ''CCV2-E'' else ''CCV2''))
      else Inl Stuck)"

section \<open>Operators on converted operands (common/expr)\<close>

definition isNegZero :: "int \<Rightarrow> itype \<Rightarrow> bool" where
  "isNegZero n t \<longleftrightarrow> n = tmin t \<or> n = -1"

definition bitwiseInterpret :: "iutype \<Rightarrow> int \<Rightarrow> bool \<Rightarrow> bool \<Rightarrow> kres" where
  "bitwiseInterpret T n negZero overflowLint =
     (if unsignedInteger (st T) then intArithInterpret T n overflowLint
      else if signedInteger (st T) then
        if negZero then intArithInterpret T n overflowLint
        else bindr (intArithInterpret T n overflowLint) (\<lambda>x.
          if isNegZero (tval x) (st (ttype x)) then Inl (IMPLUB ''CEB12'') else Inr x)
      else Inl Stuck)"

definition makeTruthType :: "'s utype \<Rightarrow> 't utype \<Rightarrow> iutype" where
  "makeTruthType S T =
     (if fromConstantExpr S \<and> fromConstantExpr T then Ut {IntegerConstant} (Basic PlainInt) else int_type)"

definition makeTruth :: "bool \<Rightarrow> 's utype \<Rightarrow> 't utype \<Rightarrow> kres" where
  "makeTruth b S T = Inr (Tv (if b then 1 else 0) (makeTruthType S T))"

datatype arith_op = Add | Sub | Mul
datatype bit_op = BitAnd | BitXor | BitOr
datatype rel_op = Lt | Le | Gt | Ge | Eq | Ne
datatype shift_op = Shl | Shr

datatype binop = Arith arith_op | Divide | Modulo | Bit bit_op | Rel rel_op | Shift shift_op

fun int_op :: "arith_op \<Rightarrow> int \<Rightarrow> int \<Rightarrow> int" where
  "int_op Add a b = a + b" | "int_op Sub a b = a - b" | "int_op Mul a b = a * b"

fun int_bit_op :: "bit_op \<Rightarrow> int \<Rightarrow> int \<Rightarrow> int" where
  "int_bit_op BitAnd a b = a AND b"
| "int_bit_op BitXor a b = a XOR b"
| "int_bit_op BitOr a b = a OR b"

fun int_rel_op :: "rel_op \<Rightarrow> int \<Rightarrow> int \<Rightarrow> bool" where
  "int_rel_op Lt a b = (a < b)" | "int_rel_op Le a b = (a \<le> b)"
| "int_rel_op Gt a b = (a > b)" | "int_rel_op Ge a b = (a \<ge> b)"
| "int_rel_op Eq a b = (a = b)" | "int_rel_op Ne a b = (a \<noteq> b)"

fun int_shift_op :: "shift_op \<Rightarrow> int \<Rightarrow> int \<Rightarrow> int" where
  "int_shift_op Shl a b = push_bit (nat b) a"
| "int_shift_op Shr a b = drop_bit (nat b) a"

text \<open>Operands of one promoted type.\<close>

definition one_type :: "iutype \<Rightarrow> iutype \<Rightarrow> bool" where
  "one_type S T \<longleftrightarrow> isPromoted (st S) \<and> areCompat (st S) (st T)"

definition apply_shift :: "shift_op \<Rightarrow> int \<Rightarrow> iutype \<Rightarrow> int \<Rightarrow> iutype \<Rightarrow> kres" where
  "apply_shift f a S b T =
     (if \<not> (isPromoted (st S) \<and> isPromoted (st T)) then Inl Stuck
      else if b < 0 then Inl (UNDEF (case f of Shl \<Rightarrow> ''CEB2'' | Shr \<Rightarrow> ''CEB6''))
      else if b \<ge> bitSizeofType (st S) then Inl (UNDEF (case f of Shl \<Rightarrow> ''CEB3'' | Shr \<Rightarrow> ''CEB7''))
      else if a \<ge> 0 then
        bitwiseInterpret S (int_shift_op f a b) (isNegZero a (st S) \<or> isNegZero b (st T)) True
      else if signedInteger (st S) then Inl (case f of Shl \<Rightarrow> UNDEF ''CEB4'' | Shr \<Rightarrow> IMPL ''CEB8'')
      else Inl Stuck)"

fun apply_binop :: "binop \<Rightarrow> tvalue \<Rightarrow> tvalue \<Rightarrow> kres" where
  "apply_binop (Arith f) (Tv a S) (Tv b T) =
     (if one_type S T then intArithInterpret S (int_op f a b) True else Inl Stuck)"
| "apply_binop Divide (Tv a S) (Tv b T) =
     (if areCompat (st S) (st T) \<and> b = 0 then Inl (UNDEF ''CEMX1'')
      else if one_type S T then intArithInterpret S (a sdiv b) True else Inl Stuck)"
| "apply_binop Modulo (Tv a S) (Tv b T) =
     (if areCompat (st S) (st T) \<and> b = 0 then Inl (UNDEF ''CEMX2'')
      else if one_type S T then
        if intInRange (a sdiv b) (st S) then intArithInterpret S (a smod b) True
        else Inl (UNDEF ''CEMX3'')
      else Inl Stuck)"
| "apply_binop (Bit f) (Tv a S) (Tv b T) =
     (if one_type S T
      then bitwiseInterpret S (int_bit_op f a b) (isNegZero a (st S) \<or> isNegZero b (st T)) False
      else Inl Stuck)"
| "apply_binop (Rel f) (Tv a S) (Tv b T) =
     (if one_type S T then makeTruth (int_rel_op f a b) S T else Inl Stuck)"
| "apply_binop (Shift f) (Tv a S) (Tv b T) = apply_shift f a S b T"

section \<open>Conversion of operands (translation/promotion.k)\<close>

definition promote_operand :: "tvalue \<Rightarrow> kres" where
  "promote_operand x = (if isPromoted (st (ttype x)) then Inr x else cast (promote (ttype x)) x False)"

text \<open>\<open>arithBinNonEqualityOp\<close>: every operator but \<open>==\<close> and \<open>!=\<close>.\<close>

definition nonEqualityOp :: "binop \<Rightarrow> bool" where
  "nonEqualityOp f \<longleftrightarrow> f \<notin> {Rel Eq, Rel Ne}"

definition conversionOp :: "binop \<Rightarrow> bool" where
  "conversionOp f \<longleftrightarrow> (\<forall>s\<in>{Shl, Shr}. f \<noteq> Shift s)"

definition strip_value :: "tvalue \<Rightarrow> tvalue" where
  "strip_value x = Tv (tval x) (stripConstants (ttype x))"

definition strip_operands :: "binop \<Rightarrow> tvalue \<Rightarrow> tvalue \<Rightarrow> tvalue \<times> tvalue" where
  "strip_operands f x y =
     (if nonEqualityOp f \<and> fromConstantExpr (ttype x) \<noteq> fromConstantExpr (ttype y)
      then (strip_value x, strip_value y) else (x, y))"

definition usual_operands :: "binop \<Rightarrow> tvalue \<Rightarrow> tvalue \<Rightarrow> (problem, tvalue \<times> tvalue) res" where
  "usual_operands f x y =
     (if conversionOp f \<and> \<not> areCompat (st (ttype x)) (st (ttype y)) then
        (case common_int (ttype x) (ttype y) of
           None \<Rightarrow> Inl Stuck
         | Some U \<Rightarrow> bindr (cast U x False) (\<lambda>x'. bindr (cast U y False) (\<lambda>y'. Inr (x', y'))))
      else Inr (x, y))"

definition convert_operands :: "binop \<Rightarrow> tvalue \<Rightarrow> tvalue \<Rightarrow> (problem, tvalue \<times> tvalue) res" where
  "convert_operands f l r =
     bindr (promote_operand l) (\<lambda>l1.
     bindr (promote_operand r) (\<lambda>r1.
     case strip_operands f l1 r1 of (l2, r2) \<Rightarrow> usual_operands f l2 r2))"

definition eval_binop :: "binop \<Rightarrow> tvalue \<Rightarrow> tvalue \<Rightarrow> kres" where
  "eval_binop f l r = bindr (convert_operands f l r) (\<lambda>(l', r'). apply_binop f l' r')"

section \<open>Unary operators (common/expr/unary.k, bitwise.k)\<close>

datatype unop = Plus | Minus | Complement | LogicalNot

definition eval_unop :: "unop \<Rightarrow> tvalue \<Rightarrow> kres" where
  "eval_unop f x = (case f of
     LogicalNot \<Rightarrow> eval_binop (Rel Eq) (Tv 0 (Ut {IntegerConstant} (Basic PlainInt))) x
   | _ \<Rightarrow> bindr (promote_operand x) (\<lambda>y. case y of Tv a T \<Rightarrow>
       (case f of
          Plus \<Rightarrow> intArithInterpret T a True
        | Minus \<Rightarrow> intArithInterpret T (0 - a) True
        | _ \<Rightarrow> bitwiseInterpret T (NOT a) (isNegZero a (st T)) False)))"

end
