(* ===== verification/KPointer.thy ===== *)
theory KPointer
  imports KArith
begin

text \<open>
  Pointers of the semantics of C: symbolic locations with their provenance
  (src/semantics/common/symloc.k, src/semantics/c/language/common/symloc.k), the check of a
  pointer before it is used (common/check-use.k), and the rules for pointers of the additive,
  relational and equality operators (common/expr/additive.k, common/expr/relational.k).

  A set of provenance items is a list, in the order in which K happens to take its elements.
  The types pointed to are the arithmetic types, \<open>void\<close>, arrays, pointers and functions
  without names of parameters; structures, unions, enumerations, bit-fields and arrays of
  variable length are left out. Integers that hold pointers and unknown values are no operands
  of the model. As in KArith, the first rule of the file is taken where several report.
\<close>

section \<open>Types pointed to (typing.k)\<close>

datatype qualifier = ConstQ | VolatileQ | RestrictQ | AtomicQ

datatype ktype = CT (cquals: "qualifier set") (csimple: kstype)
and kstype =
    CInt ityp
  | CFloat ftyp
  | CVoid
  | CArray ktype nat
  | CIncompleteArray ktype
  | CPointer ktype
  | CFunction ktype "ktype list"

type_synonym ptrtype = "ktype utype"

text \<open>The type of a pointer is \<open>Ut mods T\<close>, where \<open>T\<close> is the type pointed to.\<close>

abbreviation innerType :: "ptrtype \<Rightarrow> ktype" where
  "innerType \<equiv> st"

fun isFunctionType :: "ktype \<Rightarrow> bool" where
  "isFunctionType (CT q (CFunction R ps)) = True"
| "isFunctionType _ = False"

fun isVoidType :: "ktype \<Rightarrow> bool" where
  "isVoidType (CT q CVoid) = True"
| "isVoidType _ = False"

fun isCompleteType :: "ktype \<Rightarrow> bool" where
  "isCompleteType (CT q (CIncompleteArray T)) = False"
| "isCompleteType (CT q CVoid) = False"
| "isCompleteType _ = True"

fun stripQualifiers :: "ktype \<Rightarrow> ktype" and unqualSimple :: "kstype \<Rightarrow> kstype" where
  "stripQualifiers (CT q s) = CT {} (unqualSimple s)"
| "unqualSimple (CArray T n) = CArray (stripQualifiers T) n"
| "unqualSimple (CIncompleteArray T) = CIncompleteArray (stripQualifiers T)"
| "unqualSimple (CInt t) = CInt t"
| "unqualSimple (CFloat t) = CFloat t"
| "unqualSimple CVoid = CVoid"
| "unqualSimple (CPointer T) = CPointer T"
| "unqualSimple (CFunction R ps) = CFunction R ps"

fun cfg_sizeof_float :: "ftyp \<Rightarrow> nat" where
  "cfg_sizeof_float Float = 4"
| "cfg_sizeof_float Double = 8"
| "cfg_sizeof_float LongDouble = 16"
| "cfg_sizeof_float OversizedFloat = 16"

definition cfg_ptrsize :: nat where
  "cfg_ptrsize = 8"

text \<open>A function has the size of one byte, an incomplete type the size zero.\<close>

fun bitSizeof :: "ktype \<Rightarrow> nat" and bitSizeofSimple :: "kstype \<Rightarrow> nat" where
  "bitSizeof (CT q s) = bitSizeofSimple s"
| "bitSizeofSimple (CArray T n) = bitSizeof T * n"
| "bitSizeofSimple (CFunction R ps) = bitsPerByte"
| "bitSizeofSimple (CPointer T) = cfg_ptrsize * bitsPerByte"
| "bitSizeofSimple (CIncompleteArray T) = 0"
| "bitSizeofSimple CVoid = 0"
| "bitSizeofSimple (CInt t) = cfg_sizeof t * bitsPerByte"
| "bitSizeofSimple (CFloat t) = cfg_sizeof_float t * bitsPerByte"

definition byteSizeofType :: "ktype \<Rightarrow> int" where
  "byteSizeofType T = int ((bitSizeof T + bitsPerByte - 1) div bitsPerByte)"

section \<open>Compatible types (typing/compatibility.k)\<close>

text \<open>An argument type that the default argument promotions leave as it is (promotion.k).\<close>

fun isArgPromoted :: "ktype \<Rightarrow> bool" where
  "isArgPromoted (CT q (CInt t)) = areCompat (Basic t) (st (promote (bare (Basic t))))"
| "isArgPromoted (CT q (CFloat t)) = (t \<noteq> Float)"
| "isArgPromoted _ = True"

lemma size_strip [simp]: "size (stripQualifiers T) = size T" "size (unqualSimple s) = size s"
  by (induction T and s rule: stripQualifiers_unqualSimple.induct) simp_all

function (sequential) areCompatible :: "ktype \<Rightarrow> ktype \<Rightarrow> bool"
  and areSimpleCompat :: "kstype \<Rightarrow> kstype \<Rightarrow> bool"
  and areParamsCompat :: "ktype list \<Rightarrow> ktype list \<Rightarrow> bool" where
  "areCompatible (CT q s) (CT q' s') = (q = q' \<and> areSimpleCompat s s')"
| "areSimpleCompat (CInt t) (CInt t') = compatBasic t t'"
| "areSimpleCompat (CFloat t) (CFloat t') = (t = t')"
| "areSimpleCompat CVoid CVoid = True"
| "areSimpleCompat (CArray T n) (CArray T' n') = (n = n' \<and> areCompatible T T')"
| "areSimpleCompat (CArray T n) (CIncompleteArray T') = areCompatible T T'"
| "areSimpleCompat (CIncompleteArray T) (CArray T' n') = areCompatible T T'"
| "areSimpleCompat (CIncompleteArray T) (CIncompleteArray T') = areCompatible T T'"
| "areSimpleCompat (CPointer T) (CPointer T') = areCompatible T T'"
| "areSimpleCompat (CFunction R ps) (CFunction R' ps') =
     (if (ps = [] \<and> list_all isArgPromoted ps') \<or> (ps' = [] \<and> list_all isArgPromoted ps)
      then areCompatible R R'
      else if length ps = length ps' then areCompatible R R' \<and> areParamsCompat ps ps'
      else False)"
| "areSimpleCompat _ _ = False"
| "areParamsCompat (T # ps) (T' # ps') =
     (areCompatible (stripQualifiers T) (stripQualifiers T') \<and> areParamsCompat ps ps')"
| "areParamsCompat [] [] = True"
| "areParamsCompat _ _ = False"
  by pat_completeness auto
termination
  by (relation "measure (\<lambda>x. case x of Inl (T, _) \<Rightarrow> size T
       | Inr (Inl (s, _)) \<Rightarrow> size s | Inr (Inr (ps, _)) \<Rightarrow> size_list size ps)") auto

section \<open>Locations (common/symloc.k)\<close>

datatype duration =
    Libc | LibcFixed | AllocDur | DynamicDur
  | StaticDur string | StringDur string | WStringDur "int list"
  | BuiltinSymbol string | BuiltinCppSymbol string | NativeSymbol string
  | ThreadLocal int | Auto int | Constexpr string | Argv | RegisterDur int
  | NativeAddress | HardwareAddress
  | LinkDur string

datatype symbase = Obj (obj_id: int) (obj_align: int) (obj_duration: duration)

datatype provenance =
    FromArray int int
  | BasedOn symbase string
  | BitsProv int

datatype symloc = NullPointer | Loc symbase int | LocProv symbase int "provenance list"

definition isLinkBase :: "symbase \<Rightarrow> bool" where
  "isLinkBase B \<longleftrightarrow> (\<exists>tu. obj_duration B = LinkDur tu)"

definition isStaticDuration :: "symbase \<Rightarrow> bool" where
  "isStaticDuration B = (case obj_duration B of
       StaticDur _ \<Rightarrow> True | LinkDur _ \<Rightarrow> True | StringDur _ \<Rightarrow> True | WStringDur _ \<Rightarrow> True
     | BuiltinSymbol _ \<Rightarrow> True | BuiltinCppSymbol _ \<Rightarrow> True | HardwareAddress \<Rightarrow> True | _ \<Rightarrow> False)"

definition isNativeLoc :: "symbase \<Rightarrow> bool" where
  "isNativeLoc B = (case obj_duration B of NativeAddress \<Rightarrow> True | NativeSymbol _ \<Rightarrow> True | _ \<Rightarrow> False)"

text \<open>There is no rule for the base and the offset of the null pointer.\<close>

fun base :: "symloc \<Rightarrow> symbase option" where
  "base NullPointer = None"
| "base (Loc B off) = Some B"
| "base (LocProv B off pv) = Some B"

fun offset :: "symloc \<Rightarrow> int option" where
  "offset NullPointer = None"
| "offset (Loc B off) = Some off"
| "offset (LocProv B off pv) = Some off"

fun prov :: "symloc \<Rightarrow> provenance list" where
  "prov (LocProv B off pv) = pv"
| "prov _ = []"

fun plus_bytes :: "symloc \<Rightarrow> int \<Rightarrow> symloc" where
  "plus_bytes NullPointer n = NullPointer"
| "plus_bytes (Loc B off) n = Loc B (off + n)"
| "plus_bytes (LocProv B off pv) n = LocProv B (off + n) pv"

definition sameBase :: "symloc \<Rightarrow> symloc \<Rightarrow> bool" where
  "sameBase L L' = (case (base L, base L') of (Some B, Some B') \<Rightarrow> B = B' | _ \<Rightarrow> False)"

fun stripProv :: "symloc \<Rightarrow> symloc" where
  "stripProv (LocProv B off pv) = Loc B off"
| "stripProv L = L"

fun is_from_array :: "provenance \<Rightarrow> bool" where
  "is_from_array (FromArray a n) = True"
| "is_from_array _ = False"

definition isFromArray :: "symloc \<Rightarrow> bool" where
  "isFromArray L = list_ex is_from_array (prov L)"

fun addProv :: "provenance \<Rightarrow> symloc \<Rightarrow> symloc" where
  "addProv p (LocProv B off pv) = LocProv B off (if p \<in> set pv then pv else pv @ [p])"
| "addProv p (Loc B off) = LocProv B off [p]"
| "addProv p NullPointer = NullPointer"

fun resolveLinking :: "symloc \<Rightarrow> (symbase \<Rightarrow> symbase option) \<Rightarrow> symloc" where
  "resolveLinking (LocProv B off pv) links = LocProv (case links B of Some B' \<Rightarrow> B' | None \<Rightarrow> B) off pv"
| "resolveLinking (Loc B off) links = Loc (case links B of Some B' \<Rightarrow> B' | None \<Rightarrow> B) off"
| "resolveLinking NullPointer links = NullPointer"

section \<open>The array a pointer comes from (c/language/common/symloc.k, expr/additive.k)\<close>

text \<open>The first item that names an array decides.\<close>

fun ifFromArrayInBounds_items :: "provenance list \<Rightarrow> ktype \<Rightarrow> int \<Rightarrow> bool" where
  "ifFromArrayInBounds_items (FromArray off len # pv) T i \<longleftrightarrow>
     off + i * byteSizeofType T \<ge> 0 \<and> off + i * byteSizeofType T \<le> len"
| "ifFromArrayInBounds_items (p # pv) T i = ifFromArrayInBounds_items pv T i"
| "ifFromArrayInBounds_items [] T i = True"

definition ifFromArrayInBounds :: "symloc \<Rightarrow> ktype \<Rightarrow> int \<Rightarrow> bool" where
  "ifFromArrayInBounds L T i = ifFromArrayInBounds_items (prov L) T i"

fun move_item :: "ktype \<Rightarrow> int \<Rightarrow> provenance \<Rightarrow> provenance" where
  "move_item T i (FromArray off len) = FromArray (off + i * byteSizeofType T) len"
| "move_item T i p = p"

fun newFromArray :: "symloc \<Rightarrow> ktype \<Rightarrow> int \<Rightarrow> symloc" where
  "newFromArray (LocProv B off pv) T i = LocProv B off (map (move_item T i) pv)"
| "newFromArray L T i = L"

section \<open>The check before a pointer is used (check-use.k)\<close>

datatype efftype = DynamicNoType | DynamicType ktype | EffType ktype

record 'b kobject =
  keff :: efftype
  klen :: int
  kbytes :: "'b option list"

record 'b kconf =
  kmem :: "symbase \<Rightarrow> 'b kobject option"
  kmalloced :: "symbase \<Rightarrow> int option"
  nextid :: int
  linkings :: "symbase \<Rightarrow> symbase option"
  executing :: bool

definition checkLocAllowLink :: "'b kconf \<Rightarrow> symbase \<Rightarrow> int \<Rightarrow> problem option" where
  "checkLocAllowLink c B off = (case kmem c B of
       Some ob \<Rightarrow> if off \<le> klen ob \<and> off \<ge> 0 then None else Some (UNDEF ''CEE3'')
     | None \<Rightarrow> if isStaticDuration B \<or> isNativeLoc B then None else Some (UNDEF ''CEE4''))"

definition checkLoc :: "'b kconf \<Rightarrow> symloc \<Rightarrow> problem option" where
  "checkLoc c L = (case stripProv L of
       Loc B off \<Rightarrow> if isLinkBase B \<and> executing c then Some (EXT_UNDEF ''TDR2'')
         else checkLocAllowLink c B off
     | _ \<Rightarrow> None)"

datatype pvalue = Pv (ploc: symloc) (ptype: ptrtype)

type_synonym pres = "(problem, pvalue) res"

definition checkUse :: "'b kconf \<Rightarrow> pvalue \<Rightarrow> pres" where
  "checkUse c v = (let L = resolveLinking (ploc v) (linkings c) in
     case checkLoc c L of None \<Rightarrow> Inr (Pv L (ptype v)) | Some e \<Rightarrow> Inl e)"

section \<open>Addition and subtraction (expr/additive.k)\<close>

definition addToPointer :: "'b kconf \<Rightarrow> symloc \<Rightarrow> ptrtype \<Rightarrow> int \<Rightarrow> pres" where
  "addToPointer c L T i =
     (if ifFromArrayInBounds L (innerType T) i
      then checkUse c (Pv (plus_bytes (newFromArray L (innerType T) i) (i * byteSizeofType (innerType T))) T)
      else Inl (UNDEF ''CEA1''))"

definition add_pointer :: "'b kconf \<Rightarrow> pvalue \<Rightarrow> tvalue \<Rightarrow> pres" where
  "add_pointer c p n =
     (if isFunctionType (innerType (ptype p)) \<or> \<not> isCompleteType (innerType (ptype p))
      then Inl (CV ''CEA7'')
      else if isPromoted (st (ttype n)) then addToPointer c (ploc p) (ptype p) (tval n)
      else Inl Stuck)"

definition sub_pointer_int :: "'b kconf \<Rightarrow> pvalue \<Rightarrow> tvalue \<Rightarrow> pres" where
  "sub_pointer_int c p n =
     (if isFunctionType (innerType (ptype p)) \<or> \<not> isCompleteType (innerType (ptype p))
      then Inl (CV ''CEA8'')
      else if isPromoted (st (ttype n)) then addToPointer c (ploc p) (ptype p) (0 - tval n)
      else Inl Stuck)"

abbreviation ptrdiff_type :: iutype where
  "ptrdiff_type \<equiv> bare (Basic LongInt)"

text \<open>A difference that is no multiple of the size and whose quotient is in range has no rule.\<close>

definition computePointerDifference :: "int \<Rightarrow> int \<Rightarrow> iutype \<Rightarrow> kres" where
  "computePointerDifference diff sz T =
     (if sz = 0 then Inl Stuck
      else if diff smod sz = 0 \<and> diff sdiv sz \<le> tmax (st T) \<and> diff sdiv sz \<ge> tmin (st T)
      then Inr (Tv (diff sdiv sz) T)
      else if diff sdiv sz > tmax (st T) \<or> diff sdiv sz < tmin (st T) then Inl (UNDEF ''CEA2'')
      else Inl Stuck)"

definition sub_pointers :: "pvalue \<Rightarrow> pvalue \<Rightarrow> kres" where
  "sub_pointers p q =
     (let T = innerType (ptype p); T' = innerType (ptype q) in
      if isFunctionType T \<or> isFunctionType T' \<or> \<not> isCompleteType T \<or> \<not> isCompleteType T'
         \<or> \<not> areCompatible (stripQualifiers T) (stripQualifiers T')
      then Inl (CV ''CEA9'')
      else case (base (ploc p), offset (ploc p), base (ploc q), offset (ploc q)) of
          (Some B, Some i, Some B', Some j) \<Rightarrow>
            if B = B' then computePointerDifference (i - j) (byteSizeofType T) ptrdiff_type
            else Inl (UNDEF ''CEA5'')
        | _ \<Rightarrow> Inl (UNDEF ''CEA5''))"

section \<open>Comparison (expr/relational.k)\<close>

definition isCompatibleRelationalTypes :: "ptrtype \<Rightarrow> ptrtype \<Rightarrow> bool" where
  "isCompatibleRelationalTypes S T \<longleftrightarrow>
     areCompatible (stripQualifiers (innerType S)) (stripQualifiers (innerType T)) \<and>
     \<not> isFunctionType (innerType S)"

fun different_objects :: "rel_op \<Rightarrow> string" where
  "different_objects Lt = ''CERL1''"
| "different_objects Le = ''CERL2''"
| "different_objects Gt = ''CERL3''"
| "different_objects Ge = ''CERL4''"
| "different_objects _ = ''''"

text \<open>
  The ordered comparisons; \<open>==\<close> and \<open>!=\<close> are \<open>equal_pointers\<close> below.
  The rule for pointers into different objects asks for compatible types, so that pointers to
  differently qualified versions of a type have no rule there.
\<close>

definition compare_pointers :: "rel_op \<Rightarrow> pvalue \<Rightarrow> pvalue \<Rightarrow> kres" where
  "compare_pointers f p q =
     (case (base (ploc p), offset (ploc p), base (ploc q), offset (ploc q)) of
        (Some B, Some i, Some B', Some j) \<Rightarrow>
          if B = B' \<and> isCompatibleRelationalTypes (ptype p) (ptype q)
          then makeTruth (int_rel_op f i j) (ptype p) (ptype q)
          else if B \<noteq> B' \<and> areCompatible (innerType (ptype p)) (innerType (ptype q))
          then Inl (UNDEF (different_objects f))
          else if \<not> isCompatibleRelationalTypes (ptype p) (ptype q) then Inl (CV ''CERL5'')
          else Inl Stuck
      | _ \<Rightarrow> Inl (UNDEF ''CERL6''))"

definition isCompatibleEqualityTypes :: "ptrtype \<Rightarrow> ptrtype \<Rightarrow> symloc \<Rightarrow> symloc \<Rightarrow> bool" where
  "isCompatibleEqualityTypes S T L L' \<longleftrightarrow>
     areCompatible (stripQualifiers (innerType S)) (stripQualifiers (innerType T)) \<or>
     (\<not> isFunctionType (innerType S) \<and> isVoidType (innerType T)) \<or>
     (\<not> isFunctionType (innerType T) \<and> isVoidType (innerType S)) \<or>
     L = NullPointer \<or> L' = NullPointer"

definition equal_pointers :: "bool \<Rightarrow> pvalue \<Rightarrow> pvalue \<Rightarrow> kres" where
  "equal_pointers eq p q =
     (let S = ptype p; T = ptype q in
      case (base (ploc p), offset (ploc p), base (ploc q), offset (ploc q)) of
        (Some B, Some i, Some B', Some j) \<Rightarrow>
          if \<not> isCompatibleEqualityTypes S T (ploc p) (ploc q)
          then Inl (CV (if eq then ''CERL8'' else ''CERL9''))
          else makeTruth ((B = B' \<and> i = j) = eq) S T
      | _ \<Rightarrow> makeTruth ((base (ploc p) = None \<and> base (ploc q) = None) = eq) S T)"

end
