(* ===== verification/KArithSound.thy ===== *)
theory KArithSound
  imports KArith
begin

text \<open>
  Properties of the integer arithmetic of the semantics: promotions keep values, the usual
  arithmetic conversions find a common type without reporting a problem, every result lies in
  the range of its type, arithmetic on an unsigned type is arithmetic of machine words and
  on a signed type exact or undefined.
\<close>

section \<open>Well-formed types and values\<close>

text \<open>
  The width of a bit-field is at most that of its declared type, and the alias of an
  enumeration ranks no higher than \<open>int\<close>, since its constants are of that type.
\<close>

fun wf_type :: "itype \<Rightarrow> bool" where
  "wf_type (Basic t) = True"
| "wf_type (Bitfield t n) = (0 < n \<and> n \<le> int (numBits t))"
| "wf_type (Enum tag t) = (rank_basic t \<le> rank_basic PlainInt)"

definition well_typed :: "tvalue \<Rightarrow> bool" where
  "well_typed x \<longleftrightarrow> wf_type (st (ttype x)) \<and> intInRange (tval x) (st (ttype x))"

fun is_enum :: "itype \<Rightarrow> bool" where
  "is_enum (Enum tag t) = True"
| "is_enum _ = False"

lemma wf_alias:
  assumes "imin PlainInt \<le> lo" and "lo \<le> hi" and "hi \<le> imax PlainInt"
    and "ts \<in> {enumAliases, packedEnumAliases}"
  shows "wf_type (Enum tag (firstSuitableType lo hi ts))"
  using assms by (auto simp: enumAliases_def packedEnumAliases_def range_simps)

lemma promoted_basic: "isPromoted t \<Longrightarrow> \<not> is_enum t \<Longrightarrow> \<exists>b. t = Basic b"
  by (cases t) auto

lemma power_mono_int: "a \<le> b \<Longrightarrow> (2::int) ^ a \<le> 2 ^ b"
  by (rule power_increasing) simp_all

lemma bitfield_range:
  assumes "wf_type (Bitfield t n)"
  shows "imin t \<le> tmin (Bitfield t n) \<and> tmax (Bitfield t n) \<le> imax t"
proof -
  from assms have "nat \<bar>n - 1\<bar> \<le> numBits t - 1" "nat \<bar>n\<bar> \<le> numBits t" by auto
  from this [THEN power_mono_int] show ?thesis
    by (simp add: imin_def imax_def del: power_increasing_iff)
qed

section \<open>Promotions\<close>

lemma small_basic_fits:
  "rank_basic t \<le> rank_basic PlainInt \<Longrightarrow> t \<noteq> UnsignedInt \<Longrightarrow>
   imin PlainInt \<le> imin t \<and> imax t \<le> imax PlainInt"
  by (cases t) (simp_all add: range_simps)

lemma promote_type:
  assumes "wf_type (st T)"
  shows "isPromoted (st (promote T)) \<and> \<not> is_enum (st (promote T)) \<and>
    tmin (st (promote T)) \<le> tmin (st T) \<and> tmax (st T) \<le> tmax (st (promote T))"
proof (cases "rank (st T) \<le> rank_basic PlainInt")
  case True
  show ?thesis
  proof (cases "imin PlainInt \<le> tmin (st T) \<and> imax PlainInt \<ge> tmax (st T)")
    case True
    with \<open>rank (st T) \<le> _\<close> show ?thesis by (simp add: promote_def)
  next
    case False
    have "tmin (st T) = 0 \<and> tmax (st T) \<le> imax UnsignedInt"
    proof (cases "st T")
      case (Basic t)
      with False small_basic_fits [of t] \<open>rank (st T) \<le> _\<close> show ?thesis
        by (cases "t = UnsignedInt") (auto simp: range_simps)
    next
      case (Enum tag t)
      with False small_basic_fits [of t] \<open>rank (st T) \<le> _\<close> show ?thesis
        by (cases "t = UnsignedInt") (auto simp: range_simps)
    next
      case (Bitfield t n)
      with assms have range: "imin t \<le> tmin (st T) \<and> tmax (st T) \<le> imax t"
        using bitfield_range [of t n] by simp
      with False small_basic_fits [of t] \<open>rank (st T) \<le> _\<close> Bitfield have "t = UnsignedInt" by force
      with range Bitfield show ?thesis by simp
    qed
    with False True show ?thesis by (simp add: promote_def imin_def)
  qed
next
  case False
  show ?thesis
  proof (cases "st T")
    case (Basic t)
    with False show ?thesis by (cases t) (simp_all add: promote_def stripBitfield_def)
  next
    case (Bitfield t n)
    with False assms bitfield_range [of t n] show ?thesis
      by (cases t) (simp_all add: promote_def stripBitfield_def)
  next
    case (Enum tag t)
    with False assms show ?thesis by simp
  qed
qed

lemma cast_in_range:
  assumes "intInRange (tval x) (st T)" and "\<not> isBool (st T)"
  shows "cast T x e = Inr (Tv (tval x) (castTypes T (ttype x)))"
  using assms by (simp add: cast_def Let_def)

lemma promoted_not_bool: "isPromoted t \<Longrightarrow> \<not> isBool t"
  by (cases t) auto

lemma promote_operand_spec:
  assumes "well_typed x"
  shows "\<exists>T. promote_operand x = Inr (Tv (tval x) T) \<and> isPromoted (st T) \<and>
    well_typed (Tv (tval x) T) \<and> (is_enum (st T) \<longrightarrow> is_enum (st (ttype x)))"
proof (cases "isPromoted (st (ttype x))")
  case True
  then show ?thesis using assms
    by (intro exI [of _ "ttype x"]) (simp add: promote_operand_def well_typed_def)
next
  case False
  note p = promote_type [of "ttype x"]
  have "intInRange (tval x) (st (promote (ttype x)))"
    using p assms by (auto simp: well_typed_def intInRange_def)
  moreover have "wf_type (st (promote (ttype x)))"
    using p assms promoted_basic [of "st (promote (ttype x))"] by (auto simp: well_typed_def)
  ultimately show ?thesis
    using False p assms cast_in_range [of x "promote (ttype x)" False]
    by (intro exI [of _ "castTypes (promote (ttype x)) (ttype x)"])
       (auto simp: promote_operand_def well_typed_def castTypes_def dest: promoted_not_bool)
qed

section \<open>The usual arithmetic conversions\<close>

lemma aux_basic:
  assumes "isPromoted (Basic s)" and "isPromoted (Basic t)"
  shows "\<exists>u m'. usualArithmeticConversion_aux (Ut m (Basic s)) (Ut n (Basic t)) = Some (Ut m' (Basic u)) \<and>
    isPromoted (Basic u) \<and> (is_signed u \<longrightarrow>
      imin u \<le> imin s \<and> imax s \<le> imax u \<and> imin u \<le> imin t \<and> imax t \<le> imax u)"
  using assms
  by (cases s; cases t)
    (simp_all add: usualArithmeticConversion_aux_def compatBasic_def hasSameSignedness_def maxType_def
      correspondingUnsignedType_def stripConstants_def range_simps)

lemma common_int_spec:
  assumes "wf_type (st S)" and "wf_type (st T)"
  shows "\<exists>u m. common_int S T = Some (Ut m (Basic u)) \<and> isPromoted (Basic u) \<and>
    (is_signed u \<longrightarrow> imin u \<le> tmin (st S) \<and> tmax (st S) \<le> imax u \<and>
       imin u \<le> tmin (st T) \<and> tmax (st T) \<le> imax u)"
proof -
  note p = promote_type [OF assms(1)] promote_type [OF assms(2)]
  from p(1) promoted_basic obtain s m where s: "promote S = Ut m (Basic s)"
    by (cases "promote S") (metis utype.sel(2))
  from p(2) promoted_basic obtain t n where t: "promote T = Ut n (Basic t)"
    by (cases "promote T") (metis utype.sel(2))
  from p s t have "isPromoted (Basic s)" "isPromoted (Basic t)" by simp_all
  from aux_basic [OF this, of m n] obtain u m' where
    "usualArithmeticConversion_aux (Ut m (Basic s)) (Ut n (Basic t)) = Some (Ut m' (Basic u))"
    "isPromoted (Basic u)"
    "is_signed u \<longrightarrow> imin u \<le> imin s \<and> imax s \<le> imax u \<and> imin u \<le> imin t \<and> imax t \<le> imax u"
    by blast
  moreover have "imin s \<le> tmin (st S)" "tmax (st S) \<le> imax s" "imin t \<le> tmin (st T)" "tmax (st T) \<le> imax t"
    using p by (simp_all add: s t)
  ultimately show ?thesis unfolding common_int_def s t by (meson order_trans)
qed

text \<open>The value that a conversion to an integer type gives: exact, or reduced for an unsigned type.\<close>

definition wrap :: "itype \<Rightarrow> int \<Rightarrow> int" where
  "wrap t v = (if unsignedInteger t then v mod (tmax t + 1) else v)"

lemma wrap_in_range: "intInRange v t \<Longrightarrow> wrap t v = v"
  by (cases t) (auto simp: wrap_def intInRange_def imin_def split: if_splits)

lemma smod_eq_mod: "0 \<le> v \<Longrightarrow> 0 < m \<Longrightarrow> v smod m = v mod (m :: int)"
  by (simp add: signed_modulo_int_def signed_divide_int_def sgn_if abs_if minus_div_mult_eq_mod)

lemma wrap_range: "\<not> is_signed u \<Longrightarrow> intInRange (wrap (Basic u) v) (Basic u)"
  using imin_le_imax [of u] pos_mod_bound [of "imax u + 1" v]
  by (auto simp: wrap_def intInRange_def imin_def)

lemma compat_basic_in_range:
  assumes "areCompat (Basic u) t" and "intInRange v t"
  shows "intInRange v (Basic u)"
proof (cases t)
  case (Basic s)
  with assms compatBasic_range [of u s] show ?thesis by (simp add: intInRange_def)
qed (use assms in \<open>auto simp: intInRange_def\<close>)

lemma cast_basic:
  assumes "isPromoted (Basic u)" and "well_typed x"
    and "is_signed u \<longrightarrow> intInRange (tval x) (Basic u)"
  shows "cast (Ut m (Basic u)) x e = Inr (Tv (wrap (Basic u) (tval x)) (Ut (mods (ttype x)) (Basic u))) \<and>
    intInRange (wrap (Basic u) (tval x)) (Basic u)"
proof (cases "intInRange (tval x) (Basic u)")
  case True
  with cast_in_range [of x "Ut m (Basic u)" e] assms(1) promoted_not_bool [of "Basic u"]
  show ?thesis by (simp add: castTypes_def wrap_in_range)
next
  case False
  with assms(3) have u: "\<not> is_signed u" by blast
  from False compat_basic_in_range [of u "st (ttype x)" "tval x"] assms(2)
  have "\<not> areCompat (Basic u) (st (ttype x))" by (auto simp: well_typed_def)
  moreover have "tval x < imin u \<or> imax u < tval x" using False by (auto simp: intInRange_def)
  moreover have "tval x smod (imax u + 1) = tval x mod (imax u + 1)" if "imax u < tval x"
    using that imin_le_imax [of u] by (intro smod_eq_mod) simp_all
  ultimately show ?thesis
    using False u wrap_range [OF u] promoted_not_bool [OF assms(1)]
    by (auto simp: cast_def Let_def castTypes_def wrap_def hasLint_def)
qed

lemma wf_promoted: "isPromoted t \<Longrightarrow> \<not> is_enum t \<Longrightarrow> wf_type t"
  by (cases t) auto

lemma usual_operands_spec:
  assumes "well_typed x" and "well_typed y"
    and "isPromoted (st (ttype x))" and "isPromoted (st (ttype y))"
  shows "\<exists>x' y'. usual_operands f x y = Inr (x', y') \<and> well_typed x' \<and> well_typed y' \<and>
    isPromoted (st (ttype x')) \<and> isPromoted (st (ttype y')) \<and>
    (conversionOp f \<longrightarrow> areCompat (st (ttype x')) (st (ttype y'))) \<and>
    tval x' = wrap (st (ttype x')) (tval x) \<and> tval y' = wrap (st (ttype y')) (tval y) \<and>
    (is_enum (st (ttype x')) \<longrightarrow> is_enum (st (ttype x)))"
proof (cases "conversionOp f \<and> \<not> areCompat (st (ttype x)) (st (ttype y))")
  case False
  then show ?thesis using assms
    by (auto simp: usual_operands_def well_typed_def wrap_in_range)
next
  case True
  from common_int_spec [of "ttype x" "ttype y"] assms(1,2) obtain u m where
    U: "common_int (ttype x) (ttype y) = Some (Ut m (Basic u))" "isPromoted (Basic u)" and
    range: "is_signed u \<longrightarrow> imin u \<le> tmin (st (ttype x)) \<and> tmax (st (ttype x)) \<le> imax u \<and>
       imin u \<le> tmin (st (ttype y)) \<and> tmax (st (ttype y)) \<le> imax u"
    unfolding well_typed_def by blast
  from range assms(1,2) have
    sub: "is_signed u \<longrightarrow> intInRange (tval x) (Basic u) \<and> intInRange (tval y) (Basic u)"
    by (auto simp: well_typed_def intInRange_def)
  from cast_basic [OF U(2) assms(1)] cast_basic [OF U(2) assms(2)] sub U(2) True show ?thesis
    by (auto simp: usual_operands_def U(1) well_typed_def intInRange_def)
qed

lemma strip_operands_spec:
  "well_typed (fst (strip_operands f x y)) = well_typed x \<and>
   well_typed (snd (strip_operands f x y)) = well_typed y \<and>
   tval (fst (strip_operands f x y)) = tval x \<and> tval (snd (strip_operands f x y)) = tval y \<and>
   st (ttype (fst (strip_operands f x y))) = st (ttype x) \<and>
   st (ttype (snd (strip_operands f x y))) = st (ttype y)"
  by (simp add: strip_operands_def strip_value_def stripConstants_def well_typed_def)

lemma convert_operands_spec:
  assumes "well_typed x" and "well_typed y"
  shows "\<exists>x' y'. convert_operands f x y = Inr (x', y') \<and> well_typed x' \<and> well_typed y' \<and>
    isPromoted (st (ttype x')) \<and> isPromoted (st (ttype y')) \<and>
    (conversionOp f \<longrightarrow> areCompat (st (ttype x')) (st (ttype y'))) \<and>
    tval x' = wrap (st (ttype x')) (tval x) \<and> tval y' = wrap (st (ttype y')) (tval y) \<and>
    (is_enum (st (ttype x')) \<longrightarrow> is_enum (st (ttype x)))"
proof -
  from promote_operand_spec [OF assms(1)] obtain S where
    S: "promote_operand x = Inr (Tv (tval x) S)" "isPromoted (st S)" "well_typed (Tv (tval x) S)"
       "is_enum (st S) \<longrightarrow> is_enum (st (ttype x))" by blast
  from promote_operand_spec [OF assms(2)] obtain T where
    T: "promote_operand y = Inr (Tv (tval y) T)" "isPromoted (st T)" "well_typed (Tv (tval y) T)" by blast
  obtain l r where lr: "strip_operands f (Tv (tval x) S) (Tv (tval y) T) = (l, r)" by fastforce
  with strip_operands_spec [of f "Tv (tval x) S" "Tv (tval y) T"] S T
  have "well_typed l" "well_typed r" "isPromoted (st (ttype l))" "isPromoted (st (ttype r))"
    "tval l = tval x" "tval r = tval y" "st (ttype l) = st S" by simp_all
  with usual_operands_spec [of l r f] S T lr show ?thesis
    by (auto simp: convert_operands_def)
qed

declare isPromoted.simps(2) [simp del]

section \<open>The type of a result\<close>

text \<open>The common type of two integer types, as the usual arithmetic conversions choose it.\<close>

definition common_type :: "itype \<Rightarrow> itype \<Rightarrow> itype option" where
  "common_type s t = map_option st (common_int (bare s) (bare t))"

lemma st_promote: "st (promote (Ut m t)) = st (promote (Ut n t))"
  by (cases t) (simp_all add: promote_def stripBitfield_def)

lemma st_aux:
  "map_option st (usualArithmeticConversion_aux S T) =
   map_option st (usualArithmeticConversion_aux (Ut m (st S)) (Ut n (st T)))"
  by (simp add: usualArithmeticConversion_aux_def stripConstants_def maxType_def
      correspondingUnsignedType_def)

lemma common_type_alt:
  "common_type s t = map_option st
     (usualArithmeticConversion_aux (bare (st (promote (bare s)))) (bare (st (promote (bare t)))))"
  unfolding common_type_def common_int_def by (rule st_aux)

lemma common_int_st: "map_option st (common_int S T) = common_type (st S) (st T)"
proof -
  have "st (promote S) = st (promote (bare (st S)))" for S
    using st_promote [of "mods S" "st S" "{}"] by simp
  then show ?thesis
    unfolding common_type_alt common_int_def
    by (subst st_aux [of _ _ "{}" "{}"]) simp
qed

lemma promote_twice: "wf_type t \<Longrightarrow> st (promote (Ut m (st (promote (Ut n t))))) = st (promote (Ut n t))"
proof -
  assume "wf_type t"
  from promote_type [of "Ut n t"] this promoted_basic [of "st (promote (Ut n t))"] obtain b where
    b: "st (promote (Ut n t)) = Basic b" "isPromoted (Basic b)" by auto
  show ?thesis
  proof (cases "b = SignedInt")
    case True
    with b(1) show ?thesis
      by (cases t) (auto simp: promote_def stripBitfield_def split: if_splits)
  next
    case False
    with b show ?thesis
      by (cases b) (simp_all add: promote_def stripBitfield_def range_simps isPromoted.simps)
  qed
qed

text \<open>The type of an operand after its promotion.\<close>

definition promoted_st :: "itype \<Rightarrow> itype" where
  "promoted_st t = (if isPromoted t then t else st (promote (bare t)))"

lemma promote_operand_type:
  "well_typed x \<Longrightarrow> promote_operand x = Inr y \<Longrightarrow> st (ttype y) = promoted_st (st (ttype x))"
  using st_promote [of "mods (ttype x)" "st (ttype x)" "{}"] promote_type [of "ttype x"]
    promoted_not_bool [of "st (promote (ttype x))"]
  by (auto simp: promote_operand_def promoted_st_def cast_def Let_def castTypes_def well_typed_def
      intInRange_def split: if_splits)

lemma common_promoted_st:
  assumes "wf_type s" and "wf_type t"
  shows "common_type (promoted_st s) (promoted_st t) = common_type s t"
proof -
  have "st (promote (bare (promoted_st u))) = st (promote (bare u))" if "wf_type u" for u
    using promote_twice [OF that] by (simp add: promoted_st_def)
  with assms show ?thesis by (simp add: common_type_alt)
qed

lemma common_of_compatible:
  assumes "isPromoted (Basic s)" and "areCompat (Basic s) t" and "isPromoted t" and "wf_type t"
  shows "\<exists>c. common_type (Basic s) t = Some c \<and> areCompat (Basic s) c"
proof -
  have same: "st (promote (bare t)) = st (promote (bare (Basic s)))"
    using assms
    by (cases t) (auto simp: compatBasic_def promote_def stripBitfield_def range_simps isPromoted.simps)
  have "areCompat (Basic s) (st (promote (bare (Basic s))))"
    using assms(1) by (cases s)
      (simp_all add: promote_def stripBitfield_def compatBasic_def range_simps isPromoted.simps)
  with same show ?thesis
    by (simp add: common_type_alt usualArithmeticConversion_aux_def stripConstants_def)
qed

lemma convert_operands_type:
  assumes "well_typed x" and "well_typed y" and "conversionOp f" and "\<not> is_enum (st (ttype x))"
    and conv: "convert_operands f x y = Inr (x', y')"
  shows "\<exists>u c. st (ttype x') = Basic u \<and> isPromoted (Basic u) \<and>
    common_type (st (ttype x)) (st (ttype y)) = Some c \<and> areCompat (Basic u) c"
proof -
  from promote_operand_spec [OF assms(1)] promote_operand_type [OF assms(1)] obtain S where
    S: "promote_operand x = Inr (Tv (tval x) S)" "isPromoted (st S)" "wf_type (st S)"
       "st S = promoted_st (st (ttype x))" "\<not> is_enum (st S)" using assms(4)
    by (fastforce simp: well_typed_def)
  from promote_operand_spec [OF assms(2)] promote_operand_type [OF assms(2)] obtain T where
    T: "promote_operand y = Inr (Tv (tval y) T)" "isPromoted (st T)" "wf_type (st T)"
       "st T = promoted_st (st (ttype y))" by (fastforce simp: well_typed_def)
  from S(2,5) promoted_basic obtain s where s: "st S = Basic s" by blast
  obtain l r where lr: "strip_operands f (Tv (tval x) S) (Tv (tval y) T) = (l, r)" by fastforce
  with strip_operands_spec [of f "Tv (tval x) S" "Tv (tval y) T"]
  have sts: "st (ttype l) = st S" "st (ttype r) = st T" by simp_all
  from conv S(1) T(1) lr have usual: "usual_operands f l r = Inr (x', y')"
    by (simp add: convert_operands_def)
  have common: "common_type (st S) (st T) = common_type (st (ttype x)) (st (ttype y))"
    using assms(1,2) by (simp add: S(4) T(4) common_promoted_st well_typed_def)
  show ?thesis
  proof (cases "areCompat (st S) (st T)")
    case True
    with usual sts have "x' = l" by (simp add: usual_operands_def)
    moreover from common_of_compatible [of s "st T"] True S(2) T(2,3) s
    obtain c where "common_type (st S) (st T) = Some c" "areCompat (Basic s) c" by auto
    ultimately show ?thesis using sts s S(2) common by (metis)
  next
    case False
    from common_int_spec [of "ttype l" "ttype r"] sts S(3) T(3) obtain u m where
      u: "common_int (ttype l) (ttype r) = Some (Ut m (Basic u))" "isPromoted (Basic u)" by auto
    with common_int_st [of "ttype l" "ttype r"] sts common
    have "common_type (st (ttype x)) (st (ttype y)) = Some (Basic u)" by simp
    moreover have "st (ttype x') = Basic u"
      using usual False sts u(1) assms(3) promoted_not_bool [OF u(2)]
      by (auto simp: usual_operands_def bindr_eq_Inr cast_def Let_def castTypes_def split: if_splits)
    ultimately show ?thesis using u(2) using areCompat_refl by blast
  qed
qed

section \<open>Results of the operators\<close>

lemma intArith_basic:
  "intArithInterpret (Ut m (Basic u)) n b =
     (if is_signed u \<and> \<not> intInRange n (Basic u) then Inl (UNDEF ''CCV1'')
      else Inr (Tv (wrap (Basic u) n) (Ut m (Basic u))))"
  using wrap_in_range [of n "Basic u"]
  by (auto simp: intArithInterpret_def wrap_def intInRange_def hasLint_def)

lemma intArith_well_typed:
  assumes "wf_type (st T)" and "isPromoted (st T)" and "intArithInterpret T n b = Inr z"
  shows "well_typed z \<and> ttype z = T"
proof (cases "tmin (st T) \<le> n \<and> tmax (st T) \<ge> n")
  case True
  with assms show ?thesis by (auto simp: intArithInterpret_def well_typed_def intInRange_def)
next
  case False
  with assms(3) have u: "unsignedInteger (st T)" and z: "z = Tv (n mod (tmax (st T) + 1)) T"
    by (auto simp: intArithInterpret_def split: if_splits)
  from u assms(2) obtain t where t: "st T = Basic t" "\<not> is_signed t" by (cases "st T") simp_all
  with wrap_range [of t n] z show ?thesis by (simp add: well_typed_def wrap_def)
qed

lemma bitwise_well_typed:
  assumes "wf_type (st T)" and "isPromoted (st T)" and "bitwiseInterpret T n nz b = Inr z"
  shows "well_typed z"
  using assms(3) intArith_well_typed [OF assms(1,2)]
  by (auto simp: bitwiseInterpret_def bindr_eq_Inr split: if_splits)

lemma truth_well_typed: "makeTruth b S T = Inr z \<Longrightarrow> well_typed z"
  by (auto simp: makeTruth_def makeTruthType_def well_typed_def range_simps)

lemma apply_binop_well_typed:
  assumes "wf_type (st (ttype x))" and "apply_binop f x y = Inr z"
  shows "well_typed z"
proof -
  obtain a S b T where xy: "x = Tv a S" "y = Tv b T" by (cases x; cases y) auto
  with assms have wf: "wf_type (st S)" by simp
  note ok = intArith_well_typed [OF wf] bitwise_well_typed [OF wf] truth_well_typed
  show ?thesis
    using assms(2) unfolding xy
    by (cases f) (auto simp: one_type_def apply_shift_def split: if_splits dest: ok)
qed

lemma bitwise_progress:
  "\<not> is_enum (st T) \<Longrightarrow> bitwiseInterpret T n nz b \<noteq> Inl Stuck"
  by (cases "st T")
    (auto simp: bitwiseInterpret_def intArithInterpret_def bindr_eq_Inl hasLint_def split: if_splits)

lemma intArith_progress: "\<not> is_enum (st T) \<Longrightarrow> intArithInterpret T n b \<noteq> Inl Stuck"
  by (cases "st T") (auto simp: intArithInterpret_def hasLint_def split: if_splits)

lemma apply_binop_progress:
  assumes "isPromoted (st (ttype x))" and "isPromoted (st (ttype y))"
    and "conversionOp f \<longrightarrow> areCompat (st (ttype x)) (st (ttype y))"
    and "\<not> is_enum (st (ttype x))" and "well_typed x"
  shows "apply_binop f x y \<noteq> Inl Stuck"
proof -
  obtain a S b T where xy: "x = Tv a S" "y = Tv b T" by (cases x; cases y) auto
  from assms xy have one: "conversionOp f \<longrightarrow> one_type S T" and S: "\<not> is_enum (st S)"
    by (simp_all add: one_type_def)
  have sign: "signedInteger (st S)" if "a < 0"
  proof -
    from assms(1) S xy promoted_basic obtain s where s: "st S = Basic s" by auto
    with assms(5) xy that show ?thesis
      by (cases "is_signed s") (auto simp: well_typed_def intInRange_def imin_def)
  qed
  show ?thesis
  proof (cases f)
    case (Shift g)
    with assms(1,2) xy sign bitwise_progress [OF S] show ?thesis
      by (auto simp: apply_shift_def split: shift_op.splits)
  qed (use one intArith_progress [OF S] bitwise_progress [OF S] in
       \<open>auto simp: xy conversionOp_def makeTruth_def\<close>)
qed

section \<open>Operators that use the common type\<close>

lemma compat_facts:
  assumes "areCompat (Basic u) (Basic c)"
  shows "is_signed u = is_signed c" "wrap (Basic u) = wrap (Basic c)"
    "intInRange v (Basic u) = intInRange v (Basic c)"
  using assms by (auto simp: compatBasic_def wrap_def fun_eq_iff range_simps)

lemma wrap_compat:
  assumes "areCompat (Basic u) t" and "intInRange (wrap t v) t"
  shows "wrap t v = wrap (Basic u) v"
proof (cases t)
  case (Basic s)
  with assms compat_facts(2) [of u s] show ?thesis by simp
next
  case (Enum tag s)
  with assms have "wrap t v = v" "intInRange v (Basic u)" by (simp_all add: wrap_def intInRange_def)
  then show ?thesis by (simp add: wrap_in_range)
qed (use assms in simp)

lemma common_type_basic:
  assumes "wf_type s" and "wf_type t"
  shows "\<exists>c. common_type s t = Some (Basic c) \<and> isPromoted (Basic c)"
  using common_int_spec [of "bare s" "bare t"] assms by (auto simp: common_type_def)

text \<open>
  Both operands of an operator that converts them, after the conversion: the values are those
  the conversion to the common type gives, and the left operand has that type.
\<close>

lemma convert_operands_common:
  assumes "well_typed x" and "well_typed y" and "conversionOp f" and "\<not> is_enum (st (ttype x))"
  shows "\<exists>c u m T. common_type (st (ttype x)) (st (ttype y)) = Some (Basic c) \<and>
    areCompat (Basic u) (Basic c) \<and> one_type (Ut m (Basic u)) T \<and>
    convert_operands f x y = Inr (Tv (wrap (Basic c) (tval x)) (Ut m (Basic u)), Tv (wrap (Basic c) (tval y)) T) \<and>
    intInRange (wrap (Basic c) (tval x)) (Basic c) \<and> intInRange (wrap (Basic c) (tval y)) (Basic c)"
proof -
  from convert_operands_spec [OF assms(1,2), of f] obtain x' y' where
    conv: "convert_operands f x y = Inr (x', y')" and wt: "well_typed x'" "well_typed y'"
    and compat: "areCompat (st (ttype x')) (st (ttype y'))"
    and vals: "tval x' = wrap (st (ttype x')) (tval x)" "tval y' = wrap (st (ttype y')) (tval y)"
    using assms(3) by blast
  from convert_operands_type [OF assms conv] obtain u c' where
    u: "st (ttype x') = Basic u" "isPromoted (Basic u)"
    and c': "common_type (st (ttype x)) (st (ttype y)) = Some c'" "areCompat (Basic u) c'" by blast
  from common_type_basic assms(1,2) c'(1) obtain c where c: "c' = Basic c"
    by (fastforce simp: well_typed_def)
  note uc = compat_facts [of u c] c' [unfolded c]
  have y: "tval y' = wrap (Basic u) (tval y)"
    using wrap_compat [of u "st (ttype y')" "tval y"] compat u vals(2) wt(2) by (simp add: well_typed_def)
  have range: "intInRange (tval x') (Basic u)" "intInRange (tval y') (Basic u)"
    using wt u compat compat_basic_in_range [of u "st (ttype y')"] by (simp_all add: well_typed_def)
  have x': "x' = Tv (wrap (Basic c) (tval x)) (Ut (mods (ttype x')) (Basic u))"
    using vals(1) u(1) uc(2,5) by (metis tvalue.collapse utype.collapse)
  have y': "y' = Tv (wrap (Basic c) (tval y)) (ttype y')"
    using y uc(2,5) by (metis tvalue.collapse)
  have "one_type (Ut (mods (ttype x')) (Basic u)) (ttype y')"
    using u compat by (simp add: one_type_def)
  moreover have "intInRange (wrap (Basic c) (tval x)) (Basic c)" "intInRange (wrap (Basic c) (tval y)) (Basic c)"
    using range uc(3,5) vals(1) u(1) y uc(2) by simp_all
  ultimately show ?thesis using conv x' y' uc(4,5) by metis
qed

lemma wrap_int_op: "wrap t (int_op f (wrap t a) (wrap t b)) = wrap t (int_op f a b)"
  by (cases f) (simp_all add: wrap_def mod_simps)

lemma signed_wrap [simp]: "is_signed c \<Longrightarrow> wrap (Basic c) v = v"
  by (simp add: wrap_def)

lemma eval_arith:
  assumes "well_typed x" and "well_typed y" and "\<not> is_enum (st (ttype x))"
  shows "\<exists>c U. common_type (st (ttype x)) (st (ttype y)) = Some (Basic c) \<and> areCompat (st U) (Basic c) \<and>
    eval_binop (Arith f) x y =
      (if is_signed c \<and> \<not> intInRange (int_op f (tval x) (tval y)) (Basic c) then Inl (UNDEF ''CCV1'')
       else Inr (Tv (wrap (Basic c) (int_op f (tval x) (tval y))) U))"
proof -
  have "conversionOp (Arith f)" by (simp add: conversionOp_def)
  from convert_operands_common [OF assms(1,2) this assms(3)] obtain c u m T where
    c: "common_type (st (ttype x)) (st (ttype y)) = Some (Basic c)" and uc: "areCompat (Basic u) (Basic c)"
    and one: "one_type (Ut m (Basic u)) T" and
    conv: "convert_operands (Arith f) x y =
      Inr (Tv (wrap (Basic c) (tval x)) (Ut m (Basic u)), Tv (wrap (Basic c) (tval y)) T)" by blast
  have "eval_binop (Arith f) x y =
    (if is_signed c \<and> \<not> intInRange (int_op f (tval x) (tval y)) (Basic c) then Inl (UNDEF ''CCV1'')
     else Inr (Tv (wrap (Basic c) (int_op f (tval x) (tval y))) (Ut m (Basic u))))"
    using compat_facts [OF uc] one
    by (cases "is_signed c") (simp_all add: eval_binop_def conv intArith_basic wrap_int_op)
  with c uc show ?thesis by (metis utype.sel(2))
qed

lemma smod_same_sign:
  fixes a b :: int
  shows "b \<noteq> 0 \<Longrightarrow> \<bar>a smod b\<bar> < \<bar>b\<bar>" "a smod b = 0 \<or> sgn (a smod b) = sgn a"
    "\<bar>a smod b\<bar> \<le> \<bar>a\<bar>"
proof -
  define r where "r = \<bar>a\<bar> mod \<bar>b\<bar>"
  have r: "0 \<le> r" "r \<le> \<bar>a\<bar>" "b \<noteq> 0 \<longrightarrow> r < \<bar>b\<bar>"
    by (cases "b = 0"; simp add: r_def zmod_le_nonneg_dividend)+
  have "a smod b = sgn a * r" by (simp add: signed_modulo_int_def r_def)
  with r show "b \<noteq> 0 \<Longrightarrow> \<bar>a smod b\<bar> < \<bar>b\<bar>" "a smod b = 0 \<or> sgn (a smod b) = sgn a"
    "\<bar>a smod b\<bar> \<le> \<bar>a\<bar>"
    by (auto simp: sgn_if)
qed

lemma smod_in_range:
  assumes "intInRange a (Basic c)"
  shows "intInRange (a smod b) (Basic c)"
proof -
  have "min 0 a \<le> a smod b \<and> a smod b \<le> max 0 a"
    using smod_same_sign(2,3) [of a b] by (cases a "0::int" rule: linorder_cases) (auto simp: sgn_if split: if_splits)
  with assms imin_le_imax [of c] show ?thesis by (auto simp: intInRange_def)
qed

lemma eval_division:
  assumes "well_typed x" and "well_typed y" and "\<not> is_enum (st (ttype x))"
  shows "\<exists>c U. common_type (st (ttype x)) (st (ttype y)) = Some (Basic c) \<and> areCompat (st U) (Basic c) \<and>
    (let a = wrap (Basic c) (tval x); b = wrap (Basic c) (tval y) in
     if b = 0 then eval_binop Divide x y = Inl (UNDEF ''CEMX1'') \<and> eval_binop Modulo x y = Inl (UNDEF ''CEMX2'')
     else if intInRange (a sdiv b) (Basic c)
     then eval_binop Divide x y = Inr (Tv (a sdiv b) U) \<and> eval_binop Modulo x y = Inr (Tv (a smod b) U)
     else eval_binop Divide x y = Inl (UNDEF ''CCV1'') \<and> eval_binop Modulo x y = Inl (UNDEF ''CEMX3''))"
proof -
  have ops: "conversionOp Divide" "conversionOp Modulo" by (simp_all add: conversionOp_def)
  from convert_operands_common [OF assms(1,2) ops(1) assms(3)] obtain c u m T where
    c: "common_type (st (ttype x)) (st (ttype y)) = Some (Basic c)" and uc: "areCompat (Basic u) (Basic c)"
    and one: "one_type (Ut m (Basic u)) T" and
    conv: "convert_operands Divide x y =
      Inr (Tv (wrap (Basic c) (tval x)) (Ut m (Basic u)), Tv (wrap (Basic c) (tval y)) T)"
    and range: "intInRange (wrap (Basic c) (tval x)) (Basic c)" "intInRange (wrap (Basic c) (tval y)) (Basic c)"
    by blast
  let ?a = "wrap (Basic c) (tval x)" and ?b = "wrap (Basic c) (tval y)"
  have "convert_operands Modulo x y = convert_operands Divide x y"
    by (simp add: convert_operands_def usual_operands_def strip_operands_def ops nonEqualityOp_def)
  moreover have "intInRange (?a smod ?b) (Basic c)" by (rule smod_in_range [OF range(1)])
  moreover have "intInRange (?a sdiv ?b) (Basic c)" if "\<not> is_signed c"
  proof -
    from range that have "0 \<le> ?a" "0 \<le> ?b" "?a \<le> imax c" by (simp_all add: intInRange_def imin_def)
    then show ?thesis using sdiv_int_range [of ?a ?b] that
      by (auto simp: intInRange_def imin_def signed_divide_int_def sgn_if pos_imp_zdiv_nonneg_iff)
  qed
  ultimately have "(let a = ?a; b = ?b in
     if b = 0 then eval_binop Divide x y = Inl (UNDEF ''CEMX1'') \<and> eval_binop Modulo x y = Inl (UNDEF ''CEMX2'')
     else if intInRange (a sdiv b) (Basic c)
     then eval_binop Divide x y = Inr (Tv (a sdiv b) (Ut m (Basic u))) \<and>
       eval_binop Modulo x y = Inr (Tv (a smod b) (Ut m (Basic u)))
     else eval_binop Divide x y = Inl (UNDEF ''CCV1'') \<and> eval_binop Modulo x y = Inl (UNDEF ''CEMX3''))"
    using compat_facts [OF uc] one
    by (auto simp: eval_binop_def conv intArith_basic wrap_in_range one_type_def Let_def)
  with c uc show ?thesis by (metis utype.sel(2))
qed

end
