(* ===== verification/KArithProps.thy ===== *)
theory KArithProps
  imports KArithSound LibcMisc
begin

text \<open>
  Shifts and bitwise operators, unsigned types as machine words, the uniqueness of conversions
  to types other than \<open>_Bool\<close>, and the properties of the integer arithmetic of the semantics. The word
  arithmetic and the checked \<open>int\<close> arithmetic that the model of the C library is
  written with (LibcString, LibcMisc) are shown to be what these rules define.
\<close>

section \<open>Shifts\<close>

fun shift_value :: "shift_op \<Rightarrow> int \<Rightarrow> int \<Rightarrow> int" where
  "shift_value Shl a b = a * 2 ^ nat b"
| "shift_value Shr a b = a div 2 ^ nat b"

lemma int_shift_value: "int_shift_op f a b = shift_value f a b"
  by (cases f) (simp_all add: push_bit_eq_mult drop_bit_eq_div)

lemma shift_value_nonneg: "0 \<le> a \<Longrightarrow> 0 \<le> shift_value f a b"
  by (cases f) (simp_all add: pos_imp_zdiv_nonneg_iff)

definition too_negative :: "shift_op \<Rightarrow> problem" where
  "too_negative f = (case f of Shl \<Rightarrow> UNDEF ''CEB2'' | Shr \<Rightarrow> UNDEF ''CEB6'')"

definition too_wide :: "shift_op \<Rightarrow> problem" where
  "too_wide f = (case f of Shl \<Rightarrow> UNDEF ''CEB3'' | Shr \<Rightarrow> UNDEF ''CEB7'')"

definition negative_left :: "shift_op \<Rightarrow> problem" where
  "negative_left f = (case f of Shl \<Rightarrow> UNDEF ''CEB4'' | Shr \<Rightarrow> IMPL ''CEB8'')"

lemma bitwise_nonneg:
  assumes "0 \<le> n"
  shows "bitwiseInterpret (Ut m (Basic u)) n nz b =
    (if is_signed u \<and> n > imax u then Inl (UNDEF ''CCV1'')
     else Inr (Tv (wrap (Basic u) n) (Ut m (Basic u))))"
  using assms imin_le_imax [of u]
  by (auto simp: bitwiseInterpret_def intArith_basic isNegZero_def intInRange_def) (simp add: imin_def)

lemma apply_shift_basic:
  assumes "isPromoted (Basic u)" and "isPromoted (st T)" and "intInRange a (Basic u)"
  shows "apply_shift f a (Ut m (Basic u)) b T =
    (if b < 0 then Inl (too_negative f)
     else if b \<ge> int (numBits u) then Inl (too_wide f)
     else if a < 0 then Inl (negative_left f)
     else if is_signed u \<and> shift_value f a b > imax u then Inl (UNDEF ''CCV1'')
     else Inr (Tv (wrap (Basic u) (shift_value f a b)) (Ut m (Basic u))))"
proof -
  have "is_signed u" if "a < 0"
    using that assms(3) by (auto simp: intInRange_def imin_def split: if_splits)
  then show ?thesis
    using assms(1,2) bitwise_nonneg [OF shift_value_nonneg [of a f b]]
    by (cases "a < 0")
      (simp_all add: apply_shift_def int_shift_value too_negative_def too_wide_def negative_left_def
        split: shift_op.split)
qed

lemma convert_shift:
  assumes "well_typed x" and "well_typed y" and "\<not> is_enum (st (ttype x))"
  shows "\<exists>u m T. promoted_st (st (ttype x)) = Basic u \<and> isPromoted (Basic u) \<and> isPromoted (st T) \<and>
    convert_operands (Shift f) x y = Inr (Tv (tval x) (Ut m (Basic u)), Tv (tval y) T) \<and>
    intInRange (tval x) (Basic u)"
proof -
  from promote_operand_spec [OF assms(1)] promote_operand_type [OF assms(1)] obtain S where
    S: "promote_operand x = Inr (Tv (tval x) S)" "isPromoted (st S)" "well_typed (Tv (tval x) S)"
       "st S = promoted_st (st (ttype x))" "\<not> is_enum (st S)" using assms(3) by fastforce
  from promote_operand_spec [OF assms(2)] obtain T where
    T: "promote_operand y = Inr (Tv (tval y) T)" "isPromoted (st T)" by blast
  from S(2,5) promoted_basic obtain u where u: "st S = Basic u" by blast
  obtain l r where lr: "strip_operands (Shift f) (Tv (tval x) S) (Tv (tval y) T) = (l, r)" by fastforce
  with strip_operands_spec [of "Shift f" "Tv (tval x) S" "Tv (tval y) T"]
  have l: "l = Tv (tval x) (Ut (mods (ttype l)) (Basic u))" and r: "r = Tv (tval y) (ttype r)" "st (ttype r) = st T"
    by (metis fst_conv snd_conv tvalue.collapse tvalue.sel utype.collapse u)+
  have "\<not> conversionOp (Shift f)" by (cases f) (simp_all add: conversionOp_def)
  then have "convert_operands (Shift f) x y = Inr (l, r)"
    by (simp add: convert_operands_def S(1) T(1) lr usual_operands_def)
  with l r S T u show ?thesis
    by (metis tvalue.sel well_typed_def)
qed

lemma eval_shift:
  assumes "well_typed x" and "well_typed y" and "\<not> is_enum (st (ttype x))"
  shows "\<exists>u m. promoted_st (st (ttype x)) = Basic u \<and> eval_binop (Shift f) x y =
    (if tval y < 0 then Inl (too_negative f)
     else if tval y \<ge> int (numBits u) then Inl (too_wide f)
     else if tval x < 0 then Inl (negative_left f)
     else if is_signed u \<and> shift_value f (tval x) (tval y) > imax u then Inl (UNDEF ''CCV1'')
     else Inr (Tv (wrap (Basic u) (shift_value f (tval x) (tval y))) (Ut m (Basic u))))"
proof -
  from convert_shift [OF assms, of f] obtain u m T where
    "promoted_st (st (ttype x)) = Basic u" "isPromoted (Basic u)" "isPromoted (st T)"
    "convert_operands (Shift f) x y = Inr (Tv (tval x) (Ut m (Basic u)), Tv (tval y) T)"
    "intInRange (tval x) (Basic u)" by blast
  then show ?thesis
    by (intro exI [of _ u] exI [of _ m]) (simp add: eval_binop_def apply_shift_basic)
qed

section \<open>Bitwise operators\<close>

lemma signed_range: "is_signed c \<Longrightarrow> intInRange v (Basic c) \<longleftrightarrow> signed_take_bit (numBits c - 1) v = v"
  by (auto simp: intInRange_def imin_def imax_def signed_take_bit_int_eq_self_iff)

lemma unsigned_range: "\<not> is_signed c \<Longrightarrow> intInRange v (Basic c) \<longleftrightarrow> take_bit (numBits c) v = v"
  by (auto simp: intInRange_def imin_def imax_def take_bit_int_eq_self_iff)

lemma signed_take_bit_op:
  "signed_take_bit k (int_bit_op f a b) = int_bit_op f (signed_take_bit k a) (signed_take_bit k b)"
  by (cases f) (auto intro!: bit_eqI simp: bit_simps)

lemma bit_op_in_range:
  assumes "intInRange a (Basic c)" and "intInRange b (Basic c)"
  shows "intInRange (int_bit_op f a b) (Basic c)"
proof (cases "is_signed c")
  case True
  with assms show ?thesis by (simp add: signed_range signed_take_bit_op)
next
  case False
  with assms show ?thesis by (cases f) (simp_all add: unsigned_range)
qed

lemma eval_bits:
  assumes "well_typed x" and "well_typed y" and "\<not> is_enum (st (ttype x))"
  shows "\<exists>c U. common_type (st (ttype x)) (st (ttype y)) = Some (Basic c) \<and> areCompat (st U) (Basic c) \<and>
    (let a = wrap (Basic c) (tval x); b = wrap (Basic c) (tval y); n = int_bit_op f a b in
     eval_binop (Bit f) x y =
       (if is_signed c \<and> isNegZero n (Basic c) \<and> \<not> isNegZero a (Basic c) \<and> \<not> isNegZero b (Basic c)
        then Inl (IMPLUB ''CEB12'') else Inr (Tv n U)))"
proof -
  have "conversionOp (Bit f)" by (simp add: conversionOp_def)
  from convert_operands_common [OF assms(1,2) this assms(3)] obtain c u m T where
    c: "common_type (st (ttype x)) (st (ttype y)) = Some (Basic c)" and uc: "areCompat (Basic u) (Basic c)"
    and one: "one_type (Ut m (Basic u)) T" and
    conv: "convert_operands (Bit f) x y =
      Inr (Tv (wrap (Basic c) (tval x)) (Ut m (Basic u)), Tv (wrap (Basic c) (tval y)) T)"
    and range: "intInRange (wrap (Basic c) (tval x)) (Basic c)" "intInRange (wrap (Basic c) (tval y)) (Basic c)"
    by blast
  let ?a = "wrap (Basic c) (tval x)" and ?b = "wrap (Basic c) (tval y)"
  have n: "intInRange (int_bit_op f ?a ?b) (Basic c)" by (rule bit_op_in_range [OF range])
  have neg: "isNegZero v (Basic u) = isNegZero v (Basic c)" for v
    using uc by (auto simp: isNegZero_def compatBasic_range)
  have tmin: "tmin (st T) = tmin (Basic c)"
    using one uc by (cases "st T") (auto simp: one_type_def dest!: compatBasic_range)
  have negT: "isNegZero v (st T) = isNegZero v (Basic c)" for v by (simp add: isNegZero_def tmin)
  have "eval_binop (Bit f) x y =
       (if is_signed c \<and> isNegZero (int_bit_op f ?a ?b) (Basic c) \<and>
           \<not> isNegZero ?a (Basic c) \<and> \<not> isNegZero ?b (Basic c)
        then Inl (IMPLUB ''CEB12'') else Inr (Tv (int_bit_op f ?a ?b) (Ut m (Basic u))))"
    using compat_facts [OF uc] one n
    by (auto simp: eval_binop_def conv bitwiseInterpret_def intArith_basic neg negT wrap_in_range
        intro!: signed_wrap)
  with c uc show ?thesis unfolding Let_def by (metis utype.sel(2))
qed

section \<open>Unsigned types as machine words\<close>

fun word_op :: "arith_op \<Rightarrow> 'a::len word \<Rightarrow> 'a word \<Rightarrow> 'a word" where
  "word_op Add v w = v + w" | "word_op Sub v w = v - w" | "word_op Mul v w = v * w"

fun word_bit_op :: "bit_op \<Rightarrow> 'a::len word \<Rightarrow> 'a word \<Rightarrow> 'a word" where
  "word_bit_op BitAnd v w = v AND w"
| "word_bit_op BitXor v w = v XOR w"
| "word_bit_op BitOr v w = v OR w"

fun word_rel_op :: "rel_op \<Rightarrow> 'a::len word \<Rightarrow> 'a word \<Rightarrow> bool" where
  "word_rel_op Lt v w = (v < w)" | "word_rel_op Le v w = (v \<le> w)"
| "word_rel_op Gt v w = (v > w)" | "word_rel_op Ge v w = (v \<ge> w)"
| "word_rel_op Eq v w = (v = w)" | "word_rel_op Ne v w = (v \<noteq> w)"

fun word_shift_op :: "shift_op \<Rightarrow> nat \<Rightarrow> 'a::len word \<Rightarrow> 'a word" where
  "word_shift_op Shl n v = push_bit n v"
| "word_shift_op Shr n v = drop_bit n v"

lemma uint_word_op: "uint (word_op f v w) = int_op f (uint v) (uint w) mod 2 ^ LENGTH('a)"
  for v w :: "'a::len word"
  by (cases f) (simp_all add: uint_word_ariths)

lemma uint_word_bit_op: "uint (word_bit_op f v w) = int_bit_op f (uint v) (uint w)"
  by (cases f) (simp_all add: unsigned_and_eq unsigned_or_eq unsigned_xor_eq)

lemma word_rel_op_uint: "word_rel_op f v w = int_rel_op f (uint v) (uint w)"
  by (cases f) (simp_all add: word_less_def word_le_def word_uint_eq_iff)

lemma uint_word_shift_op:
  "uint (word_shift_op f n v) = shift_value f (uint v) (int n) mod 2 ^ LENGTH('a)"
  for v :: "'a::len word"
proof (cases f)
  case Shl
  have "uint (push_bit n v) = take_bit LENGTH('a) (push_bit n (uint v))" by (rule unsigned_push_bit_eq)
  with Shl show ?thesis by (simp add: take_bit_eq_mod push_bit_eq_mult [of n "uint v"])
next
  case Shr
  have "uint v div 2 ^ n \<le> uint v"
    using zdiv_mono2 [of "uint v" 1 "2 ^ n"] by simp
  moreover have "uint v < 2 ^ LENGTH('a)" by (rule uint_bounded)
  moreover have "0 \<le> uint v div 2 ^ n" by (simp add: pos_imp_zdiv_nonneg_iff)
  ultimately have "uint v div 2 ^ n mod 2 ^ LENGTH('a) = uint v div 2 ^ n"
    by (intro mod_pos_pos_trivial) linarith+
  moreover have "uint (drop_bit n v) = uint v div 2 ^ n"
    unfolding unsigned_drop_bit_eq
    by (simp add: drop_bit_eq_div [of n "uint v"] take_bit_int_eq_self uint_bounded)
  ultimately show ?thesis using Shr by simp
qed

text \<open>
  What the client of a word type relies on: a promoted unsigned type of the semantics, and
  the machine words of its width as its values.
\<close>

locale word_type =
  fixes u :: ityp and rep :: "'a::len word \<Rightarrow> tvalue"
  assumes width: "numBits u = LENGTH('a)" and unsigned: "\<not> is_signed u"
    and promoted: "isPromoted (Basic u)" and rep: "rep w = Tv (uint w) (bare (Basic u))"
begin

lemma imax_u: "imax u + 1 = 2 ^ LENGTH('a)" and imin_u: "imin u = 0"
  using imax_unsigned [OF unsigned] by (simp_all add: width)

lemma wrap_u: "wrap (Basic u) v = v mod 2 ^ LENGTH('a)"
  by (simp add: wrap_def unsigned imax_u)

lemma rep_in_range: "intInRange (uint w) (Basic u)" for w :: "'a word"
proof -
  have "uint w < imax u + 1" unfolding imax_u by (rule uint_bounded)
  then show ?thesis by (simp add: intInRange_def imin_u)
qed

lemma no_conversion: "convert_operands f (rep v) (rep w) = Inr (rep v, rep w)"
  by (simp add: convert_operands_def promote_operand_def rep promoted strip_operands_def
      usual_operands_def fromConstantExpr_def compatBasic_def)

lemma one_rep: "one_type (bare (Basic u)) (bare (Basic u))"
  by (simp add: one_type_def promoted compatBasic_def)

lemma arith: "eval_binop (Arith f) (rep v) (rep w) = Inr (rep (word_op f v w))"
  using one_rep
  unfolding eval_binop_def no_conversion
  by (simp add: rep intArith_basic unsigned wrap_u uint_word_op)

lemma bits: "eval_binop (Bit f) (rep v) (rep w) = Inr (rep (word_bit_op f v w))"
  using one_rep bit_op_in_range [OF rep_in_range rep_in_range, of f v w]
  unfolding eval_binop_def no_conversion
  by (simp add: rep bitwiseInterpret_def intArith_basic unsigned
      uint_word_bit_op wrap_in_range)

lemma compare: "eval_binop (Rel f) (rep v) (rep w) = Inr (Tv (if word_rel_op f v w then 1 else 0) int_type)"
  using one_rep
  unfolding eval_binop_def no_conversion
  by (simp add: rep makeTruth_def makeTruthType_def fromConstantExpr_def
      word_rel_op_uint)

lemma shift:
  "eval_binop (Shift f) (rep v) (rep w) =
     (if unat w < LENGTH('a) then Inr (rep (word_shift_op f (unat w) v)) else Inl (too_wide f))"
proof -
  have w: "uint w \<ge> int (numBits u) \<longleftrightarrow> \<not> unat w < LENGTH('a)"
    by (metis width nat_less_iff not_le unat_eq_nat_uint uint_ge_0)
  have nw: "int (unat w) = uint w" by simp
  show ?thesis
    using uint_word_shift_op [of f "unat w" v] rep_in_range [of v] promoted
    unfolding eval_binop_def no_conversion
    by (simp add: rep apply_shift_basic unsigned w wrap_u nw)
qed

lemma divide:
  "w \<noteq> 0 \<Longrightarrow> eval_binop Divide (rep v) (rep w) = Inr (rep (v div w)) \<and>
     eval_binop Modulo (rep v) (rep w) = Inr (rep (v mod w))"
proof -
  assume w: "w \<noteq> 0"
  then have pos: "0 < uint w" using uint_ge_0 [of w] by (metis less_le uint_0_iff)
  have q: "uint v sdiv uint w = uint (v div w)" and r: "uint v smod uint w = uint (v mod w)"
    using pos by (simp_all add: signed_divide_int_def smod_eq_mod sgn_if uint_div_distrib uint_mod_distrib)
  show ?thesis
    using one_rep pos rep_in_range
    unfolding eval_binop_def no_conversion
    by (simp add: rep intArith_basic unsigned wrap_in_range q r)
qed

lemma divide_zero:
  "eval_binop Divide (rep v) (rep 0) = Inl (UNDEF ''CEMX1'')"
  "eval_binop Modulo (rep v) (rep 0) = Inl (UNDEF ''CEMX2'')"
  unfolding eval_binop_def no_conversion by (simp_all add: rep compatBasic_def)

lemma signs: "eval_unop Plus (rep v) = Inr (rep v)" "eval_unop Minus (rep v) = Inr (rep (- v))"
  using rep_in_range [of v]
  by (simp_all add: eval_unop_def promote_operand_def rep promoted intArith_basic unsigned wrap_in_range
      wrap_u uint_word_ariths)

lemma complement: "eval_unop Complement (rep v) = Inr (rep (NOT v))"
proof -
  have "uint (NOT v) = (NOT (uint v)) mod 2 ^ LENGTH('a)"
    by (simp add: unsigned_not_eq take_bit_eq_mod)
  then show ?thesis
    by (simp add: eval_unop_def promote_operand_def rep promoted bitwiseInterpret_def intArith_basic
        unsigned wrap_u)
qed

lemma negation: "eval_unop LogicalNot (rep v) = Inr (Tv (if v = 0 then 1 else 0) int_type)"
proof -
  have "0 = uint v \<longleftrightarrow> v = 0" by (metis uint_0_iff)
  then show ?thesis
    using unsigned promoted rep_in_range [of v]
    by (cases u) (simp_all add: eval_unop_def eval_binop_def convert_operands_def promote_operand_def rep
        isPromoted.simps strip_operands_def nonEqualityOp_def usual_operands_def conversionOp_def
        compatBasic_def common_int_def promote_def stripBitfield_def usualArithmeticConversion_aux_def
        hasSameSignedness_def cast_def Let_def castTypes_def one_type_def makeTruth_def makeTruthType_def
        fromConstantExpr_def range_simps)
qed

lemma unary:
  "eval_unop f (rep v) = Inr (case f of
     Plus \<Rightarrow> rep v | Minus \<Rightarrow> rep (- v) | Complement \<Rightarrow> rep (NOT v)
   | LogicalNot \<Rightarrow> Tv (if v = 0 then 1 else 0) int_type)"
  by (cases f) (simp_all add: signs complement negation)

lemma division:
  "eval_binop Divide (rep v) (rep w) = (if w = 0 then Inl (UNDEF ''CEMX1'') else Inr (rep (v div w)))"
  "eval_binop Modulo (rep v) (rep w) = (if w = 0 then Inl (UNDEF ''CEMX2'') else Inr (rep (v mod w)))"
  using divide [of w v] divide_zero [of v] by simp_all

end

definition uint_value :: "u32 \<Rightarrow> tvalue" where
  "uint_value w = Tv (uint w) (bare (Basic UnsignedInt))"

definition ulong_value :: "u64 \<Rightarrow> tvalue" where
  "ulong_value w = Tv (uint w) (bare (Basic UnsignedLongInt))"

interpretation uint_words: word_type UnsignedInt uint_value
  by unfold_locales (simp_all add: uint_value_def range_simps isPromoted.simps)

interpretation ulong_words: word_type UnsignedLongInt ulong_value
  by unfold_locales (simp_all add: ulong_value_def range_simps isPromoted.simps)

section \<open>Results are well-typed, and there is one\<close>

lemma eval_binop_well_typed:
  assumes "well_typed x" and "well_typed y" and "eval_binop f x y = Inr z"
  shows "well_typed z"
proof -
  from convert_operands_spec [OF assms(1,2), of f] obtain x' y' where
    "convert_operands f x y = Inr (x', y')" "well_typed x'" by blast
  with assms(3) apply_binop_well_typed [of x' f y' z] show ?thesis
    by (simp add: eval_binop_def well_typed_def)
qed

lemma eval_binop_progress:
  assumes "well_typed x" and "well_typed y" and "\<not> is_enum (st (ttype x))"
  shows "eval_binop f x y \<noteq> Inl Stuck"
proof -
  from convert_operands_spec [OF assms(1,2), of f] assms(3) obtain x' y' where
    "convert_operands f x y = Inr (x', y')" "well_typed x'"
    "isPromoted (st (ttype x'))" "isPromoted (st (ttype y'))"
    "conversionOp f \<longrightarrow> areCompat (st (ttype x')) (st (ttype y'))" "\<not> is_enum (st (ttype x'))" by blast
  with apply_binop_progress [of x' y' f] show ?thesis by (simp add: eval_binop_def)
qed

abbreviation const_int :: "int \<Rightarrow> tvalue" where
  "const_int n \<equiv> Tv n (Ut {IntegerConstant} (Basic PlainInt))"

lemma well_typed_const_int: "- (2 ^ 31) \<le> n \<Longrightarrow> n < 2 ^ 31 \<Longrightarrow> well_typed (const_int n)"
  by (simp add: well_typed_def range_simps)

lemma eval_unop_sound:
  assumes "well_typed x"
  shows "eval_unop f x = Inr z \<Longrightarrow> well_typed z"
    and "\<not> is_enum (st (ttype x)) \<Longrightarrow> eval_unop f x \<noteq> Inl Stuck"
proof -
  from promote_operand_spec [OF assms] obtain T where
    T: "promote_operand x = Inr (Tv (tval x) T)" "isPromoted (st T)" "well_typed (Tv (tval x) T)"
       "is_enum (st T) \<longrightarrow> is_enum (st (ttype x))" by blast
  then have wf: "wf_type (st T)" by (simp add: well_typed_def)
  have zero: "well_typed (const_int 0)" by (rule well_typed_const_int) simp_all
  note ok = intArith_well_typed [OF wf T(2)] bitwise_well_typed [OF wf T(2)]
    eval_binop_well_typed [OF zero assms]
  show "eval_unop f x = Inr z \<Longrightarrow> well_typed z"
    by (cases f) (auto simp: eval_unop_def T(1) dest: ok)
  show "\<not> is_enum (st (ttype x)) \<Longrightarrow> eval_unop f x \<noteq> Inl Stuck"
    using T(4) intArith_progress [of T] bitwise_progress [of T] eval_binop_progress [OF zero assms]
    by (cases f) (auto simp: eval_unop_def T(1))
qed

section \<open>Which rule converts\<close>

lemma compat_range:
  assumes "areCompat t' t" and "signedInteger t' \<or> unsignedInteger t'" and "intInRange v t"
  shows "intInRange v t'"
proof (cases t')
  case (Basic u)
  with assms compat_basic_in_range show ?thesis by blast
next
  case (Bitfield u n)
  with assms show ?thesis by (cases t) (auto simp: intInRange_def compatBasic_def)
qed (use assms in simp)

lemma unsigned_bounds: "unsignedInteger t \<Longrightarrow> tmin t = 0 \<and> 0 \<le> tmax t"
  by (cases t) (auto simp: imin_def imax_def)

lemma cast_rule_unique:
  assumes "cast_rule T' x e r" and "well_typed x" and "\<not> isBool (st T')"
  shows "r = cast T' x e"
proof -
  obtain v T where x: "x = Tv v T" by (cases x)
  with assms(2) have v: "intInRange v (st T)" by (simp add: well_typed_def)
  show ?thesis
    using assms(1,3) compat_range [of "st T'" "st T", OF _ _ v] signed_or_unsigned [of "st T'"] unsigned_bounds [of "st T'"]
    unfolding x cast_rule_Tv
    by (auto simp: cast_def Let_def intInRange_def)
qed

lemma cast_by_rule:
  "cast T' x e \<noteq> Inl Stuck \<Longrightarrow> cast_rule T' x e (cast T' x e)"
  by (cases x) (auto simp: cast_def Let_def cast_rule_Tv split: if_splits)

section \<open>The checked arithmetic of the C library\<close>

abbreviation int_value :: "int \<Rightarrow> tvalue" where
  "int_value n \<equiv> Tv n int_type"

abbreviation char_value :: "u8 \<Rightarrow> tvalue" where
  "char_value b \<equiv> Tv (sint b) (bare (Basic CharType))"

text \<open>What a result of the model of the library is as a result of the semantics.\<close>

definition as_kres :: "int ubres \<Rightarrow> kres" where
  "as_kres r = (case r of Inl e \<Rightarrow> Inl (UNDEF ''CCV1'') | Inr v \<Rightarrow> Inr (int_value v))"

lemma as_kres_simps [simp]: "as_kres (Inr v) = Inr (int_value v)" "as_kres (Inl e) = Inl (UNDEF ''CCV1'')"
  by (simp_all add: as_kres_def)

lemma int_check_interpret: "intArithInterpret int_type n b = as_kres (int_check n)"
  by (simp add: intArith_basic int_check_def range_simps)

lemma sint_u8_range: "- 128 \<le> sint (b :: u8) \<and> sint b \<le> 127"
  using sint_greater_eq [of b] sint_less [of b] by simp

lemma int_const_arith: "eval_binop (Arith f) (int_value a) (const_int n) = as_kres (int_check (int_op f a n))"
  by (simp add: eval_binop_def convert_operands_def promote_operand_def isPromoted.simps
      strip_operands_def nonEqualityOp_def fromConstantExpr_def strip_value_def stripConstants_def
      usual_operands_def compatBasic_def one_type_def int_check_interpret)

lemma promote_char_value: "promote_operand (char_value b) = Inr (int_value (sint b))"
  using sint_u8_range [of b]
  by (simp add: promote_operand_def promote_def cast_def Let_def castTypes_def isPromoted.simps
      compatBasic_def range_simps)

lemma int_char_arith: "eval_binop (Arith f) (int_value a) (char_value b) = as_kres (int_check (int_op f a (sint b)))"
  by (simp add: eval_binop_def convert_operands_def promote_char_value)
     (simp add: promote_operand_def isPromoted.simps strip_operands_def fromConstantExpr_def
      usual_operands_def compatBasic_def one_type_def int_check_interpret)

lemma int_minus: "eval_unop Minus (int_value a) = as_kres (int_check (- a))"
  by (simp add: eval_unop_def promote_operand_def isPromoted.simps int_check_interpret)

lemma bindr_as_kres:
  "(\<And>v. g (int_value v) = as_kres (f v)) \<Longrightarrow> bindr (as_kres r) g = as_kres (bindr r f)"
  by (cases r) simp_all

section \<open>The quotient that overflows\<close>



section \<open>Properties\<close>

text \<open>
  C6: \<open>+\<close>, \<open>-\<close> and \<open>*\<close> on integers of any types that are not enumerations (bit-fields, the
  character types and \<open>_Bool\<close> included). The operands are converted to the common type of the
  usual arithmetic conversions, which exists. On a signed common type the result is the exact
  mathematical result of the values before any conversion, or, when that is not representable,
  undefined behaviour is reported (CCV1); on an unsigned one it is the exact result reduced
  modulo the number of values of the type.\<close>
theorem arithmetic_exact_or_wrapped:
  assumes "well_typed x" and "well_typed y" and "\<not> is_enum (st (ttype x))"
  shows "\<exists>c U. common_type (st (ttype x)) (st (ttype y)) = Some (Basic c) \<and> areCompat (st U) (Basic c) \<and>
    eval_binop (Arith f) x y =
      (let n = int_op f (tval x) (tval y) in
       if is_signed c
       then if imin c \<le> n \<and> n \<le> imax c then Inr (Tv n U) else Inl (UNDEF ''CCV1'')
       else Inr (Tv (n mod 2 ^ numBits c) U))"
proof -
  from eval_arith [OF assms, of f] obtain c U where
    c: "common_type (st (ttype x)) (st (ttype y)) = Some (Basic c)" "areCompat (st U) (Basic c)"
    and r: "eval_binop (Arith f) x y =
      (if is_signed c \<and> \<not> intInRange (int_op f (tval x) (tval y)) (Basic c) then Inl (UNDEF ''CCV1'')
       else Inr (Tv (wrap (Basic c) (int_op f (tval x) (tval y))) U))" by blast
  from r have "eval_binop (Arith f) x y =
      (let n = int_op f (tval x) (tval y) in
       if is_signed c
       then if imin c \<le> n \<and> n \<le> imax c then Inr (Tv n U) else Inl (UNDEF ''CCV1'')
       else Inr (Tv (n mod 2 ^ numBits c) U))"
    using imax_unsigned [of c] by (auto simp: Let_def intInRange_def wrap_def)
  with c show ?thesis by blast
qed

theorem arithmetic_exact_or_wrapped_witness:
  "\<exists>c U. common_type (Bitfield UnsignedInt 3) (Basic UnsignedLongInt) = Some (Basic c) \<and>
     areCompat (st U) (Basic c) \<and>
     eval_binop (Arith Sub) (Tv 5 (bare (Bitfield UnsignedInt 3))) (Tv 6 (bare (Basic UnsignedLongInt))) =
      (let n = - 1 in
       if is_signed c
       then if imin c \<le> n \<and> n \<le> imax c then Inr (Tv n U) else Inl (UNDEF ''CCV1'')
       else Inr (Tv (n mod 2 ^ numBits c) U))"
  using arithmetic_exact_or_wrapped
    [of "Tv 5 (bare (Bitfield UnsignedInt 3))" "Tv 6 (bare (Basic UnsignedLongInt))" Sub]
  by (simp add: well_typed_def range_simps)

text \<open>
  C11: Type soundness of integer expressions. Every result of a unary or binary operator on
  well-typed integers lies in the range of its type, whatever the types are; and unless the
  (left) operand is of enumeration type, the evaluation reaches a value or a report of undefined
  or implementation-defined behaviour: no combination of types and values leaves it without an
  applicable rule.\<close>
theorem integer_operators_sound:
  assumes "well_typed x" and "well_typed y"
  shows "(\<forall>z. eval_binop f x y = Inr z \<longrightarrow> well_typed z) \<and> (\<forall>z. eval_unop g x = Inr z \<longrightarrow> well_typed z) \<and>
    (\<not> is_enum (st (ttype x)) \<longrightarrow> eval_binop f x y \<noteq> Inl Stuck \<and> eval_unop g x \<noteq> Inl Stuck)"
  using eval_binop_well_typed [OF assms] eval_binop_progress [OF assms] eval_unop_sound [OF assms(1)]
  by blast

theorem integer_operators_sound_witness:
  "eval_binop (Shift Shl) (Tv 255 (bare (Basic UnsignedChar))) (Tv 40 (bare (Basic LongInt))) \<noteq> Inl Stuck"
  using integer_operators_sound
    [of "Tv 255 (bare (Basic UnsignedChar))" "Tv 40 (bare (Basic LongInt))" "Shift Shl" Minus]
  by (simp add: well_typed_def range_simps)





text \<open>
  C26: On \<open>unsigned long\<close>, the \<open>size_t\<close> of the profile, and on \<open>unsigned int\<close> every binary and
  unary operator is the operation of 64-bit and of 32-bit machine words: sums, differences and
  products wrap, the bitwise operators and comparisons act on the words, shifts by less than the
  width shift and others are reported, division and remainder are those of words with a report
  for a zero divisor, unary \<open>-\<close> and \<open>~\<close> are negation and complement of the word, unary \<open>+\<close>
  keeps it and \<open>!\<close> compares it with zero. These are the operations with which the functions of
  string.c and builtins.c are modelled.\<close>
theorem unsigned_operators_are_word_operators:
  "eval_binop (Arith f) (ulong_value v) (ulong_value w) = Inr (ulong_value (word_op f v w)) \<and>
   eval_binop (Bit g) (ulong_value v) (ulong_value w) = Inr (ulong_value (word_bit_op g v w)) \<and>
   eval_binop (Rel h) (ulong_value v) (ulong_value w) = Inr (int_value (if word_rel_op h v w then 1 else 0)) \<and>
   eval_binop (Shift s) (ulong_value v) (ulong_value w) =
     (if unat w < 64 then Inr (ulong_value (word_shift_op s (unat w) v)) else Inl (too_wide s)) \<and>
   eval_binop Divide (ulong_value v) (ulong_value w) =
     (if w = 0 then Inl (UNDEF ''CEMX1'') else Inr (ulong_value (v div w))) \<and>
   eval_binop Modulo (ulong_value v) (ulong_value w) =
     (if w = 0 then Inl (UNDEF ''CEMX2'') else Inr (ulong_value (v mod w))) \<and>
   eval_unop o1 (ulong_value v) = Inr (case o1 of
     Plus \<Rightarrow> ulong_value v | Minus \<Rightarrow> ulong_value (- v) | Complement \<Rightarrow> ulong_value (NOT v)
   | LogicalNot \<Rightarrow> int_value (if v = 0 then 1 else 0)) \<and>
   eval_binop (Arith f) (uint_value a) (uint_value b) = Inr (uint_value (word_op f a b)) \<and>
   eval_binop (Bit g) (uint_value a) (uint_value b) = Inr (uint_value (word_bit_op g a b)) \<and>
   eval_binop (Rel h) (uint_value a) (uint_value b) = Inr (int_value (if word_rel_op h a b then 1 else 0)) \<and>
   eval_binop (Shift s) (uint_value a) (uint_value b) =
     (if unat b < 32 then Inr (uint_value (word_shift_op s (unat b) a)) else Inl (too_wide s)) \<and>
   eval_binop Divide (uint_value a) (uint_value b) =
     (if b = 0 then Inl (UNDEF ''CEMX1'') else Inr (uint_value (a div b))) \<and>
   eval_binop Modulo (uint_value a) (uint_value b) =
     (if b = 0 then Inl (UNDEF ''CEMX2'') else Inr (uint_value (a mod b))) \<and>
   eval_unop o1 (uint_value a) = Inr (case o1 of
     Plus \<Rightarrow> uint_value a | Minus \<Rightarrow> uint_value (- a) | Complement \<Rightarrow> uint_value (NOT a)
   | LogicalNot \<Rightarrow> int_value (if a = 0 then 1 else 0))"
  by (intro conjI ulong_words.arith ulong_words.bits ulong_words.compare ulong_words.division
      ulong_words.unary uint_words.arith uint_words.bits uint_words.compare uint_words.division
      uint_words.unary)
     (simp_all add: ulong_words.shift uint_words.shift)

text \<open>
  The arithmetic of atoi and abs, by the rules. The loop body \<open>res = res * 10 + *c - '0'\<close> of
  atoi and the negation of abs, evaluated operator by operator with the promotions of the
  \<open>char\<close> operand, give the value that the checked arithmetic in the model of the library gives,
  and an overflow there is the report CCV1 of the semantics.\<close>
lemma library_arithmetic_by_rules:
  "bindr (eval_binop (Arith Mul) (int_value res) (const_int 10)) (\<lambda>p.
   bindr (eval_binop (Arith Add) p (char_value c)) (\<lambda>s. eval_binop (Arith Sub) s (const_int 48))) =
     as_kres (bindr (int_check (res * 10)) (\<lambda>p. bindr (int_check (p + sint c)) (\<lambda>s. int_check (s - 48)))) \<and>
   (if num \<ge> 0 then Inr (int_value num) else eval_unop Minus (int_value num)) = as_kres (c_abs num)"
  by (simp add: int_const_arith int_minus c_abs_def)
     (intro bindr_as_kres; simp add: int_char_arith int_const_arith; intro bindr_as_kres; simp add: int_const_arith)

end
