(* ===== verification/KPointerProps.thy ===== *)
theory KPointerProps
  imports KPointer KArithProps
begin

text \<open>
  What the rules for pointers guarantee. The contract of pointer arithmetic is the locale
  \<open>bounded_walk\<close>: a step succeeds exactly when it stays between the two ends of a run of
  bytes, and moves by a multiple of the size of an element. The rules of the semantics meet it
  for every pointer into a live array, and so does the arithmetic of the memory that the C
  library is verified on (KMemRefine). From it follow the properties of sequences of steps.
\<close>

section \<open>The contract of pointer arithmetic\<close>

fun walk :: "('p \<Rightarrow> int \<Rightarrow> ('e, 'p) res) \<Rightarrow> 'p \<Rightarrow> int list \<Rightarrow> ('e, 'p) res" where
  "walk step p [] = Inr p"
| "walk step p (k # ks) = bindr (step p k) (\<lambda>q. walk step q ks)"

text \<open>The positions a walk from \<open>i\<close> visits, the first one left out.\<close>

fun positions :: "int \<Rightarrow> int \<Rightarrow> int list \<Rightarrow> int list" where
  "positions s i [] = []"
| "positions s i (k # ks) = (i + k * s) # positions s (i + k * s) ks"

locale bounded_walk =
  fixes step :: "'p \<Rightarrow> int \<Rightarrow> ('e, 'p) res"
    and ok :: "'p \<Rightarrow> bool"
    and pos :: "'p \<Rightarrow> int"
    and limit :: int
    and elem :: int
    and bad :: "'e \<Rightarrow> bool"
  assumes step_inside: "ok p \<Longrightarrow> 0 \<le> pos p + k * elem \<Longrightarrow> pos p + k * elem \<le> limit \<Longrightarrow>
      \<exists>q. step p k = Inr q \<and> ok q \<and> pos q = pos p + k * elem"
    and step_outside: "ok p \<Longrightarrow> \<not> (0 \<le> pos p + k * elem \<and> pos p + k * elem \<le> limit) \<Longrightarrow>
      \<exists>e. step p k = Inl e \<and> bad e"
    and ok_inside: "ok p \<Longrightarrow> 0 \<le> pos p \<and> pos p \<le> limit"
begin

lemma step_cases:
  assumes "ok p"
  obtains q where "step p k = Inr q" and "ok q" and "pos q = pos p + k * elem"
    and "0 \<le> pos p + k * elem" and "pos p + k * elem \<le> limit"
  | e where "step p k = Inl e" and "bad e"
    and "\<not> (0 \<le> pos p + k * elem \<and> pos p + k * elem \<le> limit)"
  using step_inside [OF assms, of k] step_outside [OF assms, of k] by blast

lemma walk_ok:
  "ok p \<Longrightarrow> walk step p ks = Inr q \<Longrightarrow> ok q \<and> pos q = pos p + sum_list ks * elem"
proof (induction ks arbitrary: p)
  case Nil
  then show ?case by simp
next
  case (Cons k ks)
  from \<open>ok p\<close> show ?case
    by (cases rule: step_cases [where k = k])
      (use Cons.prems Cons.IH in \<open>auto simp: algebra_simps\<close>)
qed

lemma walk_inside_iff:
  "ok p \<Longrightarrow> (\<exists>q. walk step p ks = Inr q) \<longleftrightarrow> (\<forall>i \<in> set (positions elem (pos p) ks). 0 \<le> i \<and> i \<le> limit)"
proof (induction ks arbitrary: p)
  case Nil
  then show ?case by simp
next
  case (Cons k ks)
  from \<open>ok p\<close> show ?case
  proof (cases rule: step_cases [where k = k])
    case (1 q)
    with Cons.IH [of q] show ?thesis by simp
  next
    case (2 e)
    then show ?thesis by auto
  qed
qed

lemma walk_error: "ok p \<Longrightarrow> walk step p ks = Inl e \<Longrightarrow> bad e"
proof (induction ks arbitrary: p)
  case Nil
  then show ?case by simp
next
  case (Cons k ks)
  from \<open>ok p\<close> show ?case
    by (cases rule: step_cases [where k = k]) (use Cons in auto)
qed

end

section \<open>Types\<close>

lemma strip_idem [simp]:
  "stripQualifiers (stripQualifiers T) = stripQualifiers T" "unqualSimple (unqualSimple s) = unqualSimple s"
  by (induction T and s rule: stripQualifiers_unqualSimple.induct) simp_all

lemma areParamsCompat_refl:
  "(\<And>T. T \<in> set ps \<Longrightarrow> areCompatible (stripQualifiers T) (stripQualifiers T)) \<Longrightarrow> areParamsCompat ps ps"
  by (induction ps) auto

lemma compat_refl:
  "areCompatible T T \<and> areCompatible (stripQualifiers T) (stripQualifiers T)"
  "areSimpleCompat s s \<and> areSimpleCompat (unqualSimple s) (unqualSimple s)"
  by (induction T and s) (auto simp: areParamsCompat_refl compatBasic_def)

lemma areCompatible_refl [simp]: "areCompatible T T"
  using compat_refl(1) by blast

section \<open>Pointers into an array\<close>

text \<open>A base that \<open>checkUse\<close> takes as it is.\<close>

definition resolved :: "'b kconf \<Rightarrow> symbase \<Rightarrow> bool" where
  "resolved c B \<longleftrightarrow> linkings c B = None \<and> \<not> (isLinkBase B \<and> executing c)"

text \<open>
  The pointer \<open>v\<close> points into, or one past the end of, the array of \<open>n\<close> bytes from
  \<open>start\<close> on of the live object \<open>B\<close>: its provenance says so, or it has none and the
  array is the whole object.
\<close>

definition array_pointer :: "'b kconf \<Rightarrow> symbase \<Rightarrow> int \<Rightarrow> int \<Rightarrow> pvalue \<Rightarrow> bool" where
  "array_pointer c B start n v \<longleftrightarrow>
     resolved c B \<and> base (ploc v) = Some B \<and>
     (case (kmem c B, offset (ploc v)) of
        (Some ob, Some off) \<Rightarrow> 0 \<le> start \<and> start + n \<le> klen ob \<and> start \<le> off \<and> off \<le> start + n \<and>
          (if isFromArray (ploc v)
           then (\<forall>p \<in> set (prov (ploc v)). is_from_array p \<longrightarrow> p = FromArray (off - start) n)
           else start = 0 \<and> n = klen ob)
      | _ \<Rightarrow> False)"

lemma in_bounds_items:
  "\<forall>p \<in> set pv. is_from_array p \<longrightarrow> p = FromArray a n \<Longrightarrow>
   ifFromArrayInBounds_items pv T i \<longleftrightarrow>
     (list_ex is_from_array pv \<longrightarrow> 0 \<le> a + i * byteSizeofType T \<and> a + i * byteSizeofType T \<le> n)"
  by (induction pv T i rule: ifFromArrayInBounds_items.induct) auto

lemma is_from_array_move [simp]: "is_from_array (move_item T i p) = is_from_array p"
  by (cases p) simp_all

lemma list_ex_move [simp]: "list_ex is_from_array (map (move_item T i) pv) = list_ex is_from_array pv"
  by (induction pv) simp_all

text \<open>The location a step leads to.\<close>

definition moved :: "pvalue \<Rightarrow> int \<Rightarrow> pvalue" where
  "moved v k = Pv (plus_bytes (newFromArray (ploc v) (innerType (ptype v)) k)
     (k * byteSizeofType (innerType (ptype v)))) (ptype v)"

lemma ptype_moved [simp]: "ptype (moved v k) = ptype v"
  by (simp add: moved_def)

lemma base_moved [simp]: "base (ploc (moved v k)) = base (ploc v)"
  by (cases "ploc v") (simp_all add: moved_def)

lemma offset_moved [simp]:
  "offset (ploc (moved v k)) = map_option (\<lambda>off. off + k * byteSizeofType (innerType (ptype v))) (offset (ploc v))"
  by (cases "ploc v") (simp_all add: moved_def)

lemma isFromArray_moved [simp]: "isFromArray (ploc (moved v k)) = isFromArray (ploc v)"
  by (cases "ploc v") (simp_all add: moved_def isFromArray_def)

lemma array_pointerD:
  assumes "array_pointer c B start n v"
  obtains ob off where "kmem c B = Some ob" and "offset (ploc v) = Some off" and "base (ploc v) = Some B"
    and "0 \<le> start" and "start + n \<le> klen ob" and "start \<le> off" and "off \<le> start + n"
    and "resolved c B"
    and "isFromArray (ploc v) \<Longrightarrow> \<forall>p \<in> set (prov (ploc v)). is_from_array p \<longrightarrow> p = FromArray (off - start) n"
    and "\<not> isFromArray (ploc v) \<Longrightarrow> start = 0 \<and> n = klen ob"
  using assms by (auto simp: array_pointer_def split: option.splits if_splits)

lemma in_bounds_iff:
  assumes "isFromArray L \<Longrightarrow> \<forall>p \<in> set (prov L). is_from_array p \<longrightarrow> p = FromArray a n"
  shows "ifFromArrayInBounds L T i \<longleftrightarrow>
    (isFromArray L \<longrightarrow> 0 \<le> a + i * byteSizeofType T \<and> a + i * byteSizeofType T \<le> n)"
proof -
  have "\<forall>p \<in> set (prov L). is_from_array p \<longrightarrow> p = FromArray a n"
    using assms by (cases "isFromArray L") (auto simp: isFromArray_def list_ex_iff)
  then show ?thesis
    unfolding ifFromArrayInBounds_def isFromArray_def by (rule in_bounds_items)
qed

lemma checkUse_at:
  assumes "kmem c B = Some ob" and "resolved c B"
    and "base (ploc v) = Some B" and "offset (ploc v) = Some off"
  shows "checkUse c v = (if 0 \<le> off \<and> off \<le> klen ob then Inr v else Inl (UNDEF ''CEE3''))"
  using assms by (cases v; cases "ploc v")
    (auto simp: resolved_def checkUse_def checkLoc_def checkLocAllowLink_def)

lemma addToPointer_at:
  assumes ob: "kmem c B = Some ob" and lk: "resolved c B"
    and B: "base (ploc v) = Some B" and off: "offset (ploc v) = Some off"
    and bnd: "0 \<le> start" "start + n \<le> klen ob"
    and pv: "isFromArray (ploc v) \<Longrightarrow>
      \<forall>p \<in> set (prov (ploc v)). is_from_array p \<longrightarrow> p = FromArray (off - start) n"
    and np: "\<not> isFromArray (ploc v) \<Longrightarrow> start = 0 \<and> n = klen ob"
    and q: "q = off + k * byteSizeofType (innerType (ptype v))"
  shows "addToPointer c (ploc v) (ptype v) k =
    (if start \<le> q \<and> q \<le> start + n then Inr (moved v k)
     else Inl (UNDEF (if isFromArray (ploc v) then ''CEA1'' else ''CEE3'')))"
proof -
  have use: "checkUse c (moved v k) = (if 0 \<le> q \<and> q \<le> klen ob then Inr (moved v k) else Inl (UNDEF ''CEE3''))"
    using ob lk B off q by (intro checkUse_at) simp_all
  have "ifFromArrayInBounds (ploc v) (innerType (ptype v)) k \<longleftrightarrow>
      (isFromArray (ploc v) \<longrightarrow> start \<le> q \<and> q \<le> start + n)"
    unfolding q by (subst in_bounds_iff [OF pv]) auto
  then show ?thesis
    using use bnd np unfolding addToPointer_def moved_def by auto
qed

lemma addToPointer_array:
  assumes "array_pointer c B start n v" and "offset (ploc v) = Some off"
    and "q = off + k * byteSizeofType (innerType (ptype v))"
  shows "addToPointer c (ploc v) (ptype v) k =
    (if start \<le> q \<and> q \<le> start + n then Inr (moved v k)
     else Inl (UNDEF (if isFromArray (ploc v) then ''CEA1'' else ''CEE3'')))"
proof -
  from assms(1,2) obtain ob where "kmem c B = Some ob" "resolved c B" "base (ploc v) = Some B"
    "0 \<le> start" "start + n \<le> klen ob"
    "isFromArray (ploc v) \<Longrightarrow>
      \<forall>p \<in> set (prov (ploc v)). is_from_array p \<longrightarrow> p = FromArray (off - start) n"
    "\<not> isFromArray (ploc v) \<Longrightarrow> start = 0 \<and> n = klen ob"
    by (auto elim!: array_pointerD)
  then show ?thesis using addToPointer_at [of c B ob v off start n q k] assms(2,3) by blast
qed

lemma array_pointer_moved:
  assumes "array_pointer c B start n v" and "offset (ploc v) = Some off"
    and "q = off + k * byteSizeofType (innerType (ptype v))" and "start \<le> q" and "q \<le> start + n"
  shows "array_pointer c B start n (moved v k)"
proof -
  have "p \<in> set (prov (ploc (moved v k))) \<Longrightarrow> is_from_array p \<Longrightarrow> p = FromArray (q - start) n"
    if "\<forall>p \<in> set (prov (ploc v)). is_from_array p \<longrightarrow> p = FromArray (off - start) n" for p
    using that assms(3) by (cases "ploc v") (fastforce simp: moved_def)+
  with assms show ?thesis
    by (auto simp: array_pointer_def split: option.splits if_splits)
qed

text \<open>Moving there and back.\<close>

lemma moved_back: "moved (moved v k) (- k) = v"
proof -
  have "map (move_item T (- k)) (map (move_item T k) pv) = pv" for T pv
  proof (induction pv)
    case (Cons p pv)
    then show ?case by (cases p) simp_all
  qed simp
  then show ?thesis by (cases v; cases "ploc v") (simp_all add: moved_def)
qed

section \<open>The rules meet the contract\<close>

definition arithmetic_pointee :: "ktype \<Rightarrow> bool" where
  "arithmetic_pointee T \<longleftrightarrow> isCompleteType T \<and> \<not> isFunctionType T"

definition walkable :: "'b kconf \<Rightarrow> symbase \<Rightarrow> int \<Rightarrow> int \<Rightarrow> ptrtype \<Rightarrow> iutype \<Rightarrow> pvalue \<Rightarrow> bool" where
  "walkable c B start n T I v \<longleftrightarrow> array_pointer c B start n v \<and> ptype v = T \<and>
     arithmetic_pointee (innerType T) \<and> isPromoted (st I)"

definition out_of_bounds :: "problem \<Rightarrow> bool" where
  "out_of_bounds e \<longleftrightarrow> e = UNDEF ''CEA1'' \<or> e = UNDEF ''CEE3''"

abbreviation add_step :: "'b kconf \<Rightarrow> iutype \<Rightarrow> pvalue \<Rightarrow> int \<Rightarrow> pres" where
  "add_step c I v k \<equiv> add_pointer c v (Tv k I)"

lemma add_step_walkable:
  assumes "walkable c B start n T I v" and "offset (ploc v) = Some off"
    and "q = off + k * byteSizeofType (innerType T)"
  shows "add_step c I v k =
    (if start \<le> q \<and> q \<le> start + n then Inr (moved v k)
     else Inl (UNDEF (if isFromArray (ploc v) then ''CEA1'' else ''CEE3'')))"
  using assms addToPointer_array [of c B start n v off q k]
  by (simp add: walkable_def add_pointer_def arithmetic_pointee_def)

interpretation kp: bounded_walk "add_step c I" "walkable c B start n T I"
    "\<lambda>v. the (offset (ploc v)) - start" n "byteSizeofType (innerType T)" out_of_bounds
  for c I B start n T
proof unfold_locales
  fix v k
  let ?d = "k * byteSizeofType (innerType T)"
  assume v: "walkable c B start n T I v"
  then obtain off where off: "offset (ploc v) = Some off" and bnd: "start \<le> off" "off \<le> start + n"
    by (auto simp: walkable_def elim!: array_pointerD)
  note step = add_step_walkable [OF v off refl, of k]
  from bnd off show "0 \<le> the (offset (ploc v)) - start \<and> the (offset (ploc v)) - start \<le> n" by simp
  show "\<exists>q. add_step c I v k = Inr q \<and> walkable c B start n T I q \<and>
      the (offset (ploc q)) - start = the (offset (ploc v)) - start + ?d"
    if "0 \<le> the (offset (ploc v)) - start + ?d" "the (offset (ploc v)) - start + ?d \<le> n"
    using that v off step array_pointer_moved [of c B start n v off "off + ?d" k]
    by (auto simp: walkable_def)
  show "\<exists>e. add_step c I v k = Inl e \<and> out_of_bounds e"
    if "\<not> (0 \<le> the (offset (ploc v)) - start + ?d \<and> the (offset (ploc v)) - start + ?d \<le> n)"
    using that off step by (auto simp: out_of_bounds_def)
qed

section \<open>Properties\<close>

lemma compat_strip_refl [simp]: "areCompatible (stripQualifiers T) (stripQualifiers T)"
  by simp

lemma sdiv_mult_self [simp]: "0 < s \<Longrightarrow> (k * s) sdiv s = (k::int)"
  by (simp add: signed_divide_int_def sgn_mult abs_mult mult_sgn_abs)

lemma smod_mult_self [simp]: "0 < s \<Longrightarrow> (k * s) smod s = (0::int)"
  by (simp add: signed_modulo_int_def)

lemma computePointerDifference_multiple:
  "0 < s \<Longrightarrow> tmin (st T) \<le> k \<Longrightarrow> k \<le> tmax (st T) \<Longrightarrow>
   computePointerDifference (k * s) s T = Inr (Tv k T)"
  by (simp add: computePointerDifference_def)

lemma quotient_bounded:
  assumes "0 < (s::int)" and "\<bar>k * s\<bar> \<le> n"
  shows "\<bar>k\<bar> \<le> n"
proof -
  have "\<bar>k\<bar> * 1 \<le> \<bar>k\<bar> * s" using assms(1) by (intro mult_left_mono) auto
  with assms show ?thesis by (simp add: abs_mult)
qed

lemma compare_moved:
  assumes "base (ploc v) = Some B" and "0 < byteSizeofType (innerType (ptype v))"
    and "\<not> isFunctionType (innerType (ptype v))"
  shows "compare_pointers f (moved v k) v = makeTruth (int_rel_op f k 0) (ptype v) (ptype v)"
    and "equal_pointers e (moved v k) v = makeTruth ((k = 0) = e) (ptype v) (ptype v)"
proof -
  obtain off where off: "offset (ploc v) = Some off" using assms(1) by (cases "ploc v") auto
  let ?s = "byteSizeofType (innerType (ptype v))"
  have "int_rel_op f (off + k * ?s) off = int_rel_op f k 0"
    using assms(2) by (cases f) (auto simp: mult_le_0_iff mult_less_0_iff zero_le_mult_iff zero_less_mult_iff)
  with assms off show "compare_pointers f (moved v k) v = makeTruth (int_rel_op f k 0) (ptype v) (ptype v)"
    by (simp add: compare_pointers_def isCompatibleRelationalTypes_def)
  show "equal_pointers e (moved v k) v = makeTruth ((k = 0) = e) (ptype v) (ptype v)"
    using assms off by (simp add: equal_pointers_def isCompatibleEqualityTypes_def Let_def)
qed

text \<open>
  C10: Pointer arithmetic stays inside its array or is reported. Take a pointer into an array of
  \<open>n\<close> bytes of a live object and add any sequence of integers to it, one after the other.
  If every position on the way lies between the start of the array and one past its end, the
  result is the pointer at the sum of the steps, it still knows its array, and it can be used
  further; otherwise, and only then, the first step that leaves the array is reported as
  undefined behaviour (CEA1, or CEE3 for a pointer that is bounded by its object alone).
\<close>

theorem pointer_arithmetic_in_bounds:
  assumes "array_pointer c B start n v" and "offset (ploc v) = Some off"
    and "arithmetic_pointee (innerType (ptype v))" and "isPromoted (st I)"
  shows "case walk (add_step c I) v ks of
      Inr w \<Rightarrow>
        (\<forall>i \<in> set (positions (byteSizeofType (innerType (ptype v))) (off - start) ks). 0 \<le> i \<and> i \<le> n) \<and>
        array_pointer c B start n w \<and>
        offset (ploc w) = Some (off + sum_list ks * byteSizeofType (innerType (ptype v)))
    | Inl e \<Rightarrow>
        \<not> (\<forall>i \<in> set (positions (byteSizeofType (innerType (ptype v))) (off - start) ks). 0 \<le> i \<and> i \<le> n) \<and>
        out_of_bounds e"
proof -
  let ?T = "ptype v"
  have v: "walkable c B start n ?T I v" using assms by (simp add: walkable_def)
  have iff: "(\<exists>w. walk (add_step c I) v ks = Inr w) \<longleftrightarrow>
      (\<forall>i \<in> set (positions (byteSizeofType (innerType ?T)) (off - start) ks). 0 \<le> i \<and> i \<le> n)"
    using kp.walk_inside_iff [OF v, of ks] assms(2) by simp
  show ?thesis
  proof (cases "walk (add_step c I) v ks")
    case (Inl e)
    with iff kp.walk_error [OF v Inl] show ?thesis by auto
  next
    case (Inr w)
    have w: "walkable c B start n ?T I w"
      and "the (offset (ploc w)) = off + sum_list ks * byteSizeofType (innerType ?T)"
      using kp.walk_ok [OF v Inr] assms(2) by simp_all
    moreover from w obtain off' where "offset (ploc w) = Some off'"
      by (auto simp: walkable_def elim!: array_pointerD)
    moreover have "\<forall>i \<in> set (positions (byteSizeofType (innerType ?T)) (off - start) ks). 0 \<le> i \<and> i \<le> n"
      using iff Inr by blast
    ultimately show ?thesis using Inr by (simp add: walkable_def)
  qed
qed

text \<open>
  C21: Subtraction, the difference of pointers and the comparisons agree with addition. If adding
  \<open>k\<close> to a pointer into an array gives \<open>w\<close>, then \<open>w\<close> minus \<open>k\<close> is the pointer
  itself, with the same provenance; the difference of \<open>w\<close> and the pointer is \<open>k\<close>, of
  type ptrdiff_t; and every comparison of the two, by order or for equality, decides as the
  comparison of \<open>k\<close> with zero does. The element must have a size, and the array must not be longer than
  the largest ptrdiff_t.
\<close>

theorem pointer_difference_inverts_addition:
  assumes "array_pointer c B start n v" and "arithmetic_pointee (innerType (ptype v))"
    and "0 < byteSizeofType (innerType (ptype v))" and "n \<le> imax LongInt"
    and "isPromoted (st I)" and "add_pointer c v (Tv k I) = Inr w"
  shows "sub_pointer_int c w (Tv k I) = Inr v \<and>
    sub_pointers w v = Inr (Tv k ptrdiff_type) \<and>
    (f \<in> {Lt, Le, Gt, Ge} \<longrightarrow>
      compare_pointers f w v = makeTruth (int_rel_op f k 0) (ptype w) (ptype v)) \<and>
    equal_pointers e w v = makeTruth ((k = 0) = e) (ptype w) (ptype v)"
proof -
  let ?T = "ptype v" and ?s = "byteSizeofType (innerType (ptype v))"
  have v: "walkable c B start n ?T I v" using assms by (simp add: walkable_def)
  obtain off where off: "offset (ploc v) = Some off" and B: "base (ploc v) = Some B"
    and bnd: "start \<le> off" "off \<le> start + n"
    using assms(1) by (auto elim!: array_pointerD)
  note step = add_step_walkable [OF v off refl, of k]
  from step assms(6) have w: "w = moved v k" and q: "start \<le> off + k * ?s" "off + k * ?s \<le> start + n"
    by (auto split: if_splits)
  have "array_pointer c B start n w"
    unfolding w using assms(1) off refl q by (rule array_pointer_moved)
  then have "addToPointer c (ploc w) (ptype w) (- k) = Inr (moved w (- k))"
    using addToPointer_array [of c B start n w "off + k * ?s" _ "- k"] off bnd w by simp
  then have ret: "sub_pointer_int c w (Tv k I) = Inr v"
    using assms(2,5) w by (simp add: sub_pointer_int_def arithmetic_pointee_def moved_back)
  have "\<bar>k * ?s\<bar> \<le> n" using q bnd by auto
  then have "\<bar>k\<bar> \<le> imax LongInt" using quotient_bounded [OF assms(3)] assms(4) by force
  then have "imin LongInt \<le> k" and "k \<le> imax LongInt" by (auto simp: range_simps)
  then have "computePointerDifference (k * ?s) ?s ptrdiff_type = Inr (Tv k ptrdiff_type)"
    using assms(3) by (intro computePointerDifference_multiple) simp_all
  then have "sub_pointers w v = Inr (Tv k ptrdiff_type)"
    using assms(2) off B w by (simp add: sub_pointers_def arithmetic_pointee_def)
  with ret compare_moved [OF B assms(3)] assms(2) w show ?thesis
    by (simp add: arithmetic_pointee_def)
qed


text \<open>A pointer to the second of three integers.\<close>

definition demo_conf :: "unit kconf" where
  "demo_conf = \<lparr>kmem = [Obj 0 16 AllocDur \<mapsto> \<lparr>keff = DynamicNoType, klen = 12, kbytes = replicate 12 None\<rparr>],
     kmalloced = [Obj 0 16 AllocDur \<mapsto> 12], nextid = 1, linkings = Map.empty, executing = True\<rparr>"

definition demo_pointer :: pvalue where
  "demo_pointer = Pv (LocProv (Obj 0 16 AllocDur) 4 [FromArray 4 12]) (bare (CT {} (CInt PlainInt)))"

lemma demo_array_pointer: "array_pointer demo_conf (Obj 0 16 AllocDur) 0 12 demo_pointer"
  by (simp add: array_pointer_def demo_conf_def demo_pointer_def isFromArray_def resolved_def isLinkBase_def)

lemma demo_pointee:
  "arithmetic_pointee (innerType (ptype demo_pointer))" "byteSizeofType (innerType (ptype demo_pointer)) = 4"
  by (simp_all add: arithmetic_pointee_def demo_pointer_def byteSizeofType_def bitsPerByte_def)

theorem pointer_arithmetic_in_bounds_witness:
  "\<exists>w. walk (add_step demo_conf int_type) demo_pointer [2, -3, 1] = Inr w \<and>
     array_pointer demo_conf (Obj 0 16 AllocDur) 0 12 w \<and> offset (ploc w) = Some 4"
proof -
  have off: "offset (ploc demo_pointer) = Some 4" by (simp add: demo_pointer_def)
  show ?thesis
    using pointer_arithmetic_in_bounds [OF demo_array_pointer off demo_pointee(1), of int_type "[2, -3, 1]"]
    by (cases "walk (add_step demo_conf int_type) demo_pointer [2, -3, 1]")
      (simp_all add: demo_pointee(2) del: walk.simps)
qed

theorem pointer_difference_inverts_addition_witness:
  "\<exists>w. add_pointer demo_conf demo_pointer (Tv 2 int_type) = Inr w \<and>
     sub_pointer_int demo_conf w (Tv 2 int_type) = Inr demo_pointer \<and>
     sub_pointers w demo_pointer = Inr (Tv 2 ptrdiff_type) \<and>
     compare_pointers Lt w demo_pointer = makeTruth False (ptype w) (ptype demo_pointer)"
proof -
  have "walkable demo_conf (Obj 0 16 AllocDur) 0 12 (ptype demo_pointer) int_type demo_pointer"
    using demo_array_pointer demo_pointee by (simp add: walkable_def)
  then have add: "add_pointer demo_conf demo_pointer (Tv 2 int_type) = Inr (moved demo_pointer 2)"
    using demo_pointee(2) by (subst add_step_walkable) (auto simp: demo_pointer_def)
  have "(12::int) \<le> imax LongInt" by (simp add: range_simps)
  with pointer_difference_inverts_addition [OF demo_array_pointer demo_pointee(1) _ _ _ add, of Lt True] add demo_pointee(2)
  show ?thesis by auto
qed


section \<open>Where no rule applies\<close>

text \<open>
  An ordered comparison has no rule exactly for pointers into different objects whose types are
  compatible without their qualifiers but not with them, where undefined behaviour should be
  reported.
\<close>

lemma compare_pointers_stuck:
  "compare_pointers h p q = Inl Stuck \<longleftrightarrow>
    (\<exists>B B'. base (ploc p) = Some B \<and> base (ploc q) = Some B' \<and> B \<noteq> B') \<and>
    isCompatibleRelationalTypes (ptype p) (ptype q) \<and>
    \<not> areCompatible (innerType (ptype p)) (innerType (ptype q))"
  by (cases "ploc p"; cases "ploc q") (auto simp: compare_pointers_def makeTruth_def)

text \<open>
  A difference of pointers has none exactly when both point into one object, to types that the
  rules accept, and the size of an element is zero or does not divide the distance while the
  quotient is in range.
\<close>

lemma sub_pointers_stuck:
  "sub_pointers p q = Inl Stuck \<longleftrightarrow>
    \<not> isFunctionType (innerType (ptype p)) \<and> \<not> isFunctionType (innerType (ptype q)) \<and>
    isCompleteType (innerType (ptype p)) \<and> isCompleteType (innerType (ptype q)) \<and>
    areCompatible (stripQualifiers (innerType (ptype p))) (stripQualifiers (innerType (ptype q))) \<and>
    (\<exists>B i j. base (ploc p) = Some B \<and> base (ploc q) = Some B \<and>
      offset (ploc p) = Some i \<and> offset (ploc q) = Some j \<and>
      (let s = byteSizeofType (innerType (ptype p)) in
       s = 0 \<or> (i - j) smod s \<noteq> 0 \<and> intInRange ((i - j) sdiv s) (Basic LongInt)))"
  by (cases "ploc p"; cases "ploc q")
     (auto simp: sub_pointers_def computePointerDifference_def Let_def intInRange_def)

end
