(* ===== verification/KBits.thy ===== *)
theory KBits
  imports Prelude
begin

text \<open>
  The representation of values as bits and bytes in the memory of the semantics
  (src/semantics/common/bits.k): encoding a value as a piece of bits, splitting a piece into
  bytes, and joining bytes again. An integer is split into numbers; a pointer or a floating
  value stays symbolic, each byte carrying the value with the range of bits that the byte
  holds of it. Bytes that do not belong together stay a list of pieces.

  Pointers and floating values are the type parameters \<open>'p\<close> and \<open>'v\<close>. In a list
  of pieces no piece is itself such a list: the concatenation flattens.
\<close>

section \<open>Values and pieces\<close>

datatype ('p, 'v) encodable = EInt int | EUnknown int | ETrap | EPtr 'p | EVal 'v

datatype ('p, 'v) simple_value =
    IntB int
  | UnknownB int
  | TrapB
  | EncodedPtr 'p int int
  | EncodedValue 'v int int

datatype ('p, 'v) piece = Piece (pval: "('p, 'v) simple_value") (plen: int)

datatype ('p, 'v) bits = One "('p, 'v) piece" | Many "('p, 'v) piece list" int

definition bits_per_byte :: int where
  "bits_per_byte = 8"

section \<open>Concatenation\<close>

fun piecesJoinable :: "('p, 'v) piece \<Rightarrow> ('p, 'v) piece \<Rightarrow> bool" where
  "piecesJoinable (Piece (IntB m) k) (Piece (IntB n) l) = True"
| "piecesJoinable (Piece (UnknownB m) k) (Piece (UnknownB n) l) = True"
| "piecesJoinable (Piece TrapB k) (Piece TrapB l) = True"
| "piecesJoinable (Piece (EncodedPtr p f t) k) (Piece (EncodedPtr q f' t') l) = (q = p \<and> f' = t)"
| "piecesJoinable (Piece (EncodedValue v f t) k) (Piece (EncodedValue w f' t') l) = (w = v \<and> f' = t)"
| "piecesJoinable _ _ = False"

fun joinPieces :: "('p, 'v) piece \<Rightarrow> ('p, 'v) piece \<Rightarrow> ('p, 'v) piece" where
  "joinPieces (Piece (IntB m) k) (Piece (IntB n) l) = Piece (IntB (push_bit (nat k) n OR m)) (k + l)"
| "joinPieces (Piece (UnknownB m) k) (Piece (UnknownB n) l) =
     Piece (UnknownB (push_bit (nat k) n OR m)) (k + l)"
| "joinPieces (Piece TrapB k) (Piece TrapB l) = Piece TrapB (k + l)"
| "joinPieces (Piece (EncodedPtr p f t) k) (Piece (EncodedPtr q f' t') l) = Piece (EncodedPtr p f t') (k + l)"
| "joinPieces (Piece (EncodedValue v f t) k) (Piece (EncodedValue w f' t') l) =
     Piece (EncodedValue v f t') (k + l)"
| "joinPieces x y = x"

text \<open>Only the pieces at the head of a list are joined, until two of them do not fit.\<close>

fun joinAllPieces :: "('p, 'v) piece list \<Rightarrow> ('p, 'v) piece list" where
  "joinAllPieces (x # y # bs) =
     (if piecesJoinable x y then joinAllPieces (joinPieces x y # bs) else x # y # bs)"
| "joinAllPieces bs = bs"

text \<open>The operator \<open>bit::\<close>.\<close>

fun bit_append :: "('p, 'v) bits \<Rightarrow> ('p, 'v) bits \<Rightarrow> ('p, 'v) bits" where
  "bit_append (One x) (One y) =
     (if piecesJoinable x y then One (joinPieces x y) else Many [x, y] (plen x + plen y))"
| "bit_append (Many ps k) (Many qs l) = Many (joinAllPieces (ps @ qs)) (k + l)"
| "bit_append (Many ps k) (One y) = Many (joinAllPieces (ps @ [y])) (k + plen y)"
| "bit_append (One x) (Many qs l) = Many (joinAllPieces (x # qs)) (plen x + l)"

fun joinBytes_from :: "('p, 'v) bits list \<Rightarrow> ('p, 'v) bits \<Rightarrow> ('p, 'v) bits" where
  "joinBytes_from [] n = n"
| "joinBytes_from (m # bs) n = joinBytes_from bs (bit_append n m)"

text \<open>
  There is no rule for an empty list of bytes. The length of the result, which the last rule
  drops, is kept.
\<close>

fun joinBytes :: "('p, 'v) bits list \<Rightarrow> ('p, 'v) bits option" where
  "joinBytes [] = None"
| "joinBytes (n # bs) = Some (joinBytes_from bs n)"

section \<open>Encoding and splitting\<close>

definition bitmask :: "int \<Rightarrow> int" where
  "bitmask n = push_bit (nat n) 1 - 1"

definition bitsValue :: "int \<Rightarrow> int \<Rightarrow> int \<Rightarrow> int" where
  "bitsValue n from to = drop_bit (nat from) n AND bitmask (to - from)"

text \<open>The rules require that the range of bits is not empty the wrong way round.\<close>

fun encode :: "('p, 'v) encodable \<Rightarrow> int \<Rightarrow> int \<Rightarrow> ('p, 'v) piece" where
  "encode (EInt n) from to = Piece (IntB (bitsValue n from to)) (to - from)"
| "encode (EUnknown n) from to = Piece (UnknownB (bitsValue n from to)) (to - from)"
| "encode ETrap from to = Piece TrapB (to - from)"
| "encode (EPtr p) from to = Piece (EncodedPtr p from to) (to - from)"
| "encode (EVal v) from to = Piece (EncodedValue v from to) (to - from)"

text \<open>Chunks are bits or bytes: the size is positive.\<close>

function splinter :: "('p, 'v) simple_value \<Rightarrow> int \<Rightarrow> int \<Rightarrow> int \<Rightarrow> ('p, 'v) piece list" where
  "splinter v pos len chunk =
     (if 0 < chunk \<and> pos < len then
        (case v of
           EncodedPtr p from to \<Rightarrow>
             if from < to then Piece (EncodedPtr p from (from + chunk)) chunk
               # splinter (EncodedPtr p (from + chunk) to) (pos + chunk) len chunk
             else []
         | EncodedValue w from to \<Rightarrow>
             if from < to then Piece (EncodedValue w from (from + chunk)) chunk
               # splinter (EncodedValue w (from + chunk) to) (pos + chunk) len chunk
             else []
         | IntB n \<Rightarrow> encode (EInt n) pos (pos + chunk) # splinter v (pos + chunk) len chunk
         | UnknownB n \<Rightarrow> encode (EUnknown n) pos (pos + chunk) # splinter v (pos + chunk) len chunk
         | TrapB \<Rightarrow> encode ETrap pos (pos + chunk) # splinter v (pos + chunk) len chunk)
      else [])"
  by pat_completeness auto
termination
  by (relation "measure (\<lambda>(v, pos, len, chunk). nat (len - pos))") auto

declare splinter.simps [simp del]

function splinterPartial :: "('p, 'v) simple_value \<Rightarrow> int \<Rightarrow> int \<Rightarrow> int \<Rightarrow> ('p, 'v) piece list" where
  "splinterPartial v pos len chunk =
     (if 0 < chunk \<and> pos < len then
        (case v of
           EncodedPtr p from to \<Rightarrow>
             if \<not> from < to then []
             else if from + chunk \<le> to then Piece (EncodedPtr p from (from + chunk)) chunk
               # splinterPartial (EncodedPtr p (from + chunk) to) (pos + chunk) len chunk
             else [Piece (EncodedPtr p from to) (to - from)]
         | EncodedValue w from to \<Rightarrow>
             if \<not> from < to then []
             else if from + chunk \<le> to then Piece (EncodedValue w from (from + chunk)) chunk
               # splinterPartial (EncodedValue w (from + chunk) to) (pos + chunk) len chunk
             else [Piece (EncodedValue w from to) (to - from)]
         | IntB n \<Rightarrow>
             if pos + chunk \<le> len then encode (EInt n) pos (pos + chunk) # splinterPartial v (pos + chunk) len chunk
             else [encode (EInt n) pos len]
         | UnknownB n \<Rightarrow>
             if pos + chunk \<le> len then encode (EUnknown n) pos (pos + chunk) # splinterPartial v (pos + chunk) len chunk
             else [encode (EUnknown n) pos len]
         | TrapB \<Rightarrow>
             if pos + chunk \<le> len then encode ETrap pos (pos + chunk) # splinterPartial v (pos + chunk) len chunk
             else [encode ETrap pos len])
      else [])"
  by pat_completeness auto
termination
  by (relation "measure (\<lambda>(v, pos, len, chunk). nat (len - pos))") auto

declare splinterPartial.simps [simp del]

definition splitToBytes :: "('p, 'v) piece \<Rightarrow> ('p, 'v) piece list" where
  "splitToBytes x = splinter (pval x) 0 (plen x) bits_per_byte"

definition splitToPartialBytes :: "('p, 'v) piece \<Rightarrow> ('p, 'v) piece list" where
  "splitToPartialBytes x = splinterPartial (pval x) 0 (plen x) bits_per_byte"

fun explodeToBits :: "('p, 'v) bits list \<Rightarrow> ('p, 'v) piece list" where
  "explodeToBits [] = []"
| "explodeToBits (One x # bs) = splinter (pval x) 0 (plen x) 1 @ explodeToBits bs"
| "explodeToBits (Many ps k # bs) = concat (map (\<lambda>x. splinter (pval x) 0 (plen x) 1) ps) @ explodeToBits bs"

section \<open>The bytes of a value\<close>

lemma bitsValue_take_bit: "bitsValue n from to = take_bit (nat (to - from)) (drop_bit (nat from) n)"
  by (simp add: bitsValue_def bitmask_def take_bit_eq_mask mask_eq_exp_minus_1)

text \<open>What \<open>splinter\<close> starts from for the bits of \<open>e\<close> from \<open>from\<close> on.\<close>

fun start :: "('p, 'v) encodable \<Rightarrow> int \<Rightarrow> int \<Rightarrow> ('p, 'v) simple_value" where
  "start (EInt n) from to = IntB n"
| "start (EUnknown n) from to = UnknownB n"
| "start ETrap from to = TrapB"
| "start (EPtr p) from to = EncodedPtr p from to"
| "start (EVal v) from to = EncodedValue v from to"

abbreviation byte_piece :: "('p, 'v) encodable \<Rightarrow> nat \<Rightarrow> ('p, 'v) piece" where
  "byte_piece e i \<equiv> encode e (8 * int i) (8 * int i + 8)"

lemma splinter_step:
  "splinter (start e (8 * int i) (8 * int (i + Suc k))) (8 * int i) (8 * int (i + Suc k)) 8 =
   byte_piece e i # splinter (start e (8 * int (Suc i)) (8 * int (Suc i + k))) (8 * int (Suc i)) (8 * int (Suc i + k)) 8"
  by (cases e) (subst splinter.simps, simp add: algebra_simps)+

lemma splinter_bytes:
  fixes e :: "('p, 'v) encodable"
  shows "splinter (start e (8 * int i) (8 * int (i + k))) (8 * int i) (8 * int (i + k)) 8 = map (byte_piece e) [i..<i + k]"
proof (induction k arbitrary: i)
  case 0
  then show ?case by (simp add: splinter.simps)
next
  case (Suc k)
  have "[i..<i + Suc k] = i # [Suc i..<Suc i + k]" by (simp add: upt_conv_Cons del: upt_Suc)
  with Suc.IH [of "Suc i"] splinter_step [of e i k] show ?case by simp
qed

text \<open>Splitting an encoded value is encoding each of its bytes.\<close>

lemma splitToBytes_encode:
  "splitToBytes (encode e 0 (8 * int k)) = map (byte_piece e) [0..<k]"
proof -
  have cut: "bitsValue (bitsValue n 0 (8 * int k)) (8 * int j) (8 * int j + 8) = bitsValue n (8 * int j) (8 * int j + 8)"
    if "j < k" for n j
    using that by (auto intro!: bit_eqI simp: bitsValue_take_bit bit_simps nat_mult_distrib)
  have whole: "splinter (start e' 0 (8 * int k)) 0 (8 * int k) 8 = map (byte_piece e') [0..<k]" for e' :: "('a, 'b) encodable"
    using splinter_bytes [of e' 0 k] by simp
  show ?thesis
    using whole [of "EInt (bitsValue n 0 (8 * int k))" for n] whole [of "EUnknown (bitsValue n 0 (8 * int k))" for n]
      whole [of e]
    by (cases e) (auto simp: splitToBytes_def bits_per_byte_def cut)
qed

text \<open>
  Splitting into partial bytes differs only in the last piece: it has the bits that are left
  over, so the pieces have exactly the bits of the whole.
\<close>

lemma splinterPartial_length:
  "0 < chunk \<Longrightarrow> (case v of EncodedPtr p f t \<Rightarrow> t - f = len - pos | EncodedValue w f t \<Rightarrow> t - f = len - pos | _ \<Rightarrow> True) \<Longrightarrow>
   pos \<le> len \<Longrightarrow> sum_list (map plen (splinterPartial v pos len chunk)) = len - pos"
proof (induction v pos len chunk rule: splinterPartial.induct)
  case (1 v pos len chunk)
  show ?case
  proof (cases "pos < len")
    case True
    then show ?thesis using 1 by (cases v) (subst splinterPartial.simps, auto)+
  qed (use "1.prems" in \<open>simp add: splinterPartial.simps\<close>)
qed

lemma splitToPartialBytes_length:
  "0 \<le> n \<Longrightarrow> sum_list (map plen (splitToPartialBytes (encode e 0 n))) = n"
  unfolding splitToPartialBytes_def by (subst splinterPartial_length) (cases e; simp add: bits_per_byte_def)+

section \<open>Joining bytes\<close>

lemma joinBytes_from_append: "joinBytes_from (bs @ [m]) n = bit_append (joinBytes_from bs n) m"
  by (induction bs arbitrary: n) simp_all

lemma bitsValue_join:
  "push_bit (8 * k) (bitsValue n (8 * int k) (8 * int k + 8)) OR bitsValue n 0 (8 * int k) =
   bitsValue n 0 (8 * int k + 8)"
  by (rule bit_eqI) (auto simp: bitsValue_take_bit bit_simps nat_mult_distrib nat_add_distrib)

lemma append_next_byte:
  "bit_append (One (encode e 0 (8 * int k))) (One (byte_piece e k)) = One (encode e 0 (8 * int (Suc k)))"
  using bitsValue_join [of k] by (cases e) (simp_all add: nat_mult_distrib algebra_simps)

lemma joinBytes_encoded:
  "joinBytes (map One (map (byte_piece e) [0..<Suc k])) = Some (One (encode e 0 (8 * int (Suc k))))"
proof -
  have "joinBytes_from (map One (map (byte_piece e) [1..<Suc k])) (One (byte_piece e 0)) =
      One (encode e 0 (8 * int (Suc k)))"
  proof (induction k)
    case (Suc k)
    have "[1..<Suc (Suc k)] = [1..<Suc k] @ [Suc k]" by simp
    then show ?case using append_next_byte [of e "Suc k"] by (simp only: map_append list.map joinBytes_from_append Suc.IH)
  qed simp
  moreover have "[0..<Suc k] = 0 # [1..<Suc k]" by (simp add: upt_conv_Cons del: upt_Suc)
  ultimately show ?thesis by (simp only: list.map joinBytes.simps)
qed

text \<open>Once two bytes did not fit, the result stays a list of pieces.\<close>

lemma bit_append_One: "bit_append x y = One z \<Longrightarrow> \<exists>a b. x = One a \<and> y = One b \<and> piecesJoinable a b \<and> z = joinPieces a b"
  by (cases x; cases y) (auto split: if_splits)

lemma joinPieces_ptr:
  "piecesJoinable a b \<Longrightarrow> joinPieces a b = Piece (EncodedPtr p f t) l \<Longrightarrow>
   \<exists>m k. a = Piece (EncodedPtr p f m) k \<and> b = Piece (EncodedPtr p m t) (l - k)"
  by (cases "(a, b)" rule: piecesJoinable.cases) auto

text \<open>Bytes that follow one another in the representation of the pointer \<open>p\<close>.\<close>

fun ptr_run :: "'p \<Rightarrow> int \<Rightarrow> ('p, 'v) bits list \<Rightarrow> int \<Rightarrow> bool" where
  "ptr_run p f [] t = (f = t)"
| "ptr_run p f (One (Piece (EncodedPtr q f' m) k) # bs) t = (q = p \<and> f' = f \<and> ptr_run p m bs t)"
| "ptr_run p f (_ # bs) t = False"

lemma ptr_run_append:
  "ptr_run p f (bs @ [One (Piece (EncodedPtr p m t) k)]) t = ptr_run p f bs m"
  by (induction p f bs m rule: ptr_run.induct) auto

lemma joinBytes_ptr:
  "joinBytes bs = Some (One (Piece (EncodedPtr p f t) l)) \<Longrightarrow> ptr_run p f bs t"
proof (induction bs arbitrary: t l rule: rev_induct)
  case (snoc b bs)
  show ?case
  proof (cases bs)
    case Nil
    with snoc.prems show ?thesis by simp
  next
    case (Cons c cs)
    with snoc.prems have "bit_append (joinBytes_from cs c) b = One (Piece (EncodedPtr p f t) l)"
      by (simp add: joinBytes_from_append)
    from bit_append_One [OF this] obtain x y where
      x: "joinBytes_from cs c = One x" and y: "b = One y" "piecesJoinable x y"
        "Piece (EncodedPtr p f t) l = joinPieces x y" by blast
    from joinPieces_ptr [OF y(2) y(3) [symmetric]] obtain m k where
      "x = Piece (EncodedPtr p f m) k" "y = Piece (EncodedPtr p m t) (l - k)" by blast
    with x y(1) snoc.IH [of m k] Cons show ?thesis by (simp add: ptr_run_append flip: append_Cons)
  qed
qed simp

section \<open>Little-endian images\<close>

lemma nth_le_bytes: "j < k \<Longrightarrow> le_bytes k v ! j = of_nat (v div 256 ^ j mod 256)"
proof (induction k arbitrary: v j)
  case (Suc k)
  then show ?case by (cases j) (simp_all add: div_mult2_eq)
qed simp

lemma uint_of_nat_byte: "uint (of_nat (x mod 256) :: u8) = int x mod 256"
  by (simp add: unsigned_of_nat take_bit_eq_mod zmod_int)

lemma byte_piece_le_bytes:
  "map (byte_piece (EInt n)) [0..<k] = map (\<lambda>b. Piece (IntB (uint b)) 8) (le_bytes k (nat (n mod 256 ^ k)))"
proof (rule nth_equalityI)
  fix j
  assume "j < length (map (byte_piece (EInt n)) [0..<k] :: ('p, 'v) piece list)"
  then have j: "j < k" by simp
  have "(256::int) ^ i = 2 ^ (8 * i)" for i by (simp add: power_mult)
  then have "n mod 256 ^ k div 256 ^ j mod 256 = take_bit 8 (drop_bit (8 * j) (take_bit (8 * k) n))"
    by (simp add: take_bit_eq_mod drop_bit_eq_div)
  also have "\<dots> = bitsValue n (8 * int j) (8 * int j + 8)"
    using j by (auto intro!: bit_eqI simp: bitsValue_take_bit bit_simps nat_mult_distrib)
  finally have "bitsValue n (8 * int j) (8 * int j + 8) = n mod 256 ^ k div 256 ^ j mod 256" ..
  with j show "map (byte_piece (EInt n)) [0..<k] ! j =
      map (\<lambda>b. Piece (IntB (uint b)) 8) (le_bytes k (nat (n mod 256 ^ k))) ! j"
    by (simp add: nth_le_bytes uint_of_nat_byte zdiv_int)
qed simp

section \<open>Properties\<close>

text \<open>
  C17: a value stored in memory and read back. For every value that the semantics can store
  (an integer, a pointer, a floating value, an unknown value, a trap) in an object of a
  positive number of bytes: splitting the encoded value gives that many bytes, and joining
  them gives the encoded value again, as one piece. The bytes of an integer are the
  little-endian image of its value modulo the size of the object, and a number is what
  they join to.\<close>
theorem stored_value_roundtrip:
  "length (splitToBytes (encode e 0 (8 * int (Suc k)))) = Suc k \<and>
   joinBytes (map One (splitToBytes (encode e 0 (8 * int (Suc k))))) = Some (One (encode e 0 (8 * int (Suc k)))) \<and>
   splitToBytes (encode (EInt n) 0 (8 * int (Suc k))) =
     map (\<lambda>b. Piece (IntB (uint b)) 8) (le_bytes (Suc k) (nat (n mod 256 ^ Suc k))) \<and>
   joinBytes (map One (splitToBytes (encode (EInt n) 0 (8 * int (Suc k))))) =
     Some (One (Piece (IntB (n mod 256 ^ Suc k)) (8 * int (Suc k))))"
proof -
  have num: "encode (EInt n) 0 (8 * int (Suc k)) = Piece (IntB (n mod 256 ^ Suc k)) (8 * int (Suc k))"
  proof -
    have "nat (8 * int (Suc k)) = 8 * Suc k" by (subst nat_mult_distrib) simp_all
    moreover have "(256::int) ^ Suc k = 2 ^ (8 * Suc k)" by (subst power_mult) simp
    ultimately show ?thesis by (simp only: encode.simps bitsValue_take_bit take_bit_eq_mod) simp
  qed
  have "splitToBytes (encode (EInt n) 0 (8 * int (Suc k))) =
     map (\<lambda>b. Piece (IntB (uint b)) 8) (le_bytes (Suc k) (nat (n mod 256 ^ Suc k)))"
    unfolding splitToBytes_encode by (rule byte_piece_le_bytes)
  moreover have "length (splitToBytes (encode e 0 (8 * int (Suc k)))) = Suc k"
    unfolding splitToBytes_encode by simp
  moreover have "joinBytes (map One (splitToBytes (encode e 0 (8 * int (Suc k))))) = Some (One (encode e 0 (8 * int (Suc k))))"
    for e :: "('x, 'y) encodable"
    unfolding splitToBytes_encode by (rule joinBytes_encoded)
  ultimately show ?thesis using num by metis
qed

text \<open>
  C18: no pointer is made up from bytes. Whenever bytes read from memory join to one piece
  that represents bits of a pointer \<open>p\<close>, every single byte was a byte of \<open>p\<close>, and the bytes
  are the consecutive ones of the range that the piece claims, in order: bytes of two
  pointers, reordered bytes, or bytes of a number never yield a pointer.\<close>
theorem pointer_only_from_its_bytes:
  "joinBytes bs = Some (One (Piece (EncodedPtr p f t) l)) \<Longrightarrow> ptr_run p f bs t"
  by (rule joinBytes_ptr)

theorem pointer_only_from_its_bytes_witness:
  "ptr_run True 0 [One (Piece (EncodedPtr True 0 8) 8), One (Piece (EncodedPtr True 8 16 :: (bool, unit) simple_value) 8)] 16"
  by (rule pointer_only_from_its_bytes [of _ True 0 16 16]) simp

end
