(* ===== verification/KHeap.thy ===== *)
theory KHeap
  imports KPointerProps KBits
begin

text \<open>
  The heap of the semantics of C: the builtins \<open>malloc\<close>, \<open>aligned_alloc\<close>,
  \<open>calloc\<close>, \<open>realloc\<close> and \<open>free\<close> (src/semantics/c/library/stdlib.k) with the
  rules they use (common/memory/alloc.k, execution/io.k, common/execution/delete-object.k). An
  object is a list of bytes in the representation of KBits; \<open>None\<close> is \<open>uninit\<close>. The
  identity \<open>!I\<close> of a new object is taken from a counter.

  The buffer of pending writes, which \<open>deleteObject\<close> filters, and the copies of objects
  that native code holds are not part of the model: the memory is the one in which every write
  has been done. Sizes are the values of arguments of type \<open>size_t\<close>, not negative.
\<close>

section \<open>Operations\<close>

type_synonym 'v kbyte = "(symloc, 'v) piece"
type_synonym 'v heap = "'v kbyte kconf"

definition cfg_alignofMalloc :: int where
  "cfg_alignofMalloc = 16"

definition cfg_maxHeapBound :: int where
  "cfg_maxHeapBound = push_bit 32 1 - 2"

text \<open>\<open>alloc\<close> with the type \<open>no-type\<close>: the first access sets the effective type.\<close>

definition alloc_no_type :: "'v heap \<Rightarrow> symbase \<Rightarrow> int \<Rightarrow> 'v heap" where
  "alloc_no_type c B len = c\<lparr>kmem := (kmem c)(B \<mapsto>
     \<lparr>keff = DynamicNoType, klen = len, kbytes = replicate (nat len) None\<rparr>)\<rparr>"

definition alignedAlloc :: "'v heap \<Rightarrow> int \<Rightarrow> int \<Rightarrow> 'v heap \<times> symloc" where
  "alignedAlloc c align sz =
     (if sz \<le> cfg_maxHeapBound then
        let B = Obj (nextid c) align AllocDur in
        ((alloc_no_type c B sz)\<lparr>nextid := nextid c + 1, kmalloced := (kmalloced c)(B \<mapsto> sz)\<rparr>,
         addProv (FromArray 0 sz) (Loc B 0))
      else (c, NullPointer))"

definition builtin_malloc :: "'v heap \<Rightarrow> int \<Rightarrow> 'v heap \<times> symloc" where
  "builtin_malloc c sz = alignedAlloc c cfg_alignofMalloc sz"

definition builtin_aligned_alloc :: "'v heap \<Rightarrow> int \<Rightarrow> int \<Rightarrow> (problem, 'v heap \<times> symloc) res" where
  "builtin_aligned_alloc c align sz =
     (if sz = 0 then Inl (IMPL ''STDLIB8'') else Inr (alignedAlloc c align sz))"

definition zeroObject :: "'v heap \<Rightarrow> symbase \<Rightarrow> (problem, 'v heap) res" where
  "zeroObject c B = (case kmem c B of
       Some ob \<Rightarrow> Inr (c\<lparr>kmem := (kmem c)(B \<mapsto>
         ob\<lparr>kbytes := replicate (nat (klen ob)) (Some (Piece (IntB 0) bits_per_byte))\<rparr>)\<rparr>)
     | None \<Rightarrow> Inl Stuck)"

text \<open>
  The product of the two sizes is not reduced. When \<open>malloc\<close> gives the null pointer there
  is no rule for its base.
\<close>

definition builtin_calloc :: "'v heap \<Rightarrow> int \<Rightarrow> int \<Rightarrow> (problem, 'v heap \<times> symloc) res" where
  "builtin_calloc c n sz =
     (let (c1, L) = builtin_malloc c (n * sz) in
      case base L of
        Some B \<Rightarrow> bindr (zeroObject c1 B) (\<lambda>c2. Inr (c2, L))
      | None \<Rightarrow> Inl Stuck)"

text \<open>\<open>copyBytes\<close> goes from the last byte to the first and leaves out what is not written.\<close>

fun copyBytes :: "nat \<Rightarrow> 'b option list \<Rightarrow> 'b option list \<Rightarrow> 'b option list" where
  "copyBytes 0 M M' = M'"
| "copyBytes (Suc n) M M' =
     copyBytes n M (if n < length M \<and> M ! n \<noteq> None then M'[n := M ! n] else M')"

definition deleteObject :: "'v heap \<Rightarrow> symbase \<Rightarrow> 'v heap" where
  "deleteObject c B = c\<lparr>kmem := (kmem c)(B := None)\<rparr>"

definition realloc_object :: "'v heap \<Rightarrow> symbase \<Rightarrow> symbase \<Rightarrow> int \<Rightarrow> int \<Rightarrow> (problem, 'v heap) res" where
  "realloc_object c old new oldlen newlen =
     (let c1 = alloc_no_type c new newlen in
      case (kmem c1 old, kmem c1 new) of
        (Some ob, Some nb) \<Rightarrow>
          Inr (deleteObject (c1\<lparr>kmem := (kmem c1)(new \<mapsto>
            nb\<lparr>kbytes := copyBytes (nat (min oldlen newlen)) (kbytes ob) (kbytes nb), keff := keff ob\<rparr>)\<rparr>) old)
      | _ \<Rightarrow> Inl Stuck)"

definition builtin_realloc :: "'v heap \<Rightarrow> symloc \<Rightarrow> int \<Rightarrow> (problem, 'v heap \<times> symloc) res" where
  "builtin_realloc c L newlen = (case stripProv L of
       Loc B off \<Rightarrow>
         (case kmalloced c B of
            Some oldlen \<Rightarrow>
              if off = 0 then
                let new = Obj (nextid c) cfg_alignofMalloc AllocDur in
                bindr (realloc_object c B new oldlen newlen) (\<lambda>c1.
                Inr (c1\<lparr>nextid := nextid c + 1,
                       kmalloced := (kmalloced c)(B := None, new \<mapsto> newlen)\<rparr>,
                     LocProv new 0 [FromArray 0 newlen]))
              else Inl (UNDEF ''STDLIB1'')
          | None \<Rightarrow> Inl (UNDEF ''STDLIB1''))
     | _ \<Rightarrow> Inr (builtin_malloc c newlen))"

definition builtin_free :: "'v heap \<Rightarrow> symloc \<Rightarrow> (problem, 'v heap) res" where
  "builtin_free c L = (case stripProv L of
       Loc B off \<Rightarrow>
         if kmalloced c B \<noteq> None \<and> off = 0
         then Inr ((deleteObject c B)\<lparr>kmalloced := (kmalloced c)(B := None)\<rparr>)
         else if isNativeLoc B then Inl (NativeCall ''free'')
         else Inl (UNDEF ''STDLIB2'')
     | _ \<Rightarrow> Inr c)"

section \<open>Calls of the heap builtins, one after the other\<close>

datatype heap_call = Malloc int | AlignedAlloc int int | Calloc int int | Realloc symloc int | Free symloc

fun heap_step :: "'v heap \<Rightarrow> heap_call \<Rightarrow> (problem, 'v heap \<times> symloc) res" where
  "heap_step c (Malloc n) = Inr (builtin_malloc c n)"
| "heap_step c (AlignedAlloc a n) = builtin_aligned_alloc c a n"
| "heap_step c (Calloc k n) = builtin_calloc c k n"
| "heap_step c (Realloc L n) = builtin_realloc c L n"
| "heap_step c (Free L) = bindr (builtin_free c L) (\<lambda>c1. Inr (c1, NullPointer))"

fun heap_run :: "'v heap \<Rightarrow> heap_call list \<Rightarrow> (problem, 'v heap \<times> symloc list) res" where
  "heap_run c [] = Inr (c, [])"
| "heap_run c (x # xs) = bindr (heap_step c x) (\<lambda>(c1, L).
     bindr (heap_run c1 xs) (\<lambda>(c2, Ls). Inr (c2, L # Ls)))"

section \<open>The invariant of the heap\<close>

text \<open>
  Every object has as many bytes as its length says and an identity below the counter; every
  entry of the table of allocated objects is a live object of that length.
\<close>

definition wf_heap :: "'v heap \<Rightarrow> bool" where
  "wf_heap c \<longleftrightarrow>
     (\<forall>B ob. kmem c B = Some ob \<longrightarrow>
        0 \<le> klen ob \<and> int (length (kbytes ob)) = klen ob \<and> obj_id B < nextid c) \<and>
     (\<forall>B n. kmalloced c B = Some n \<longrightarrow>
        obj_duration B = AllocDur \<and> (\<exists>ob. kmem c B = Some ob \<and> klen ob = n))"

fun sizes_ok :: "heap_call \<Rightarrow> bool" where
  "sizes_ok (Malloc n) = (0 \<le> n)"
| "sizes_ok (AlignedAlloc a n) = (0 \<le> n)"
| "sizes_ok (Calloc k n) = (0 \<le> k \<and> 0 \<le> n)"
| "sizes_ok (Realloc L n) = (0 \<le> n)"
| "sizes_ok (Free L) = True"

text \<open>The object a call releases, and the objects that a list of pointers names.\<close>

fun released :: "heap_call \<Rightarrow> symbase option" where
  "released (Realloc L n) = base L"
| "released (Free L) = base L"
| "released _ = None"

abbreviation bases :: "symloc list \<Rightarrow> symbase list" where
  "bases Ls \<equiv> List.map_filter base Ls"

text \<open>What a call that succeeds does to the heap.\<close>

definition heap_effect :: "'v heap \<Rightarrow> symbase option \<Rightarrow> 'v heap \<Rightarrow> symloc \<Rightarrow> bool" where
  "heap_effect c rel c' L \<longleftrightarrow>
     wf_heap c' \<and> nextid c \<le> nextid c' \<and>
     (\<forall>B. rel = Some B \<longrightarrow> kmalloced c B \<noteq> None) \<and>
     (\<forall>B. base L = Some B \<longrightarrow> obj_id B = nextid c \<and> nextid c' = nextid c + 1 \<and>
        L = LocProv B 0 [FromArray 0 (the (kmalloced c' B))]) \<and>
     (\<forall>B. kmalloced c' B \<noteq> None \<longleftrightarrow>
        (kmalloced c B \<noteq> None \<or> base L = Some B) \<and> rel \<noteq> Some B) \<and>
     (\<forall>B. rel \<noteq> Some B \<and> base L \<noteq> Some B \<longrightarrow>
        kmem c' B = kmem c B \<and> kmalloced c' B = kmalloced c B)"

lemma stripProv_base: "base (stripProv L) = base L" "offset (stripProv L) = offset L"
  by (cases L; simp)+

lemma wf_fresh: "wf_heap c \<Longrightarrow> nextid c \<le> obj_id B \<Longrightarrow> kmem c B = None \<and> kmalloced c B = None"
  unfolding wf_heap_def by (metis linorder_not_le option.exhaust_sel option.distinct(1))

lemma wf_malloced:
  "wf_heap c \<Longrightarrow> kmalloced c B = Some n \<Longrightarrow>
   \<exists>ob. kmem c B = Some ob \<and> klen ob = n \<and> 0 \<le> n \<and> length (kbytes ob) = nat n \<and> obj_id B < nextid c"
  unfolding wf_heap_def by (metis nat_int)

lemma length_copyBytes [simp]: "length (copyBytes n M M') = length M'"
  by (induction n M M' rule: copyBytes.induct) simp_all

lemma alignedAlloc_effect:
  assumes "wf_heap c" and "0 \<le> n" and "alignedAlloc c a n = (c', L)"
  shows "heap_effect c None c' L"
  using assms wf_fresh [OF assms(1), of "Obj (nextid c) a AllocDur"]
  by (auto simp: alignedAlloc_def alloc_no_type_def heap_effect_def wf_heap_def Let_def split: if_splits) force+

lemma heap_effect_kmem_update:
  assumes "heap_effect c rel c1 L" and "base L = Some B" and "kmem c1 B = Some ob"
    and "int (length bs) = klen ob"
  shows "heap_effect c rel (c1\<lparr>kmem := (kmem c1)(B \<mapsto> ob\<lparr>kbytes := bs\<rparr>)\<rparr>) L"
  using assms by (auto simp: heap_effect_def wf_heap_def) (metis option.inject)

lemma calloc_effect:
  assumes "wf_heap c" and "0 \<le> k" and "0 \<le> n" and "builtin_calloc c k n = Inr (c', L)"
  shows "heap_effect c None c' L"
proof -
  obtain c1 B where c1: "alignedAlloc c cfg_alignofMalloc (k * n) = (c1, L)" and B: "base L = Some B"
    and z: "zeroObject c1 B = Inr c'"
    using assms(4) by (auto simp: builtin_calloc_def builtin_malloc_def bindr_eq_Inr
        split: prod.splits option.splits)
  have e: "heap_effect c None c1 L" using assms(1-3) c1 by (intro alignedAlloc_effect) simp_all
  from z obtain ob where ob: "kmem c1 B = Some ob"
    and c': "c' = c1\<lparr>kmem := (kmem c1)(B \<mapsto>
      ob\<lparr>kbytes := replicate (nat (klen ob)) (Some (Piece (IntB 0) bits_per_byte))\<rparr>)\<rparr>"
    by (auto simp: zeroObject_def split: option.splits)
  have "0 \<le> klen ob" using e ob by (auto simp: heap_effect_def wf_heap_def)
  then show ?thesis unfolding c' by (intro heap_effect_kmem_update [OF e B ob]) simp
qed

lemma realloc_Some:
  assumes "wf_heap c" and "kmalloced c B = Some old" and "kmem c B = Some ob"
    and "base L = Some B" and "offset L = Some 0" and "new = Obj (nextid c) cfg_alignofMalloc AllocDur"
  shows "builtin_realloc c L n = Inr
    (c\<lparr>kmem := (kmem c)(B := None, new \<mapsto>
          \<lparr>keff = keff ob, klen = n, kbytes = copyBytes (nat (min old n)) (kbytes ob) (replicate (nat n) None)\<rparr>),
       nextid := nextid c + 1, kmalloced := (kmalloced c)(B := None, new \<mapsto> n)\<rparr>,
     LocProv new 0 [FromArray 0 n])"
proof -
  have "B \<noteq> new" using wf_fresh [OF assms(1), of new] assms(2,6) by auto
  moreover have "stripProv L = Loc B 0" using assms(4,5) by (cases L) auto
  ultimately show ?thesis using assms
    by (simp add: builtin_realloc_def realloc_object_def alloc_no_type_def deleteObject_def Let_def fun_upd_twist)
qed


lemma realloc_effect:
  assumes "wf_heap c" and "0 \<le> n" and "builtin_realloc c L n = Inr (c', L')"
  shows "heap_effect c (base L) c' L'"
proof (cases "base L")
  case None
  then have "stripProv L = NullPointer" by (cases L) auto
  with assms None show ?thesis
    by (auto simp: builtin_realloc_def builtin_malloc_def intro: alignedAlloc_effect)
next
  case (Some B)
  then obtain old where old: "kmalloced c B = Some old" and off: "offset L = Some 0"
    using assms(3) by (cases L) (auto simp: builtin_realloc_def split: option.splits if_splits)
  from wf_malloced [OF assms(1) old] obtain ob where ob: "kmem c B = Some ob" by blast
  let ?new = "Obj (nextid c) cfg_alignofMalloc AllocDur"
  have new: "B \<noteq> ?new" "kmem c ?new = None" "kmalloced c ?new = None"
    using wf_fresh [OF assms(1), of ?new] old by auto
  show ?thesis
    using assms Some old new unfolding realloc_Some [OF assms(1) old ob Some off refl]
    by (auto simp: heap_effect_def wf_heap_def split: if_splits) force+
qed

lemma free_effect:
  assumes "wf_heap c" and "builtin_free c L = Inr c'"
  shows "heap_effect c (base L) c' NullPointer"
  using assms by (cases L)
    (auto simp: builtin_free_def heap_effect_def wf_heap_def deleteObject_def split: if_splits)

lemma heap_step_effect:
  assumes "wf_heap c" and "sizes_ok x" and "heap_step c x = Inr (c', L)"
  shows "heap_effect c (released x) c' L"
proof (cases x)
  case (Free L0)
  with assms show ?thesis by (auto simp: bindr_eq_Inr intro: free_effect)
qed (use assms in \<open>auto simp: builtin_malloc_def builtin_aligned_alloc_def
      intro: alignedAlloc_effect calloc_effect realloc_effect split: if_splits\<close>)

text \<open>
  C19: The heap after any sequence of calls. Start from a consistent heap and call malloc,
  aligned_alloc, calloc, realloc and free in any order with any arguments of type size_t; if
  no call is reported, the heap is consistent again. The objects the calls returned are all
  different, none of them existed before, and none is ever reused. Exactly the objects that
  were allocated before or by the calls and that no call released are allocated at the end,
  and an object from before that no call released still has the contents it had.
\<close>

theorem heap_calls_sound:
  assumes "wf_heap c" and "\<forall>x \<in> set xs. sizes_ok x" and "heap_run c xs = Inr (c', Ls)"
  shows "wf_heap c' \<and> distinct (bases Ls) \<and>
    (\<forall>B \<in> set (bases Ls). kmem c B = None \<and> nextid c \<le> obj_id B) \<and>
    (\<forall>B. kmalloced c' B \<noteq> None \<longleftrightarrow>
       (kmalloced c B \<noteq> None \<or> B \<in> set (bases Ls)) \<and> Some B \<notin> released ` set xs) \<and>
    (\<forall>B. kmem c B \<noteq> None \<and> Some B \<notin> released ` set xs \<longrightarrow> kmem c' B = kmem c B)"
  using assms
proof (induction xs arbitrary: c Ls)
  case Nil
  then show ?case by (simp add: List.map_filter_simps)
next
  case (Cons x xs)
  obtain c1 L Ls' where c1: "heap_step c x = Inr (c1, L)" and r: "heap_run c1 xs = Inr (c', Ls')"
    and Ls: "Ls = L # Ls'"
    using Cons.prems(3) by (auto simp: bindr_eq_Inr)
  have e: "heap_effect c (released x) c1 L"
    using Cons.prems c1 by (intro heap_step_effect) simp_all
  then have wf: "wf_heap c1" and mono: "nextid c \<le> nextid c1" by (simp_all add: heap_effect_def)
  have IH: "distinct (bases Ls')" "\<forall>B \<in> set (bases Ls'). nextid c1 \<le> obj_id B"
    "\<forall>B. kmalloced c' B \<noteq> None \<longleftrightarrow>
       (kmalloced c1 B \<noteq> None \<or> B \<in> set (bases Ls')) \<and> Some B \<notin> released ` set xs"
    "\<forall>B. kmem c1 B \<noteq> None \<and> Some B \<notin> released ` set xs \<longrightarrow> kmem c' B = kmem c1 B" "wf_heap c'"
    using Cons.IH [OF wf _ r] Cons.prems(2) by simp_all
  have bs: "set (bases Ls) = {B. base L = Some B} \<union> set (bases Ls')"
    unfolding Ls by (auto simp: List.map_filter_simps split: option.splits)
  have L: "base L = Some B \<Longrightarrow> obj_id B = nextid c \<and> nextid c1 = nextid c + 1" for B
    using e by (simp add: heap_effect_def)
  have ids: "\<forall>B \<in> set (bases Ls). nextid c \<le> obj_id B" using IH(2) mono L bs by fastforce
  have "distinct (bases Ls)"
    using IH(1,2) L unfolding Ls by (fastforce simp: List.map_filter_simps split: option.splits)
  moreover have "released x = Some B \<Longrightarrow> B \<notin> set (bases Ls')" for B
    using e wf_malloced [OF Cons.prems(1), of B] IH(2) mono by (fastforce simp: heap_effect_def)
  then have "\<forall>B. kmalloced c' B \<noteq> None \<longleftrightarrow>
       (kmalloced c B \<noteq> None \<or> B \<in> set (bases Ls)) \<and> Some B \<notin> released ` set (x # xs)"
    using e IH(3) bs unfolding heap_effect_def by auto
  moreover have "kmem c B \<noteq> None \<Longrightarrow> base L \<noteq> Some B" for B
    using L wf_fresh [OF Cons.prems(1), of B] by auto
  then have "\<forall>B. kmem c B \<noteq> None \<and> Some B \<notin> released ` set (x # xs) \<longrightarrow> kmem c' B = kmem c B"
    using e IH(4) unfolding heap_effect_def by (metis imageI list.set_intros image_insert insert_iff list.simps(15))
  ultimately show ?case using IH(5) ids wf_fresh [OF Cons.prems(1)] by blast
qed


section \<open>Contents\<close>

lemma nth_copyBytes:
  "i < length M' \<Longrightarrow> copyBytes n M M' ! i = (if i < n \<and> i < length M \<and> M ! i \<noteq> None then M ! i else M' ! i)"
  by (induction n M M' rule: copyBytes.induct) (auto simp: less_Suc_eq nth_list_update)

lemma copyBytes_replicate:
  assumes "n \<le> length M" and "n \<le> k"
  shows "copyBytes n M (replicate k None) = take n M @ replicate (k - n) None"
  using assms by (intro nth_equalityI) (auto simp: nth_copyBytes nth_append)

lemma malloc_ok:
  "n \<le> cfg_maxHeapBound \<Longrightarrow> B = Obj (nextid c) cfg_alignofMalloc AllocDur \<Longrightarrow>
   builtin_malloc c n = ((alloc_no_type c B n)\<lparr>nextid := nextid c + 1, kmalloced := (kmalloced c)(B \<mapsto> n)\<rparr>,
     LocProv B 0 [FromArray 0 n])"
  by (simp add: builtin_malloc_def alignedAlloc_def Let_def)

lemma realloc_contents:
  assumes "wf_heap c" and "0 \<le> n" and L: "base L = Some B" "offset L = Some off"
  shows "case kmalloced c B of
      Some old \<Rightarrow>
        if off = 0 then
          \<exists>c' B' ob. builtin_realloc c L n = Inr (c', LocProv B' 0 [FromArray 0 n]) \<and>
            kmem c B = Some ob \<and> kmem c B' = None \<and> kmem c' B = None \<and>
            kmem c' B' = Some \<lparr>keff = keff ob, klen = n,
              kbytes = take (nat n) (kbytes ob) @ replicate (nat (n - old)) None\<rparr>
        else builtin_realloc c L n = Inl (UNDEF ''STDLIB1'')
    | None \<Rightarrow> builtin_realloc c L n = Inl (UNDEF ''STDLIB1'')"
proof (cases "kmalloced c B")
  case None
  with L show ?thesis by (cases L) (simp_all add: builtin_realloc_def)
next
  case (Some old)
  let ?new = "Obj (nextid c) cfg_alignofMalloc AllocDur"
  from Some obtain ob where ob: "kmem c B = Some ob" "klen ob = old" "0 \<le> old" "length (kbytes ob) = nat old"
    using wf_malloced [OF assms(1)] by blast
  have new: "kmem c ?new = None" using wf_fresh [OF assms(1), of ?new] by simp
  with ob have ne: "B \<noteq> ?new" by auto
  have bytes: "copyBytes (nat (min old n)) (kbytes ob) (replicate (nat n) None) =
      take (nat n) (kbytes ob) @ replicate (nat (n - old)) None"
    using ob assms(2) by (subst copyBytes_replicate) (auto simp: min_def nat_diff_distrib)
  show ?thesis
  proof (cases "off = 0")
    case True
    with realloc_Some [OF assms(1) Some ob(1) L(1) _ refl, of n] L bytes new ne ob(1) Some
    show ?thesis by simp
  next
    case False
    with L Some show ?thesis by (cases L) (simp_all add: builtin_realloc_def)
  qed
qed

lemma calloc_contents:
  assumes "wf_heap c" and "0 \<le> k" and "0 \<le> m"
  shows "if k * m \<le> cfg_maxHeapBound then
      \<exists>c' B'. builtin_calloc c k m = Inr (c', LocProv B' 0 [FromArray 0 (k * m)]) \<and>
        kmem c B' = None \<and> kmalloced c' B' = Some (k * m) \<and>
        kmem c' B' = Some \<lparr>keff = DynamicNoType, klen = k * m,
          kbytes = replicate (nat (k * m)) (Some (Piece (IntB 0) 8))\<rparr>
    else builtin_calloc c k m = Inl Stuck"
proof -
  let ?B = "Obj (nextid c) cfg_alignofMalloc AllocDur"
  have "kmem c ?B = None" using wf_fresh [OF assms(1), of ?B] by simp
  then show ?thesis
    using malloc_ok [of "k * m" ?B c] assms(2,3)
    by (auto simp: builtin_calloc_def zeroObject_def alloc_no_type_def bits_per_byte_def
        builtin_malloc_def alignedAlloc_def)
qed

text \<open>
  C20: What realloc and calloc leave in memory. For a pointer to the start of an allocated
  object, realloc gives a new object of the new size, whatever that size is: its first bytes,
  up to the smaller of the two sizes, are those of the old object, initialised or not, the
  others are indeterminate, it has the effective type of the old object, and the old object is
  gone. Any other pointer but null is reported (STDLIB1). calloc gives an object whose bytes
  are all zero if the product of its arguments is within the bound of the heap; above the bound
  there is no rule to go on.
\<close>

theorem realloc_calloc_contents:
  assumes "wf_heap c" and "0 \<le> n" and "0 \<le> k" and "0 \<le> m"
  shows "(\<forall>B off. base L = Some B \<and> offset L = Some off \<longrightarrow>
      (case kmalloced c B of
         Some old \<Rightarrow>
           if off = 0 then
             \<exists>c' B' ob. builtin_realloc c L n = Inr (c', LocProv B' 0 [FromArray 0 n]) \<and>
               kmem c B = Some ob \<and> kmem c B' = None \<and> kmem c' B = None \<and>
               kmem c' B' = Some \<lparr>keff = keff ob, klen = n,
                 kbytes = take (nat n) (kbytes ob) @ replicate (nat (n - old)) None\<rparr>
           else builtin_realloc c L n = Inl (UNDEF ''STDLIB1'')
       | None \<Rightarrow> builtin_realloc c L n = Inl (UNDEF ''STDLIB1''))) \<and>
    (if k * m \<le> cfg_maxHeapBound then
       \<exists>c' B'. builtin_calloc c k m = Inr (c', LocProv B' 0 [FromArray 0 (k * m)]) \<and>
         kmem c B' = None \<and> kmalloced c' B' = Some (k * m) \<and>
         kmem c' B' = Some \<lparr>keff = DynamicNoType, klen = k * m,
           kbytes = replicate (nat (k * m)) (Some (Piece (IntB 0) 8))\<rparr>
     else builtin_calloc c k m = Inl Stuck)"
  using realloc_contents [OF assms(1,2)] calloc_contents [OF assms(1,3,4)] by blast


definition demo_heap :: "unit heap" where
  "demo_heap = \<lparr>kmem = Map.empty, kmalloced = Map.empty, nextid = 0, linkings = Map.empty, executing = True\<rparr>"

lemma demo_heap_wf: "wf_heap demo_heap"
  by (simp add: wf_heap_def demo_heap_def)

definition demo_object :: symbase where
  "demo_object = Obj 0 cfg_alignofMalloc AllocDur"

definition demo_calls :: "heap_call list" where
  "demo_calls = [Calloc 2 2, Malloc 1, Realloc (Loc demo_object 0) 6]"

lemma demo_calls_run:
  "\<exists>c'. heap_run demo_heap demo_calls = Inr (c', [LocProv demo_object 0 [FromArray 0 4],
     LocProv (Obj 1 cfg_alignofMalloc AllocDur) 0 [FromArray 0 1],
     LocProv (Obj 2 cfg_alignofMalloc AllocDur) 0 [FromArray 0 6]])"
  by (simp add: demo_calls_def demo_object_def demo_heap_def builtin_calloc_def builtin_malloc_def
      alignedAlloc_def alloc_no_type_def zeroObject_def builtin_realloc_def realloc_object_def deleteObject_def
      cfg_maxHeapBound_def Let_def)

theorem heap_calls_sound_witness:
  "\<exists>c' Ls. heap_run demo_heap demo_calls = Inr (c', Ls) \<and> wf_heap c' \<and> length (bases Ls) = 3 \<and>
     distinct (bases Ls) \<and> kmalloced c' demo_object = None"
proof -
  from demo_calls_run obtain c' Ls where run: "heap_run demo_heap demo_calls = Inr (c', Ls)"
    and Ls: "length (bases Ls) = 3"
    by (auto simp: List.map_filter_simps)
  moreover have "\<forall>x \<in> set demo_calls. sizes_ok x" by (simp add: demo_calls_def)
  moreover have "Some demo_object \<in> released ` set demo_calls" by (simp add: demo_calls_def)
  ultimately show ?thesis
    using heap_calls_sound [OF demo_heap_wf _ run] by blast
qed

theorem realloc_calloc_contents_witness:
  "\<exists>c' B'. builtin_calloc demo_heap 3 5 = Inr (c', LocProv B' 0 [FromArray 0 15]) \<and>
     kmem c' B' = Some \<lparr>keff = DynamicNoType, klen = 15, kbytes = replicate 15 (Some (Piece (IntB 0) 8))\<rparr> \<and>
     builtin_realloc demo_heap (Loc demo_object 0) 1 = Inl (UNDEF ''STDLIB1'')"
proof -
  have "3 * 5 \<le> cfg_maxHeapBound" by (simp add: cfg_maxHeapBound_def push_bit_eq_mult)
  moreover have "kmalloced demo_heap demo_object = None" by (simp add: demo_heap_def)
  ultimately show ?thesis
    using realloc_calloc_contents [OF demo_heap_wf, of 1 3 5 "Loc demo_object 0"] by auto
qed

end
