(* ===== verification/KMemRefine.thy ===== *)
theory KMemRefine
  imports KHeap CMem
begin

text \<open>
  The heap and the pointer arithmetic of the memory that the C library is verified on (CMem),
  refined by the semantics of C: object number \<open>b\<close> of the one is the object \<open>\<beta> b\<close> of
  the other, with the same bytes, and a pointer is a location of that object whose provenance,
  if it names an array, names the whole object, as the pointers that \<open>malloc\<close> returns do.
  The operations \<open>malloc\<close>, \<open>free\<close>, pointer addition, pointer difference and equality
  of CMem are then what the rules of the semantics compute, with undefined behaviour on the one
  side exactly where the other side reports it. The null pointer is the one exception: the
  semantics adds to it without a report, which CMem does not allow. Loads and stores are not
  compared: the rules that read and write bytes (common/memory, execution/io.k), with their
  effective types, buffered writes and checks of \<open>restrict\<close>, are not modelled.
\<close>

section \<open>The relation\<close>

text \<open>The bytes of the semantics that CMem has: whole bytes that hold a number, or nothing.\<close>

fun byte_rel :: "'v kbyte option \<Rightarrow> cell \<Rightarrow> bool" where
  "byte_rel None c \<longleftrightarrow> c = None"
| "byte_rel (Some (Piece (IntB n) l)) c \<longleftrightarrow> l = 8 \<and> 0 \<le> n \<and> n < 256 \<and> c = Some (word_of_int n)"
| "byte_rel _ c \<longleftrightarrow> False"

fun obj_rel :: "'v kbyte kobject option \<Rightarrow> obj option \<Rightarrow> bool" where
  "obj_rel (Some k) (Some ob) \<longleftrightarrow>
     klen k = int (length (contents ob)) \<and> list_all2 byte_rel (kbytes k) (contents ob)"
| "obj_rel None None \<longleftrightarrow> True"
| "obj_rel _ _ \<longleftrightarrow> False"

text \<open>Object \<open>b\<close> of CMem is the object \<open>B\<close>.\<close>

definition same_object :: "'v heap \<Rightarrow> mem \<Rightarrow> nat \<Rightarrow> symbase \<Rightarrow> bool" where
  "same_object c m b B \<longleftrightarrow>
     obj_id B = int b \<and> resolved c B \<and> \<not> isNativeLoc B \<and>
     (objs m b = None \<longrightarrow> \<not> isStaticDuration B) \<and>
     obj_rel (kmem c B) (objs m b) \<and>
     kmalloced c B = map_option int (malloced m b) \<and>
     (malloced m b \<noteq> None \<longrightarrow> obj_duration B = AllocDur)"

definition mem_rel :: "(nat \<Rightarrow> symbase) \<Rightarrow> 'v heap \<Rightarrow> mem \<Rightarrow> bool" where
  "mem_rel \<beta> c m \<longleftrightarrow>
     nextid c = int (fresh m) \<and> (\<forall>b. same_object c m b (\<beta> b)) \<and>
     (\<forall>B. obj_duration B = AllocDur \<longrightarrow> resolved c B)"

fun ptr_rel :: "(nat \<Rightarrow> symbase) \<Rightarrow> mem \<Rightarrow> symloc \<Rightarrow> ptr \<Rightarrow> bool" where
  "ptr_rel \<beta> m NullPointer NullPtr = True"
| "ptr_rel \<beta> m (Loc B i) (Ptr b j) = (B = \<beta> b \<and> i = j)"
| "ptr_rel \<beta> m (LocProv B i pv) (Ptr b j) = (B = \<beta> b \<and> i = j \<and>
     (\<forall>ob. objs m b = Some ob \<longrightarrow>
        (\<forall>p \<in> set pv. is_from_array p \<longrightarrow> p = FromArray i (int (length (contents ob))))))"
| "ptr_rel \<beta> m _ _ = False"

lemma obj_relD:
  "obj_rel k None \<Longrightarrow> k = None"
  "obj_rel k (Some ob) \<Longrightarrow> \<exists>k'. k = Some k' \<and> klen k' = int (length (contents ob))"
  by (cases k; simp)+

lemma mem_relD:
  assumes "mem_rel \<beta> c m"
  shows "obj_id (\<beta> b) = int b" and "resolved c (\<beta> b)" and "\<not> isNativeLoc (\<beta> b)"
    and "objs m b = None \<Longrightarrow> \<not> isStaticDuration (\<beta> b) \<and> kmem c (\<beta> b) = None"
    and "kmalloced c (\<beta> b) = map_option int (malloced m b)"
    and "objs m b = Some ob \<Longrightarrow> \<exists>k. kmem c (\<beta> b) = Some k \<and> klen k = int (length (contents ob))"
proof -
  have s: "same_object c m b (\<beta> b)" using assms by (simp add: mem_rel_def)
  then show "obj_id (\<beta> b) = int b" and "resolved c (\<beta> b)" and "\<not> isNativeLoc (\<beta> b)"
    and "kmalloced c (\<beta> b) = map_option int (malloced m b)"
    by (simp_all add: same_object_def)
  show "objs m b = None \<Longrightarrow> \<not> isStaticDuration (\<beta> b) \<and> kmem c (\<beta> b) = None"
    using s by (auto simp: same_object_def dest: obj_relD)
  show "objs m b = Some ob \<Longrightarrow> \<exists>k. kmem c (\<beta> b) = Some k \<and> klen k = int (length (contents ob))"
    using s by (auto simp: same_object_def dest: obj_relD)
qed

lemma same_object_cong:
  "same_object c m b B \<Longrightarrow> kmem c' B = kmem c B \<Longrightarrow> kmalloced c' B = kmalloced c B \<Longrightarrow>
   linkings c' = linkings c \<Longrightarrow> executing c' = executing c \<Longrightarrow>
   objs m' b = objs m b \<Longrightarrow> malloced m' b = malloced m b \<Longrightarrow> same_object c' m' b B"
  by (simp add: same_object_def resolved_def)

lemma mem_rel_inj: "mem_rel \<beta> c m \<Longrightarrow> \<beta> a = \<beta> b \<longleftrightarrow> a = b"
  using mem_relD(1) [of \<beta> c m] by (metis of_nat_eq_iff)

lemma ptr_rel_Ptr: "ptr_rel \<beta> m L (Ptr b i) \<Longrightarrow> base L = Some (\<beta> b) \<and> offset L = Some i"
  by (cases L) auto

lemma ptr_rel_Null: "ptr_rel \<beta> m L NullPtr \<longleftrightarrow> L = NullPointer"
  by (cases L) auto

section \<open>The heap\<close>

lemma byte_rel_uninit: "list_all2 byte_rel (replicate n None) (replicate n None)"
  by (induction n) simp_all

lemma bound_agrees: "cfg_maxHeapBound = int maxHeapBound"
  by (simp add: cfg_maxHeapBound_def maxHeapBound_def push_bit_eq_mult)

lemma bound_iff: "uint n \<le> cfg_maxHeapBound \<longleftrightarrow> unat n \<le> maxHeapBound"
  unfolding bound_agrees by (metis of_nat_le_iff uint_nat)

lemma malloc_refines:
  assumes r: "mem_rel \<beta> c m" and "malloc m n = (m', p)"
  shows "\<exists>\<beta>' c' L. builtin_malloc c (uint n) = (c', L) \<and> mem_rel \<beta>' c' m' \<and> ptr_rel \<beta>' m' L p \<and>
    (\<forall>b. b \<noteq> fresh m \<longrightarrow> \<beta>' b = \<beta> b)"
proof (cases "unat n \<le> maxHeapBound")
  case False
  then have "\<not> uint n \<le> cfg_maxHeapBound" by (simp add: bound_iff)
  with False assms show ?thesis
    by (auto simp: malloc_def builtin_malloc_def alignedAlloc_def)
next
  case True
  then have le: "uint n \<le> cfg_maxHeapBound" by (simp add: bound_iff)
  let ?B = "Obj (nextid c) cfg_alignofMalloc AllocDur"
  let ?\<beta> = "\<beta>(fresh m := ?B)"
  have B: "\<beta> b \<noteq> ?B" if "b \<noteq> fresh m" for b
    using mem_relD(1) [OF r, of b] r that by (auto simp: mem_rel_def)
  let ?c = "(alloc_no_type c ?B (uint n))\<lparr>nextid := nextid c + 1, kmalloced := (kmalloced c)(?B \<mapsto> uint n)\<rparr>"
  have "same_object ?c (fst (malloc m n)) b (\<beta> b)" if "b \<noteq> fresh m" for b
    using B [OF that] that True r
    by - (rule same_object_cong [of c m], simp_all add: mem_rel_def alloc_no_type_def malloc_def)
  moreover have "same_object ?c (fst (malloc m n)) (fresh m) ?B"
    using r True by (simp add: same_object_def mem_rel_def alloc_no_type_def malloc_def byte_rel_uninit resolved_def
        isLinkBase_def isNativeLoc_def)
  ultimately have "mem_rel ?\<beta> ?c (fst (malloc m n))"
    using r True by (simp add: mem_rel_def alloc_no_type_def malloc_def resolved_def)
  with True le assms(2) show ?thesis
    by (intro exI [of _ ?\<beta>]) (auto simp: malloc_ok malloc_def)
qed

lemma free_refines:
  assumes r: "mem_rel \<beta> c m" and p: "ptr_rel \<beta> m L p"
  shows "case free m p of
      Inr m' \<Rightarrow> \<exists>c'. builtin_free c L = Inr c' \<and> mem_rel \<beta> c' m'
    | Inl e \<Rightarrow> builtin_free c L = Inl (UNDEF ''STDLIB2'')"
proof (cases p)
  case NullPtr
  with p r show ?thesis by (simp add: ptr_rel_Null builtin_free_def)
next
  case (Ptr b i)
  with p have L: "stripProv L = Loc (\<beta> b) i" by (cases L) auto
  note d = mem_relD [OF r, of b]
  show ?thesis
  proof (cases "malloced m b = None \<or> i \<noteq> 0")
    case True
    with Ptr L d show ?thesis by (auto simp: builtin_free_def)
  next
    case False
    then obtain n where n: "malloced m b = Some n" and i: "i = 0" by auto
    have dur: "\<not> isStaticDuration (\<beta> b)"
      using r n by (auto simp: mem_rel_def same_object_def isStaticDuration_def)
    let ?c = "(deleteObject c (\<beta> b))\<lparr>kmalloced := (kmalloced c)(\<beta> b := None)\<rparr>"
    let ?m = "m\<lparr>objs := (objs m)(b := None), malloced := (malloced m)(b := None)\<rparr>"
    have "same_object ?c ?m a (\<beta> a)" for a
    proof (cases "a = b")
      case True
      with d(1,2,3) dur show ?thesis by (simp add: same_object_def deleteObject_def resolved_def)
    next
      case False
      with r mem_rel_inj [OF r, of a b] show ?thesis
        by - (rule same_object_cong [of c m], simp_all add: mem_rel_def deleteObject_def)
    qed
    then have "mem_rel \<beta> ((deleteObject c (\<beta> b))\<lparr>kmalloced := (kmalloced c)(\<beta> b := None)\<rparr>)
        (m\<lparr>objs := (objs m)(b := None), malloced := (malloced m)(b := None)\<rparr>)"
      using r by (simp add: mem_rel_def deleteObject_def resolved_def)
    with Ptr L d n i show ?thesis by (simp add: builtin_free_def)
  qed
qed

section \<open>Pointer arithmetic\<close>

definition char_pointer :: ptrtype where
  "char_pointer = bare (CT {} (CInt CharType))"

lemma byteSizeof_char [simp]: "byteSizeofType (CT q (CInt CharType)) = 1"
  by (simp add: byteSizeofType_def bitsPerByte_def)

lemma char_pointee [simp]: "innerType char_pointer = CT {} (CInt CharType)"
  by (simp add: char_pointer_def)

text \<open>CMem meets the contract of pointer arithmetic.\<close>

definition inside :: "mem \<Rightarrow> nat \<Rightarrow> int \<Rightarrow> ptr \<Rightarrow> bool" where
  "inside m b n p \<longleftrightarrow> (\<exists>i ob. p = Ptr b i \<and> objs m b = Some ob \<and> n = int (length (contents ob)) \<and> 0 \<le> i \<and> i \<le> n)"

fun ptr_offset :: "ptr \<Rightarrow> int" where
  "ptr_offset (Ptr b i) = i"
| "ptr_offset NullPtr = 0"

interpretation cp: bounded_walk "ptr_add m" "inside m b n" ptr_offset n 1 "\<lambda>e. e = OutOfBounds"
  for m b n
  by unfold_locales (auto simp: inside_def ptr_add_def)

lemma ptr_rel_array_pointer:
  assumes r: "mem_rel \<beta> c m" and p: "ptr_rel \<beta> m L p" and i: "inside m b n p"
  shows "array_pointer c (\<beta> b) 0 n (Pv L T)" and "offset L = Some (ptr_offset p)"
proof -
  from i obtain j ob where j: "p = Ptr b j" and ob: "objs m b = Some ob" "n = int (length (contents ob))"
    and bnd: "0 \<le> j" "j \<le> n"
    by (auto simp: inside_def)
  from p j show "offset L = Some (ptr_offset p)" by (simp add: ptr_rel_Ptr)
  obtain k where k: "kmem c (\<beta> b) = Some k" "klen k = n"
    using mem_relD(6) [OF r ob(1)] ob(2) by auto
  show "array_pointer c (\<beta> b) 0 n (Pv L T)"
    using p j ob bnd k mem_relD(2) [OF r, of b]
    by (cases L) (auto simp: array_pointer_def isFromArray_def)
qed

lemma array_pointer_ptr_rel:
  assumes "array_pointer c (\<beta> b) 0 n v" and "offset (ploc v) = Some i"
    and "inside m b n (Ptr b i)"
  shows "ptr_rel \<beta> m (ploc v) (Ptr b i)"
  using assms by (cases "ploc v")
    (auto simp: array_pointer_def inside_def isFromArray_def list_ex_iff split: option.splits if_splits)

lemma inside_Ptr: "inside m b n p \<Longrightarrow> p = Ptr b (ptr_offset p)"
  by (auto simp: inside_def)

lemma walks_agree:
  assumes r: "mem_rel \<beta> c m" and p: "ptr_rel \<beta> m L p" and i: "inside m b n p" and I: "isPromoted (st I)"
  shows "case walk (ptr_add m) p ks of
      Inr q \<Rightarrow> \<exists>L'. walk (add_step c I) (Pv L char_pointer) ks = Inr (Pv L' char_pointer) \<and> ptr_rel \<beta> m L' q
    | Inl e \<Rightarrow> \<exists>e'. walk (add_step c I) (Pv L char_pointer) ks = Inl e' \<and> out_of_bounds e'"
proof -
  let ?v = "Pv L char_pointer"
  have v: "walkable c (\<beta> b) 0 n char_pointer I ?v"
    using ptr_rel_array_pointer(1) [OF r p i] I by (simp add: walkable_def arithmetic_pointee_def)
  have off: "offset L = Some (ptr_offset p)" using ptr_rel_array_pointer(2) [OF r p i] .
  have iff: "(\<exists>w. walk (add_step c I) ?v ks = Inr w) \<longleftrightarrow> (\<exists>q. walk (ptr_add m) p ks = Inr q)"
    using kp.walk_inside_iff [OF v, of ks] cp.walk_inside_iff [OF i, of ks] off by simp
  show ?thesis
  proof (cases "walk (ptr_add m) p ks")
    case (Inl e)
    with iff obtain e' where "walk (add_step c I) ?v ks = Inl e'" by (cases "walk (add_step c I) ?v ks") auto
    with Inl kp.walk_error [OF v] show ?thesis by simp
  next
    case (Inr q)
    with iff obtain w where w: "walk (add_step c I) ?v ks = Inr w" by blast
    have q: "inside m b n q" "ptr_offset q = ptr_offset p + sum_list ks"
      using cp.walk_ok [OF i Inr] by simp_all
    have w': "walkable c (\<beta> b) 0 n char_pointer I w" "the (offset (ploc w)) = ptr_offset p + sum_list ks"
      using kp.walk_ok [OF v w] off by simp_all
    then have "offset (ploc w) = Some (ptr_offset q)" using q
      by (auto simp: walkable_def elim!: array_pointerD)
    then have "ptr_rel \<beta> m (ploc w) (Ptr b (ptr_offset q))"
      using w' q inside_Ptr [OF q(1)] by (intro array_pointer_ptr_rel) (auto simp: walkable_def)
    with w Inr w' inside_Ptr [OF q(1)] show ?thesis by (cases w) (auto simp: walkable_def)
  qed
qed

text \<open>A pointer to an object that is gone, and the null pointer.\<close>

lemma dead_agrees:
  assumes r: "mem_rel \<beta> c m" and p: "ptr_rel \<beta> m L (Ptr b i)" and "objs m b = None" and "isPromoted (st I)"
  shows "ptr_add m (Ptr b i) k = Inl DeadObject \<and>
    (\<exists>e. add_step c I (Pv L char_pointer) k = Inl e \<and> (e = UNDEF ''CEA1'' \<or> e = UNDEF ''CEE4''))"
proof -
  note d = mem_relD [OF r, of b]
  have "checkUse c (moved (Pv L char_pointer) k) = Inl (UNDEF ''CEE4'')"
    using p d(2) d(3) d(4) [OF assms(3)]
    by (cases L) (auto simp: moved_def checkUse_def checkLoc_def checkLocAllowLink_def resolved_def)
  then show ?thesis
    using assms by (auto simp: ptr_add_def add_pointer_def addToPointer_def moved_def)
qed

section \<open>Difference and comparison\<close>

lemma difference_agrees:
  assumes r: "mem_rel \<beta> c m" and p: "ptr_rel \<beta> m L (Ptr b i)" and q: "ptr_rel \<beta> m L' (Ptr b' j)"
    and rng: "imin LongInt \<le> i - j" "i - j \<le> imax LongInt"
  shows "case ptr_diff (Ptr b i) (Ptr b' j) of
      Inr d \<Rightarrow> sub_pointers (Pv L char_pointer) (Pv L' char_pointer) = Inr (Tv (i - j) ptrdiff_type) \<and>
        d = word_of_int (i - j)
    | Inl e \<Rightarrow> sub_pointers (Pv L char_pointer) (Pv L' char_pointer) = Inl (UNDEF ''CEA5'')"
  using ptr_rel_Ptr [OF p] ptr_rel_Ptr [OF q] mem_rel_inj [OF r, of b b'] rng
    computePointerDifference_multiple [of 1 ptrdiff_type "i - j"]
  by (simp add: sub_pointers_def)

lemma equality_agrees:
  assumes r: "mem_rel \<beta> c m" and p: "ptr_rel \<beta> m L p" and q: "ptr_rel \<beta> m L' p'"
  shows "equal_pointers e (Pv L char_pointer) (Pv L' char_pointer) =
    Inr (Tv (if (p = p') = e then 1 else 0) int_type)"
proof -
  have "makeTruthType char_pointer char_pointer = int_type"
    by (simp add: makeTruthType_def fromConstantExpr_def char_pointer_def)
  then show ?thesis
    using p q mem_rel_inj [OF r] ptr_rel_Ptr [of \<beta> m L] ptr_rel_Ptr [of \<beta> m L']
    by (cases p; cases p') (auto simp: equal_pointers_def ptr_rel_Null makeTruth_def
        isCompatibleEqualityTypes_def Let_def split: option.splits)
qed


lemma null_plus:
  "isPromoted (st I) \<Longrightarrow> add_step c I (Pv NullPointer char_pointer) k = Inr (Pv NullPointer char_pointer)"
  by (simp add: add_pointer_def addToPointer_def ifFromArrayInBounds_def checkUse_def checkLoc_def)

section \<open>The refinement\<close>

text \<open>
  C9: The heap and the pointer operations of the memory that the C library is verified on are
  those of the semantics of C, with one exception; loads and stores are not compared. Whenever
  the two memories correspond, malloc gives corresponding pointers and memories again, and both
  or neither give null; free either succeeds on both sides, with corresponding memories, or is
  undefined here and reported there (STDLIB2); any sequence of additions to a char pointer into
  a live object ends at corresponding pointers, or is undefined here and reported there; a
  pointer to an object that is gone cannot be moved on either side; the difference of two
  pointers, as ptrdiff_t, converts to the size_t that CMem computes, and is undefined here when
  it is reported there; and pointers are equal here exactly when they compare equal there. The
  exception is the null pointer: adding to it is undefined here and accepted there, giving the
  null pointer again.
\<close>

theorem heap_and_pointers_refine_semantics:
  assumes "mem_rel \<beta> c m" and "isPromoted (st I)"
  shows "(\<exists>\<beta>' c' L. builtin_malloc c (uint sz) = (c', L) \<and> mem_rel \<beta>' c' (fst (malloc m sz)) \<and>
      ptr_rel \<beta>' (fst (malloc m sz)) L (snd (malloc m sz)) \<and> (\<forall>b. b \<noteq> fresh m \<longrightarrow> \<beta>' b = \<beta> b)) \<and>
    (\<forall>L p. ptr_rel \<beta> m L p \<longrightarrow>
      (case free m p of
         Inr m' \<Rightarrow> \<exists>c'. builtin_free c L = Inr c' \<and> mem_rel \<beta> c' m'
       | Inl e \<Rightarrow> builtin_free c L = Inl (UNDEF ''STDLIB2''))) \<and>
    (\<forall>L p b n ks. ptr_rel \<beta> m L p \<and> inside m b n p \<longrightarrow>
      (case walk (ptr_add m) p ks of
         Inr q \<Rightarrow> \<exists>L'. walk (add_step c I) (Pv L char_pointer) ks = Inr (Pv L' char_pointer) \<and> ptr_rel \<beta> m L' q
       | Inl e \<Rightarrow> \<exists>e'. walk (add_step c I) (Pv L char_pointer) ks = Inl e' \<and> out_of_bounds e')) \<and>
    (\<forall>L b i k. ptr_rel \<beta> m L (Ptr b i) \<and> objs m b = None \<longrightarrow>
      ptr_add m (Ptr b i) k = Inl DeadObject \<and>
      (\<exists>e. add_step c I (Pv L char_pointer) k = Inl e \<and> (e = UNDEF ''CEA1'' \<or> e = UNDEF ''CEE4''))) \<and>
    (\<forall>L L' b b' i j. ptr_rel \<beta> m L (Ptr b i) \<and> ptr_rel \<beta> m L' (Ptr b' j) \<and> intInRange (i - j) (Basic LongInt) \<longrightarrow>
      (case ptr_diff (Ptr b i) (Ptr b' j) of
         Inr d \<Rightarrow> sub_pointers (Pv L char_pointer) (Pv L' char_pointer) = Inr (Tv (i - j) ptrdiff_type) \<and>
           d = word_of_int (i - j)
       | Inl e \<Rightarrow> sub_pointers (Pv L char_pointer) (Pv L' char_pointer) = Inl (UNDEF ''CEA5''))) \<and>
    (\<forall>L L' p q e. ptr_rel \<beta> m L p \<and> ptr_rel \<beta> m L' q \<longrightarrow>
      equal_pointers e (Pv L char_pointer) (Pv L' char_pointer) =
        Inr (Tv (if (p = q) = e then 1 else 0) int_type)) \<and>
    (\<forall>k. ptr_add m NullPtr k = Inl NullDeref \<and>
      add_step c I (Pv NullPointer char_pointer) k = Inr (Pv NullPointer char_pointer))"
proof (intro conjI allI impI; (elim conjE)?)
  show "\<exists>\<beta>' c' L. builtin_malloc c (uint sz) = (c', L) \<and> mem_rel \<beta>' c' (fst (malloc m sz)) \<and>
      ptr_rel \<beta>' (fst (malloc m sz)) L (snd (malloc m sz)) \<and> (\<forall>b. b \<noteq> fresh m \<longrightarrow> \<beta>' b = \<beta> b)"
    using malloc_refines [OF assms(1), of sz] by (cases "malloc m sz") auto
  show "ptr_add m NullPtr k = Inl NullDeref"
    and "add_step c I (Pv NullPointer char_pointer) k = Inr (Pv NullPointer char_pointer)" for k
    using assms(2) by (simp_all add: ptr_add_def null_plus)
qed (use assms free_refines walks_agree dead_agrees difference_agrees equality_agrees
      in \<open>(fastforce simp: intInRange_def)+\<close>)

definition demo_mem :: mem where
  "demo_mem = \<lparr>objs = Map.empty, fresh = 0, malloced = Map.empty\<rparr>"

lemma demo_mem_rel: "mem_rel (\<lambda>b. Obj (int b) 16 AllocDur) demo_heap demo_mem"
  by (simp add: mem_rel_def same_object_def demo_heap_def demo_mem_def resolved_def isLinkBase_def
      isNativeLoc_def isStaticDuration_def)

theorem heap_and_pointers_refine_semantics_witness:
  "\<exists>\<beta>' c' L. builtin_malloc demo_heap 3 = (c', L) \<and> mem_rel \<beta>' c' (fst (malloc demo_mem 3)) \<and>
     ptr_rel \<beta>' (fst (malloc demo_mem 3)) L (Ptr 0 0)"
proof -
  have "snd (malloc demo_mem 3) = Ptr 0 0"
    by (simp add: malloc_def demo_mem_def maxHeapBound_def)
  with heap_and_pointers_refine_semantics [OF demo_mem_rel, of int_type 3] show ?thesis by auto
qed

end
