(* ===== verification/KArithGaps.thy ===== *)
theory KArithGaps
  imports KArithProps
begin

text \<open>
  Where the rules for integers do not determine one result, exactly: which conversions have two
  results, and which conversions and operators have none because no rule of the semantics
  applies.
\<close>

section \<open>Conversions with two results\<close>

lemma bool_range: "imin BoolType = 0" "imax BoolType = 255"
  by (simp_all add: range_simps)

lemma smod_256: "255 < v \<Longrightarrow> v smod 256 = v mod (256 :: int)"
  by (rule smod_eq_mod) simp_all

text \<open>
  For \<open>_Bool\<close>, whose range is that of a byte, the rule of \<open>_Bool\<close> always applies; beside it the
  rule for compatible types, or the two rules that reduce a value outside the range.
\<close>

lemma cast_rule_bool:
  assumes "isBool (st T')"
  shows "cast_rule T' (Tv v T) e r \<longleftrightarrow>
    r = Inr (Tv (if v = 0 then 0 else 1) (castTypes T' T)) \<or>
    areCompat (st T') (st T) \<and> r = Inr (Tv v (castTypes T' T)) \<or>
    (v < 0 \<or> v > 255) \<and> r = Inr (Tv (v mod 256) (castTypes T' T))"
proof -
  from assms have "st T' = Basic BoolType" by (cases "st T'") simp_all
  then show ?thesis by (auto simp: cast_rule_Tv bool_range hasLint_def smod_256)
qed

lemma two_conversions:
  assumes "well_typed (Tv v T)"
  shows "(\<exists>r r'. cast_rule T' (Tv v T) e r \<and> cast_rule T' (Tv v T) e r' \<and> r \<noteq> r') \<longleftrightarrow>
    isBool (st T') \<and> (areCompat (st T') (st T) \<and> v \<notin> {0, 1} \<or> (v < 0 \<or> v > 255) \<and> v mod 256 \<noteq> 1)"
proof (cases "isBool (st T')")
  case False
  with cast_rule_unique [OF _ assms] show ?thesis by blast
next
  case True
  define r0 where "r0 = (Inr (Tv (if v = 0 then 0 else 1) (castTypes T' T)) :: kres)"
  have "cast_rule T' (Tv v T) e r0" by (simp add: cast_rule_bool [OF True] r0_def)
  then have "(\<exists>r r'. cast_rule T' (Tv v T) e r \<and> cast_rule T' (Tv v T) e r' \<and> r \<noteq> r') \<longleftrightarrow>
      (\<exists>r. cast_rule T' (Tv v T) e r \<and> r \<noteq> r0)" by metis
  also have "\<dots> \<longleftrightarrow> areCompat (st T') (st T) \<and> Inr (Tv v (castTypes T' T)) \<noteq> r0 \<or>
      (v < 0 \<or> v > 255) \<and> Inr (Tv (v mod 256) (castTypes T' T)) \<noteq> r0"
    unfolding cast_rule_bool [OF True] r0_def by blast
  also have "\<dots> \<longleftrightarrow> areCompat (st T') (st T) \<and> v \<notin> {0, 1} \<or> (v < 0 \<or> v > 255) \<and> v mod 256 \<noteq> 1"
    by (cases "v = 0") (simp_all add: r0_def)
  finally show ?thesis using True by (simp only: simp_thms)
qed

section \<open>Conversions with no result\<close>

lemma cast_stuck:
  "cast T' (Tv v T) e = Inl Stuck \<longleftrightarrow>
    is_enum (st T') \<and> \<not> areCompat (st T') (st T) \<and> \<not> intInRange v (st T')"
  by (cases "st T'") (auto simp: cast_def Let_def intInRange_def hasLint_def)

lemma no_conversion_rule: "(\<nexists>r. cast_rule T' (Tv v T) e r) \<longleftrightarrow> cast T' (Tv v T) e = Inl Stuck"
proof
  assume "cast T' (Tv v T) e = Inl Stuck"
  then obtain tag t where "st T' = Enum tag t" "\<not> areCompat (st T') (st T)" "\<not> intInRange v (st T')"
    unfolding cast_stuck by (cases "st T'") simp_all
  then show "\<nexists>r. cast_rule T' (Tv v T) e r" by (simp add: cast_rule_Tv)
qed (use cast_by_rule in blast)

section \<open>Operators with no result\<close>

text \<open>
  An enumeration counts as promoted. Its operand keeps its type when the operator is a shift or
  when the other operand has a compatible type after its promotion; otherwise both operands are
  converted to a basic type.
\<close>

definition keeps_enum :: "binop \<Rightarrow> itype \<Rightarrow> itype \<Rightarrow> bool" where
  "keeps_enum f s t \<longleftrightarrow> is_enum s \<and> (conversionOp f \<longrightarrow> areCompat s (promoted_st t))"

lemma convert_operands_kept:
  assumes "well_typed x" and "well_typed y" and "keeps_enum f (st (ttype x)) (st (ttype y))"
  shows "\<exists>S T. convert_operands f x y = Inr (Tv (tval x) S, Tv (tval y) T) \<and> st S = st (ttype x) \<and>
    st T = promoted_st (st (ttype y)) \<and> isPromoted (st T)"
proof -
  from assms(3) have "isPromoted (st (ttype x))" by (cases "st (ttype x)") (simp_all add: keeps_enum_def)
  then have x: "promote_operand x = Inr x" by (simp add: promote_operand_def)
  from promote_operand_spec [OF assms(2)] promote_operand_type [OF assms(2)] obtain T where
    T: "promote_operand y = Inr (Tv (tval y) T)" "isPromoted (st T)" "st T = promoted_st (st (ttype y))"
    by fastforce
  obtain l r where lr: "strip_operands f x (Tv (tval y) T) = (l, r)" by fastforce
  with strip_operands_spec [of f x "Tv (tval y) T"]
  have l: "l = Tv (tval x) (ttype l)" "st (ttype l) = st (ttype x)"
    and r: "r = Tv (tval y) (ttype r)" "st (ttype r) = st T" by (metis fst_conv snd_conv tvalue.collapse tvalue.sel)+
  with assms(3) T(3) have "usual_operands f l r = Inr (l, r)" by (auto simp: usual_operands_def keeps_enum_def)
  with l r T x lr show ?thesis by (metis bindr_Inr convert_operands_def prod.case)
qed

lemma usual_operands_basic:
  assumes "well_typed x" and "well_typed y" and "conversionOp f" and "\<not> areCompat (st (ttype x)) (st (ttype y))"
    and "usual_operands f x y = Inr (x', y')"
  shows "\<not> is_enum (st (ttype x'))"
proof -
  from common_int_spec [of "ttype x" "ttype y"] assms(1,2) obtain u m where
    U: "common_int (ttype x) (ttype y) = Some (Ut m (Basic u))"
    unfolding well_typed_def by blast
  from assms(3-5) obtain z where "cast (Ut m (Basic u)) x False = Inr x'"
    by (auto simp: usual_operands_def U bindr_eq_Inr)
  then show ?thesis by (auto simp: cast_def Let_def castTypes_def split: if_splits)
qed

lemma converted_progress:
  assumes "well_typed x" and "well_typed y" and "\<not> keeps_enum f (st (ttype x)) (st (ttype y))"
  shows "eval_binop f x y \<noteq> Inl Stuck"
proof (cases "is_enum (st (ttype x))")
  case False
  with eval_binop_progress [OF assms(1,2)] show ?thesis by blast
next
  case True
  with assms(3) have f: "conversionOp f" and nc: "\<not> areCompat (st (ttype x)) (promoted_st (st (ttype y)))"
    by (simp_all add: keeps_enum_def)
  from True have "isPromoted (st (ttype x))" by (cases "st (ttype x)") simp_all
  then have x: "promote_operand x = Inr x" by (simp add: promote_operand_def)
  from promote_operand_spec [OF assms(2)] promote_operand_type [OF assms(2)] obtain T where
    T: "promote_operand y = Inr (Tv (tval y) T)" "well_typed (Tv (tval y) T)" "st T = promoted_st (st (ttype y))"
    by fastforce
  obtain l r where lr: "strip_operands f x (Tv (tval y) T) = (l, r)" by fastforce
  with strip_operands_spec [of f x "Tv (tval y) T"] assms(1) T(2,3) nc
  have "well_typed l" "well_typed r" "\<not> areCompat (st (ttype l)) (st (ttype r))" by simp_all
  note basic = usual_operands_basic [OF this(1,2) f this(3)]
  from convert_operands_spec [OF assms(1,2), of f] obtain x' y' where
    c: "convert_operands f x y = Inr (x', y')" "well_typed x'" "isPromoted (st (ttype x'))"
      "isPromoted (st (ttype y'))" "areCompat (st (ttype x')) (st (ttype y'))" using f by blast
  from c(1) have "usual_operands f l r = Inr (x', y')" by (simp add: convert_operands_def x T(1) lr)
  from apply_binop_progress [OF c(3,4) _ basic [OF this] c(2), of f] c(5) show ?thesis
    by (simp add: eval_binop_def c(1))
qed

text \<open>On operands of an enumeration type, the operators one by one.\<close>

definition enum_gap :: "binop \<Rightarrow> ityp \<Rightarrow> int \<Rightarrow> int \<Rightarrow> bool" where
  "enum_gap f t a b = (case f of
     Arith g \<Rightarrow> \<not> intInRange (int_op g a b) (Basic t)
   | Divide \<Rightarrow> b \<noteq> 0 \<and> \<not> intInRange (a sdiv b) (Basic t)
   | Modulo \<Rightarrow> False
   | Bit g \<Rightarrow> True
   | Rel g \<Rightarrow> False
   | Shift g \<Rightarrow> 0 \<le> b \<and> b < int (numBits t))"

lemma intArith_enum:
  "st T = Enum tag t \<Longrightarrow> intArithInterpret T n o1 = (if intInRange n (Basic t) then Inr (Tv n T) else Inl Stuck)"
  by (auto simp: intArithInterpret_def intInRange_def)

lemma bitwise_enum: "st T = Enum tag t \<Longrightarrow> bitwiseInterpret T n z o1 = Inl Stuck"
  by (simp add: bitwiseInterpret_def)

lemma apply_binop_enum:
  assumes "st S = Enum tag t" and "intInRange a (Basic t)" and "isPromoted (st T)"
    and "conversionOp f \<longrightarrow> areCompat (st S) (st T)"
  shows "apply_binop f (Tv a S) (Tv b T) = Inl Stuck \<longleftrightarrow> enum_gap f t a b"
proof -
  have one: "one_type S T" if "conversionOp f" using that assms(1,4) by (simp add: one_type_def)
  show ?thesis
  proof (cases f)
    case (Shift g)
    with assms show ?thesis
      by (cases g) (simp_all add: apply_shift_def enum_gap_def bitwise_enum)
  next
    case Modulo
    with one assms smod_in_range [OF assms(2), of b] show ?thesis
      by (simp add: conversionOp_def enum_gap_def intArith_enum)
  qed (use one assms in \<open>simp_all add: conversionOp_def enum_gap_def intArith_enum bitwise_enum makeTruth_def\<close>)
qed

lemma eval_binop_stuck:
  assumes "well_typed x" and "well_typed y"
  shows "eval_binop f x y = Inl Stuck \<longleftrightarrow> (\<exists>tag t. st (ttype x) = Enum tag t \<and>
    keeps_enum f (Enum tag t) (st (ttype y)) \<and> enum_gap f t (tval x) (tval y))"
proof (cases "keeps_enum f (st (ttype x)) (st (ttype y))")
  case False
  with converted_progress [OF assms False] show ?thesis by auto
next
  case True
  then obtain tag t where e: "st (ttype x) = Enum tag t" by (cases "st (ttype x)") (simp_all add: keeps_enum_def)
  from convert_operands_kept [OF assms True] obtain S T where
    c: "convert_operands f x y = Inr (Tv (tval x) S, Tv (tval y) T)" "st S = Enum tag t"
      "st T = promoted_st (st (ttype y))" "isPromoted (st T)" unfolding e by blast
  have "intInRange (tval x) (Basic t)" using assms(1) e by (simp add: well_typed_def intInRange_def)
  from apply_binop_enum [OF c(2) this c(4), of f "tval y"] True c e show ?thesis
    by (auto simp: eval_binop_def keeps_enum_def)
qed

lemma eval_unop_stuck:
  assumes "well_typed x"
  shows "eval_unop g x = Inl Stuck \<longleftrightarrow> (\<exists>tag t. st (ttype x) = Enum tag t \<and>
    (g = Complement \<or> g = Minus \<and> \<not> intInRange (- tval x) (Basic t)))"
proof (cases "g = LogicalNot")
  case True
  have "well_typed (const_int 0)" by (rule well_typed_const_int) simp_all
  from eval_binop_progress [OF this assms, of "Rel Eq"] True show ?thesis by (simp add: eval_unop_def)
next
  case False
  show ?thesis
  proof (cases "is_enum (st (ttype x))")
    case False
    with eval_unop_sound(2) [OF assms, of g] show ?thesis by auto
  next
    case True
    then obtain tag t where e: "st (ttype x) = Enum tag t" by (cases "st (ttype x)") simp_all
    obtain a T where x: "x = Tv a T" by (cases x)
    have "promote_operand x = Inr x" by (simp add: promote_operand_def e)
    moreover have "intInRange a (Basic t)" using assms e by (simp add: well_typed_def intInRange_def x)
    ultimately show ?thesis
      using e \<open>g \<noteq> LogicalNot\<close> by (cases g) (simp_all add: eval_unop_def x intArith_enum bitwise_enum)
  qed
qed

section \<open>Properties\<close>

text \<open>
  C39: exactly where the rules for integers leave the result open. A conversion of a well-typed
  value has two different results if and only if the target is \<open>_Bool\<close> and either the source
  type is compatible with it and the value is neither 0 nor 1, or the value lies outside the
  range of a byte and is not 1 modulo 256; it has none if and only if the target is an
  enumeration that is not compatible with the source type and cannot represent the value. A
  binary operator on well-typed operands has no applicable rule if and only if the left operand
  is of an enumeration type that it keeps (the operator is a shift, or the promoted type of the
  right operand is compatible with the enumeration), and the operator is bitwise, or a shift by
  a permitted count, or a sum, difference, product or quotient outside the range of the alias;
  and a unary operator if and only if it is \<open>~\<close> on an enumeration, or \<open>-\<close> on one whose alias
  cannot represent the result.\<close>
theorem integer_rules_gaps:
  assumes "well_typed x" and "well_typed y"
  shows "((\<exists>r r'. cast_rule T' x e r \<and> cast_rule T' x e r' \<and> r \<noteq> r') \<longleftrightarrow>
      isBool (st T') \<and> (areCompat (st T') (st (ttype x)) \<and> tval x \<notin> {0, 1} \<or>
        (tval x < 0 \<or> tval x > 255) \<and> tval x mod 256 \<noteq> 1)) \<and>
    ((\<nexists>r. cast_rule T' x e r) \<longleftrightarrow>
      is_enum (st T') \<and> \<not> areCompat (st T') (st (ttype x)) \<and> \<not> intInRange (tval x) (st T')) \<and>
    (eval_binop f x y = Inl Stuck \<longleftrightarrow> (\<exists>tag t. st (ttype x) = Enum tag t \<and>
      keeps_enum f (Enum tag t) (st (ttype y)) \<and> enum_gap f t (tval x) (tval y))) \<and>
    (eval_unop g x = Inl Stuck \<longleftrightarrow> (\<exists>tag t. st (ttype x) = Enum tag t \<and>
      (g = Complement \<or> g = Minus \<and> \<not> intInRange (- tval x) (Basic t))))"
  using two_conversions [of "tval x" "ttype x" T' e] no_conversion_rule [of T' "tval x" "ttype x" e]
    cast_stuck [of T' "tval x" "ttype x" e] eval_binop_stuck [OF assms, of f]
    eval_unop_stuck [OF assms(1), of g] assms(1)
  by (simp only: tvalue.collapse simp_thms)

abbreviation demo_enum :: "int \<Rightarrow> tvalue" where
  "demo_enum n \<equiv> Tv n (bare (Enum (NamedTag ''e'') UnsignedInt))"

theorem integer_rules_gaps_witness:
  "(\<exists>r r'. cast_rule (bare (Basic BoolType)) (int_value 256) True r \<and>
      cast_rule (bare (Basic BoolType)) (int_value 256) True r' \<and> r \<noteq> r') \<and>
   (\<nexists>r. cast_rule (bare (Enum (NamedTag ''e'') UnsignedInt)) (int_value (- 1)) True r) \<and>
   eval_binop (Bit BitAnd) (demo_enum 1) (demo_enum 3) = Inl Stuck \<and>
   eval_binop (Arith Add) (demo_enum 1) (demo_enum 3) \<noteq> Inl Stuck \<and>
   eval_unop Complement (demo_enum 1) = Inl Stuck"
proof -
  have ok: "well_typed (int_value 256)" "well_typed (int_value (- 1))" "well_typed (demo_enum 1)"
    "well_typed (demo_enum 3)" by (simp_all add: well_typed_def range_simps)
  have kept: "keeps_enum f (Enum (NamedTag ''e'') UnsignedInt) (Enum (NamedTag ''e'') UnsignedInt)" for f
    by (simp add: keeps_enum_def promoted_st_def)
  show ?thesis
    using integer_rules_gaps [OF ok(1,1), of "bare (Basic BoolType)" True]
      integer_rules_gaps [OF ok(2,2), of "bare (Enum (NamedTag ''e'') UnsignedInt)" True]
      integer_rules_gaps [OF ok(3,4), of _ _ "Bit BitAnd" Complement]
      integer_rules_gaps [OF ok(3,4), of _ _ "Arith Add"]
    by (simp add: kept enum_gap_def range_simps)
qed

end
