(* ===== verification/Spec2Isabelle.thy ===== *)
theory Spec2Isabelle
  imports LibcFrame LibcMisc LibcMath ServerSafe KastTotal Visitor NativeLink ExtractRefs WriteLong KMemRefine KArithGaps
begin

text \<open>
  A verification development for the C and C++ code of the C semantics project (kcc).

  \<^bold>\<open>The program.\<close> The project is a compiler driver around an executable semantics of C and
  C++. Its semantics is written in K, its C parser in OCaml and its drivers in Perl and Bash. This
  development models the code in C and C++, and of the rest what that code meets: the rules of
  the semantics by which it is run, and the scripts between the call site tool and the native
  server. The parts are these.

  \<^item> The clang tool (src/clang-tools/ClangKast) turns a C++ translation unit into a term of the
    semantics: a visitor walks over clang's syntax tree and adds one node after the other to a
    vector, and at the end the vector is printed as a nested term.
  \<^item> The native server (src/native-server, with the platform layer
    src/profiles/x86-gcc-limited-libc/native/platform.c) runs native code for the interpreter:
    it receives memory regions over a pipe, calls a function on them and sends them back.
  \<^item> The C library of the profile (src/profiles/x86-gcc-limited-libc) holds the library functions
    that are written in C and therefore interpreted by the semantics, and the headers that state
    the limits of the types.
  \<^item> The call site tool (src/clang-tools/CallSites) lists the kinds of the calls of a translation
    unit. From its lines the driver (src/scripts/kcc) and the scripts make-trampolines and
    make-symbols make the C functions by which the native server calls native code, and the table
    in which it finds them.
  \<^item> The rules of the semantics for integers (src/semantics/c/language/common: types, promotions,
    conversions and operators), for pointers (src/semantics/common/symloc.k, check-use.k and the
    operators on pointers), for the heap (src/semantics/c/library/stdlib.k with memory/alloc.k and
    execution/io.k) and for the bytes of stored values (src/semantics/common/bits.k).
  \<^item> Two scripts: extract-references.cpp collects the references to the standard from the sources
    of the semantics, writelong.c writes a number as eight bytes.

  The parts run in different processes: the tool produces the term that the interpreter runs,
  the library is among the programs it runs, and the server is its peer for native calls, through
  trampolines that the call site tool has asked for.

  \<^bold>\<open>Theories.\<close>

  \<^item> Prelude: machine words, results with errors, little-endian encodings, the predicate
    \<open>runs\<close> for computations that succeed with a postcondition.
  \<^item> CMem: objects of bytes, pointers, undefined behaviour as errors, \<open>malloc\<close> and
    \<open>free\<close> as src/semantics/c/library/stdlib.k defines them; regions, C strings and
    disjointness as predicates on memories.
  \<^item> LibcString, LibcToken: src/profiles/x86-gcc-limited-libc/src/string.c, one definition per
    function and one per loop. \<open>strlen\<close> and \<open>strcpy\<close> follow string.k and io.k.
  \<^item> LibcFrame: what the writing functions of string.c leave alone, proved once in the locale
    \<open>frame\<close> for every relation that stores into one object keep, and interpreted on the
    relation that fixes the shape of the memory.
  \<^item> LibcMisc: builtins.c, stdlib.c, \<open>abs\<close> of math.c; limits.h, stdint.h and float.h beside
    c-settings.k. LibcMath: \<open>fabs\<close> and \<open>pow\<close> of math.c on the bits of doubles.
  \<^item> KTypes: the integer types of the semantics, with sizes, ranges and compatibility. KArith: the
    rules for promotions, conversions and operators; a rule that reports is an error with its code,
    and a term without an applicable rule is \<open>Stuck\<close>. KArithSound and KArithProps: the
    operators against exact arithmetic, and the locale \<open>word_type\<close> of an unsigned type whose
    values are the words of a length, interpreted on unsigned int and unsigned long. KArithGaps:
    exactly where the rules for integers have two results or none.
  \<^item> KBits: how values become bytes and bytes values.
  \<^item> KPointer: locations with their provenance, the check before a pointer is used, and the
    operators on pointers. KPointerProps: the contract of pointer arithmetic as the locale
    \<open>bounded_walk\<close>, met by the rules for every pointer into a live array. KHeap: \<open>malloc\<close>,
    \<open>aligned_alloc\<close>, \<open>calloc\<close>, \<open>realloc\<close> and \<open>free\<close> of the semantics, and calls
    of them one after the other. KMemRefine: the heap and the pointers of CMem as an
    abstraction of KHeap and KPointer, with \<open>bounded_walk\<close> interpreted on the pointers of
    CMem as well, so that the two agree.
  \<^item> NativeServer: server.c, server.h, main.c over the operations of platform.h, which are a
    record of functions. Platform: platform.c on streams that may end or fail, the contract of
    platform.h as the locale \<open>platform_contract\<close>, and its interpretation on platform.c.
    ServerSpec: requests and replies as values, their encodings, and the handlers against them.
    ServerRefine: an abstract machine as a step relation, the handlers that stop with an error,
    and the command loop as a simulation of the machine. ServerSafe: that no access is out of
    bounds, in the locale \<open>bounded_platform\<close> of a layer that writes no more than it is asked
    for, interpreted on stdio.
  \<^item> KastPrint: ClangKast.h and ClangKast.cc up to the printing of the vector, and the terms that
    a vector of nodes stands for. KastTotal: printing on any vector.
  \<^item> VisitorBase, VisitType, VisitStmt, VisitDecl, Visitor: GetKastVisitor.h. A method is the list
    of its statements, each of which adds nodes, returns or throws. The locale
    \<open>sub_traversal\<close> is the contract between a method and the traversals it calls: every
    traversal adds the number of terms that a count predicts. It is interpreted on the
    recursion of the visitor in Visitor, which also holds the consumer and \<open>main\<close>.
    VisitMono: a tree that is well-formed at some depth is well-formed at every greater one, and a
    traversal that ends at some depth ends the same way at every greater one, as the locales
    \<open>more_counts\<close> and \<open>deeper\<close>, interpreted at the depths of the recursion.
  \<^item> CallSites: CallSites.cc, with what it writes kept beside the exception that ends it, the
    signature of a call, and a reader of the lines. Trampolines: make-trampolines on the words of a
    line. TrampolineSpec: the trampoline of a signature, and that the script writes it. NativeLink:
    make-symbols and the pipeline of kcc.
  \<^item> ExtractRefs: extract-references.cpp, with the backtracking search of its regular expression,
    a directory tree as the file system, and a reader of JSON. WriteLong: writelong.c.

  \<^bold>\<open>What is shown.\<close>

  \<^item> The tool: on well-formed trees the visitor leaves exactly one complete term for each unit in
    the vector, and the first is printed as the nested term with its injections, or the visitor
    throws (C1, C2, C14); printing ends on every vector (C16); what is escaped can be read back
    (C29). Not all trees of valid programs are well-formed in this sense: on references with
    explicit template arguments and on defaulted functions with a body the visitor adds terms that
    nothing expects (C40). Lemmas beside these: a class without a method is an error, and which
    numbers fit the buffer they are printed to.
  \<^item> The server: memory safety on every input (C3), whole sessions on stdio (C4), the refinement of
    the abstract machine with its errors (C5), the delivery of replies (C27), and the end of the
    input (C38). Lemmas beside these: the transfer of large regions in pieces, the writing of dirty
    regions, the round trip of a call.
  \<^item> The library: tokenizing (C7), moving (C8), what writing leaves alone (C24), searching and
    comparing (C15, C33, C34), concatenating and copying (C35), numbers (C36, C37). Lemmas:
    \<open>strcat\<close>, \<open>memcpy\<close>, the byte swaps, and which macros of the limit headers differ
    from the configuration. The heap and the pointer operations of the memory these are proved on
    are those of the rules of the semantics, but for additions to the null pointer; its loads and
    stores are not compared with them (C9).
  \<^item> The semantics of integers: exact or wrapped arithmetic (C6), type soundness (C11), division and
    shifts (C25), unsigned types as machine words (C26), where the rules leave the result open (C39),
    values stored and read back (C17), and that pointers come only from their own bytes (C18). C6
    and C25 are about left operands that are not of enumeration type. A lemma relates the checked arithmetic of the
    library's model to these rules.
  \<^item> The semantics of pointers and of the heap: arithmetic stays in its array or is reported (C10),
    difference and comparison agree with addition (C21), the heap after any calls (C19), what
    \<open>realloc\<close> and \<open>calloc\<close> leave (C20). Lemmas: exactly which comparisons and differences of
    pointers have no rule.
  \<^item> The native calls: lines and signatures determine each other (C22), what the call site tool does
    not support stops it (C31), each supported signature gets its trampoline (C13), and a program
    gets exactly the trampolines and symbols it needs (C12).
  \<^item> The scripts: the references of a tree (C23), of a line (C28) and their JSON (C30); the bytes of
    a number (C32).

  \<^bold>\<open>Bounds.\<close> Loops over memory terminate because each pass leaves less of an object; the scans are
  total functions with that measure. Three recursions are bounded by a number. The visitor and
  the printer recurse to a depth. \<open>count_terms\<close> is defined only for trees that are finite and
  for depths from their height on; that a tree is well-formed therefore says that some depth is
  enough for it, and C1 states that no greater depth changes the outcome. Printing a vector needs no
  more than its length and one, which C16 states. The command loop is bounded by its passes: one more than the number of requests is enough, which C4
  and C5 state. The calls of \<open>strtok_r\<close> are bounded by more than the length of the string.

  \<^bold>\<open>Parameters.\<close> clang's syntax tree is given by pointers to records of what the visitor reads of a
  node; for a class without a \<open>Traverse\<close> method, the node carries its chain of classes and
  the calls that clang's traversal makes for its parts. The native code behind a trampoline,
  \<open>calloc\<close> of the native process and the generated table of symbols are arguments of the
  server. The pipes are streams whose contents and failures are given. The call site tool is given
  the calls and names in the order in which clang visits them, and the types as trees; the reference
  extractor the tree of files. cdecl, which turns a type in English into a declaration in C, and the
  symbols that native libraries define are arguments of the scripts' models; exp, log and the
  product of doubles are arguments of \<open>pow\<close>.

  \<^bold>\<open>What is not modelled.\<close> The text of \<open>strerror\<close>. Of the semantics everything but the rules
  above: floating values, unknown values and integers that hold pointers as operands; pointers to
  structures and unions; reading and writing of memory with its effective types, sequencing and
  buffered writes; declarations, statements, linking, and C++. These rules rewrite a configuration
  of many cells by contexts and strictness, which a model by functions would have to replace rather
  than translate. The C parser (OCaml), the driver beside its pipeline for native calls (Perl), and
  the build. Headers without code; examples and tests.
\<close>

end
